(* ===== verification/Prelude.thy ===== *)
theory Prelude
  imports Main "HOL-Library.Char_ord" "HOL-Library.List_Lexorder"
    "HOL-Library.Product_Lexorder" "HOL-Library.Word"
begin

text \<open>
  What the components share: the fragment of the C and C++ standard libraries the
  program uses.  Bytes and characters are both HOL's \<open>char\<close> (eight bits, ordered by
  their unsigned value, as \<open>memcmp\<close> and \<open>std::string\<close> compare them).  A
  \<open>std::unordered_map\<close> is a partial map; \<open>operator[]\<close>, which inserts a default
  value for a missing key, is split into its result (\<open>mget\<close>) and its effect on the
  container (\<open>mtouch\<close>).  An exception or an access with undefined behaviour is a
  value of \<open>fault\<close>.
\<close>

type_synonym byte = char

named_theorems cpp_defs "definitions of the standard library fragment"
named_theorems op_defs "definitions of the operations of the components"

section \<open>Faults\<close>

datatype fault =
    InvalidArgument     \<comment> \<open>\<open>std::invalid_argument\<close>, thrown by \<open>stoi\<close>\<close>
  | OutOfRange          \<comment> \<open>\<open>std::out_of_range\<close>, thrown by \<open>stoi\<close> or \<open>substr\<close>\<close>
  | BadIndex            \<comment> \<open>\<open>operator[]\<close> of a vector past its end\<close>
  | IteratorInvalid     \<comment> \<open>use of an iterator to an erased element\<close>
  | SignedOverflow      \<comment> \<open>overflow of an \<open>int\<close> computation\<close>
  | DivisionByZero      \<comment> \<open>\<open>%\<close> with a zero divisor\<close>
  | UseAfterFree        \<comment> \<open>access to, or a second \<open>delete\<close> of, freed memory\<close>
  | NullPointer         \<comment> \<open>access through a null pointer\<close>
  | BufferOverflow      \<comment> \<open>a copy past the end of an array\<close>
  | SystemError         \<comment> \<open>\<open>std::system_error\<close>, thrown where a thread cannot be created\<close>

section \<open>Elimination of branches\<close>

text \<open>For a definition that is a chain of \<open>if\<close>s: one goal for each branch.\<close>

lemma if_eqE: "(if b then x else y) = z \<Longrightarrow> (b \<Longrightarrow> x = z \<Longrightarrow> P) \<Longrightarrow> (\<not> b \<Longrightarrow> y = z \<Longrightarrow> P) \<Longrightarrow> P"
  by (cases b) simp_all

lemma prod_caseE: "(case p of (a, b) \<Rightarrow> f a b) = z \<Longrightarrow> (\<And>a b. p = (a, b) \<Longrightarrow> f a b = z \<Longrightarrow> P) \<Longrightarrow> P"
  by (cases p) simp

lemma sum_caseE:
  "(case s of Inl e \<Rightarrow> f e | Inr v \<Rightarrow> g v) = z \<Longrightarrow> (\<And>e. s = Inl e \<Longrightarrow> f e = z \<Longrightarrow> P) \<Longrightarrow>
   (\<And>v. s = Inr v \<Longrightarrow> g v = z \<Longrightarrow> P) \<Longrightarrow> P"
  by (cases s) simp_all

lemmas branchE = if_eqE prod_caseE sum_caseE

section \<open>Maps with a default, \<open>operator[]\<close>\<close>

definition mget :: "'v \<Rightarrow> ('k \<rightharpoonup> 'v) \<Rightarrow> 'k \<Rightarrow> 'v" where
  "mget d m k = (case m k of None \<Rightarrow> d | Some v \<Rightarrow> v)"

definition mtouch :: "'v \<Rightarrow> ('k \<rightharpoonup> 'v) \<Rightarrow> 'k \<Rightarrow> ('k \<rightharpoonup> 'v)" where
  "mtouch d m k = m(k \<mapsto> mget d m k)"

lemma mget_Some [simp]: "m k = Some v \<Longrightarrow> mget d m k = v"
  by (simp add: mget_def)

lemma mget_None [simp]: "m k = None \<Longrightarrow> mget d m k = d"
  by (simp add: mget_def)

lemma mget_upd [simp]: "mget d (m(k \<mapsto> v)) k' = (if k' = k then v else mget d m k')"
  by (simp add: mget_def)

lemma mget_del [simp]: "mget d (m(k := None)) k' = (if k' = k then d else mget d m k')"
  by (simp add: mget_def)

lemma mget_mtouch [simp]: "mget d (mtouch d m k) k' = mget d m k'"
  by (simp add: mtouch_def)

lemma mtouch_Some [simp]: "m k = Some v \<Longrightarrow> mtouch d m k = m"
  by (auto simp: mtouch_def mget_def)

lemma mtouch_other [simp]: "k' \<noteq> k \<Longrightarrow> mtouch d m k k' = m k'"
  by (simp add: mtouch_def)

lemma mtouch_upd [simp]: "(mtouch d m k)(k := w) = m(k := w)"
  by (simp add: mtouch_def)

lemma mtouch_same: "mtouch d m k k = Some (mget d m k)"
  by (simp add: mtouch_def)

lemma mtouch_SomeD: "mtouch d m k k' = Some v \<Longrightarrow> m k' = Some v \<or> m k' = None \<and> v = d"
  by (auto simp: mtouch_def mget_def split: if_splits option.splits)

section \<open>C strings\<close>

abbreviation NUL :: byte where
  "NUL \<equiv> CHR 0x00"

text \<open>The characters of a buffer up to its first NUL, as \<open>strlen\<close>, \<open>strcmp\<close> and
  \<open>std::string(const char *)\<close> read it.\<close>

definition c_str :: "byte list \<Rightarrow> string" where
  "c_str bs = takeWhile (\<lambda>c. c \<noteq> NUL) bs"

lemma c_str_NUL_free: "NUL \<notin> set s \<Longrightarrow> c_str s = s"
  by (auto simp: c_str_def takeWhile_eq_all_conv)

lemma c_str_terminated: "NUL \<notin> set s \<Longrightarrow> c_str (s @ NUL # rest) = s"
  by (simp add: c_str_def takeWhile_append)

lemma c_str_no_NUL: "NUL \<notin> set (c_str bs)"
  by (auto simp: c_str_def dest: set_takeWhileD)

section \<open>Numbers in decimal: \<open>std::to_string\<close> and \<open>std::stoi\<close>\<close>

abbreviation INT_MIN :: int where "INT_MIN \<equiv> - 2147483648"
abbreviation INT_MAX :: int where "INT_MAX \<equiv> 2147483647"

definition digit_char :: "nat \<Rightarrow> char" where
  "digit_char d = char_of (48 + d)"

fun nat_to_string :: "nat \<Rightarrow> string" where
  "nat_to_string n =
     (if n < 10 then [digit_char n]
      else nat_to_string (n div 10) @ [digit_char (n mod 10)])"

declare nat_to_string.simps [simp del]

definition to_string :: "int \<Rightarrow> string" where
  "to_string i =
     (if i < 0 then CHR ''-'' # nat_to_string (nat (- i)) else nat_to_string (nat i))"

definition isdigit :: "char \<Rightarrow> bool" where
  "isdigit c \<longleftrightarrow> 48 \<le> (of_char c :: nat) \<and> (of_char c :: nat) \<le> 57"

definition isspace :: "char \<Rightarrow> bool" where
  "isspace c \<longleftrightarrow> (of_char c :: nat) = 32 \<or> 9 \<le> (of_char c :: nat) \<and> (of_char c :: nat) \<le> 13"

definition digits_value :: "string \<Rightarrow> nat" where
  "digits_value ds = foldl (\<lambda>a c. a * 10 + ((of_char c :: nat) - 48)) 0 ds"

text \<open>\<open>strtol\<close>'s grammar: white space, an optional sign, the longest run of digits.\<close>

definition stoi :: "string \<Rightarrow> fault + int" where
  "stoi s =
     (let s1 = dropWhile isspace s;
          neg = (case s1 of [] \<Rightarrow> False | c # _ \<Rightarrow> c = CHR ''-'');
          s2 = (case s1 of [] \<Rightarrow> [] | c # cs \<Rightarrow> if c = CHR ''-'' \<or> c = CHR ''+'' then cs else s1);
          ds = takeWhile isdigit s2;
          v = (if neg then - int (digits_value ds) else int (digits_value ds))
      in if ds = [] then Inl InvalidArgument
         else if v < INT_MIN \<or> INT_MAX < v then Inl OutOfRange
         else Inr v)"

lemma of_char_digit_char [simp]: "d < 10 \<Longrightarrow> (of_char (digit_char d) :: nat) = 48 + d"
  by (simp add: digit_char_def)

lemma isdigit_digit_char [simp]: "d < 10 \<Longrightarrow> isdigit (digit_char d)"
  by (simp add: isdigit_def)

lemma nat_to_string_ne [simp]: "nat_to_string n \<noteq> []"
  by (subst nat_to_string.simps) simp

lemma nat_to_string_digits: "c \<in> set (nat_to_string n) \<Longrightarrow> isdigit c"
proof (induction n rule: nat_to_string.induct)
  case (1 n)
  then show ?case
    by (cases "n < 10") (auto simp: nat_to_string.simps [of n])
qed

lemma digits_value_snoc:
  "digits_value (ds @ [c]) = digits_value ds * 10 + ((of_char c :: nat) - 48)"
  by (simp add: digits_value_def)

lemma digits_value_nat_to_string: "digits_value (nat_to_string n) = n"
proof (induction n rule: nat_to_string.induct)
  case (1 n)
  show ?case
  proof (cases "n < 10")
    case True
    then show ?thesis by (simp add: nat_to_string.simps [of n] digits_value_def)
  next
    case False
    then show ?thesis
      using 1 by (simp add: nat_to_string.simps [of n] digits_value_snoc)
  qed
qed

lemma isdigit_not_special:
  "isdigit c \<Longrightarrow> c \<noteq> CHR ''-'' \<and> c \<noteq> CHR ''+'' \<and> c \<noteq> CHR '' '' \<and> c \<noteq> CHR 0x0A \<and> c \<noteq> NUL
     \<and> c \<noteq> CHR '':'' \<and> \<not> isspace c"
  by (auto simp: isdigit_def isspace_def)

lemma takeWhile_nat_to_string [simp]: "takeWhile isdigit (nat_to_string n) = nat_to_string n"
  using nat_to_string_digits by (auto simp: takeWhile_eq_all_conv)

lemma nat_to_string_first:
  obtains c cs where "nat_to_string n = c # cs" and "isdigit c"
  using nat_to_string_digits [of "hd (nat_to_string n)" n]
  by (cases "nat_to_string n") auto

lemma stoi_to_string:
  assumes "INT_MIN \<le> i" and "i \<le> INT_MAX"
  shows "stoi (to_string i) = Inr i"
proof (cases "i < 0")
  case True
  have "\<not> isspace (CHR ''-'')" by (simp add: isspace_def)
  with True assms show ?thesis
    by (simp add: stoi_def to_string_def digits_value_nat_to_string)
next
  case False
  obtain c cs where c: "nat_to_string (nat i) = c # cs" "isdigit c"
    by (rule nat_to_string_first)
  have tw: "takeWhile isdigit cs = cs"
    using takeWhile_nat_to_string [of "nat i"] c by simp
  have dv: "digits_value (c # cs) = nat i"
    by (metis c(1) digits_value_nat_to_string)
  show ?thesis
    using False assms c isdigit_not_special [OF c(2)]
    by (simp add: stoi_def to_string_def Let_def tw dv)
qed

lemma to_string_chars: "c \<in> set (to_string i) \<Longrightarrow> isdigit c \<or> c = CHR ''-''"
  by (auto simp: to_string_def dest: nat_to_string_digits split: if_splits)

lemma to_string_ne [simp]: "to_string i \<noteq> []"
  by (simp add: to_string_def)

lemma to_string_not_special:
  "CHR '' '' \<notin> set (to_string i) \<and> CHR 0x0A \<notin> set (to_string i) \<and> NUL \<notin> set (to_string i)
     \<and> CHR '':'' \<notin> set (to_string i)"
  using to_string_chars isdigit_not_special by fastforce

lemma nat_to_string_inject: "nat_to_string m = nat_to_string n \<Longrightarrow> m = n"
  by (metis digits_value_nat_to_string)

lemma to_string_inject [simp]: "to_string i = to_string j \<longleftrightarrow> i = j"
proof
  assume eq: "to_string i = to_string j"
  have no: "CHR ''-'' # xs \<noteq> nat_to_string n" for xs n
    using nat_to_string_digits [of "CHR ''-''" n] isdigit_not_special by (metis list.set_intros(1))
  from eq show "i = j"
    using no no [symmetric]
    by (auto simp: to_string_def dest!: nat_to_string_inject split: if_splits)
qed simp

section \<open>Tokens and path names\<close>

text \<open>\<open>strtok (buffer, " ")\<close> called until it returns NULL: the maximal runs of
  characters other than the delimiter.\<close>

fun strtok :: "char \<Rightarrow> string \<Rightarrow> string \<Rightarrow> string list" where
  "strtok d [] tok = (if tok = [] then [] else [rev tok])"
| "strtok d (c # cs) tok =
     (if c = d then (if tok = [] then strtok d cs [] else rev tok # strtok d cs [])
      else strtok d cs (c # tok))"

definition tokens :: "byte list \<Rightarrow> string list" where
  "tokens buf = strtok (CHR '' '') (c_str buf) []"

lemma strtok_token:
  "d \<notin> set w \<Longrightarrow> strtok d (w @ rest) tok = strtok d rest (rev w @ tok)"
  by (induction w arbitrary: tok) auto

lemma strtok_sep: "tok \<noteq> [] \<Longrightarrow> strtok d (d # rest) tok = rev tok # strtok d rest []"
  by simp

lemma strtok_tokens: "w \<in> set (strtok d cs tok) \<Longrightarrow> d \<notin> set tok \<Longrightarrow> w \<noteq> [] \<and> d \<notin> set w"
  by (induction d cs tok rule: strtok.induct) (auto split: if_splits)

lemma tokens_word: "w \<in> set (tokens buf) \<Longrightarrow> w \<noteq> [] \<and> CHR '' '' \<notin> set w"
  unfolding tokens_def by (rule strtok_tokens) auto

text \<open>Joining words by single spaces is undone by \<open>strtok\<close>.\<close>

fun unwords :: "string list \<Rightarrow> string" where
  "unwords [] = []"
| "unwords [w] = w"
| "unwords (w # ws) = w @ CHR '' '' # unwords ws"

definition is_word :: "string \<Rightarrow> bool" where
  "is_word w \<longleftrightarrow> w \<noteq> [] \<and> CHR '' '' \<notin> set w \<and> NUL \<notin> set w"

lemma strtok_unwords:
  "\<forall>w \<in> set ws. is_word w \<Longrightarrow> strtok (CHR '' '') (unwords ws) [] = ws"
proof (induction ws rule: unwords.induct)
  case (2 w)
  then show ?case
    using strtok_token [of "CHR '' ''" w "[]" "[]"] by (simp add: is_word_def)
next
  case (3 w v vs)
  then show ?case
    using strtok_token [of "CHR '' ''" w "CHR '' '' # unwords (v # vs)" "[]"]
    by (simp add: is_word_def)
qed simp

lemma set_unwords: "c \<in> set (unwords ws) \<Longrightarrow> c = CHR '' '' \<or> (\<exists>w \<in> set ws. c \<in> set w)"
  by (induction ws rule: unwords.induct) auto

lemma tokens_unwords:
  assumes "\<forall>w \<in> set ws. is_word w"
  shows "tokens (unwords ws) = ws"
proof -
  have "NUL \<notin> set (unwords ws)"
    using set_unwords [of NUL ws] assms by (auto simp: is_word_def)
  then show ?thesis
    using assms by (simp add: tokens_def c_str_NUL_free strtok_unwords)
qed

text \<open>\<open>s.find(c)\<close> and \<open>s.substr(...)\<close> around the first occurrence of a character:
  where it is missing, \<open>find\<close> is \<open>npos\<close>, \<open>substr(0, npos)\<close> is the whole string
  and \<open>npos + 1\<close> wraps to 0.\<close>

definition before_char :: "char \<Rightarrow> string \<Rightarrow> string" where
  "before_char d s = takeWhile (\<lambda>c. c \<noteq> d) s"

definition after_char :: "char \<Rightarrow> string \<Rightarrow> string" where
  "after_char d s = (if d \<in> set s then tl (dropWhile (\<lambda>c. c \<noteq> d) s) else s)"

lemma before_char_append [simp]: "d \<notin> set a \<Longrightarrow> before_char d (a @ d # b) = a"
  by (auto simp: before_char_def takeWhile_append takeWhile_eq_all_conv)

lemma after_char_append [simp]: "d \<notin> set a \<Longrightarrow> after_char d (a @ d # b) = b"
  by (auto simp: after_char_def dropWhile_append)

text \<open>The part of a path after its last \<open>/\<close> or \<open>\\<close>
  (\<open>find_last_of("/\\")\<close>, the whole path where there is none).\<close>

definition is_sep :: "char \<Rightarrow> bool" where
  "is_sep c \<longleftrightarrow> c = CHR ''/'' \<or> c = CHR 0x5C"

definition base_name :: "string \<Rightarrow> string" where
  "base_name p = rev (takeWhile (\<lambda>c. \<not> is_sep c) (rev p))"

lemma base_name_no_sep: "c \<in> set (base_name p) \<Longrightarrow> \<not> is_sep c"
  by (auto simp: base_name_def dest: set_takeWhileD)

lemma base_name_append:
  "is_sep c \<Longrightarrow> \<forall>x \<in> set f. \<not> is_sep x \<Longrightarrow> base_name (d @ c # f) = f"
  by (auto simp: base_name_def takeWhile_append takeWhile_eq_all_conv)

lemma base_name_plain:
  assumes "\<forall>x \<in> set f. \<not> is_sep x"
  shows "base_name f = f"
proof -
  have tw: "takeWhile (\<lambda>c. \<not> is_sep c) (rev f) = rev f"
    using assms by simp
  show ?thesis by (simp add: base_name_def tw)
qed

section \<open>Lines\<close>

definition LF :: char where "LF = CHR 0x0A"

definition line :: "string \<Rightarrow> string" where "line s = s @ [LF]"

lemma LF_not_special [simp]: "LF \<noteq> CHR '' ''" "LF \<noteq> NUL"
  by (simp_all add: LF_def)

lemma LF_notin_to_string [simp]: "LF \<notin> set (to_string i)"
  using to_string_not_special by (simp add: LF_def)

text \<open>Cutting a list into blocks.\<close>

lemma concat_blocks: "concat (map (\<lambda>i. take k (drop (i * k) xs)) [0..<n]) = take (n * k) xs"
proof (induction n)
  case (Suc n)
  then show ?case by (simp add: take_add [of "n * k" k, symmetric] add.commute)
qed simp

end
