(* ===== verification/C_Arrays.thy ===== *)
theory C_Arrays
  imports Prelude
begin

text \<open>
  Arrays of bytes of fixed length and the library functions that write them: a
  \<open>char a[n]\<close> is a list of \<open>n\<close> bytes, a write past its end is the fault
  \<open>BufferOverflow\<close>.  Memory that has been allocated and not written holds whatever it held:
  such contents are arguments of the operations, named \<open>junk\<close>.
\<close>

section \<open>Copying into arrays\<close>

definition memcpy_at :: "nat \<Rightarrow> byte list \<Rightarrow> byte list \<Rightarrow> fault + byte list" where
  "memcpy_at off src dst =
     (if off + length src \<le> length dst then Inr (take off dst @ src @ drop (off + length src) dst)
      else Inl BufferOverflow)"

definition strcpy :: "byte list \<Rightarrow> string \<Rightarrow> fault + byte list" where
  "strcpy dst src = memcpy_at 0 (src @ [NUL]) dst"

text \<open>\<open>strncpy(dst, src, n)\<close> pads with zeros; \<open>dst[n] = '\0'\<close> follows each use of it.\<close>

definition strncpy :: "byte list \<Rightarrow> string \<Rightarrow> nat \<Rightarrow> fault + byte list" where
  "strncpy dst src n = memcpy_at 0 (take n (src @ replicate n NUL)) dst"

definition put_byte :: "nat \<Rightarrow> byte \<Rightarrow> byte list \<Rightarrow> fault + byte list" where
  "put_byte i b dst = memcpy_at i [b] dst"

definition strncpy_term :: "byte list \<Rightarrow> string \<Rightarrow> nat \<Rightarrow> fault + byte list" where
  "strncpy_term dst src n =
     (case strncpy dst src (n - 1) of Inl e \<Rightarrow> Inl e | Inr d \<Rightarrow> put_byte (n - 1) NUL d)"

lemma memcpy_at_length: "memcpy_at off src dst = Inr d \<Longrightarrow> length d = length dst"
  by (auto simp: memcpy_at_def split: if_splits)

lemma memcpy_at_take:
  "memcpy_at off src dst = Inr d \<Longrightarrow> take (off + length src) d = take off dst @ src"
  by (auto simp: memcpy_at_def split: if_splits)

lemma c_str_append_NUL: "c_str (take k (src @ replicate k NUL) @ NUL # rest) = take k (c_str src)"
proof (induction src arbitrary: k)
  case Nil
  show ?case by (cases k) (simp_all add: c_str_def)
next
  case (Cons a src)
  show ?case
  proof (cases k)
    case (Suc j)
    have "take j (src @ replicate (Suc j) NUL) = take j (src @ replicate j NUL)" for src :: string
      by (simp only: take_append take_replicate) (simp add: min_def)
    with Cons [of j] Suc show ?thesis by (simp add: c_str_def)
  qed (simp add: c_str_def)
qed

text \<open>After the copy the array holds the first \<open>n - 1\<close> characters, terminated.\<close>

lemma strncpy_term_ok:
  assumes "length dst = n" and "0 < n"
  obtains d where "strncpy_term dst src n = Inr d" and "length d = n" and "c_str d = take (n - 1) (c_str src)"
proof -
  define s where "s = take (n - 1) (src @ replicate (n - 1) NUL)"
  have len: "length s = n - 1" by (simp add: s_def)
  have cs: "c_str (s @ [NUL]) = take (n - 1) (c_str src)"
    unfolding s_def by (rule c_str_append_NUL)
  have "strncpy dst src (n - 1) = Inr (s @ drop (n - 1) dst)"
    unfolding strncpy_def memcpy_at_def s_def [symmetric] using assms len by simp
  moreover have "put_byte (n - 1) NUL (s @ drop (n - 1) dst) = Inr (s @ [NUL])"
    using assms len by (simp add: put_byte_def memcpy_at_def)
  ultimately have "strncpy_term dst src n = Inr (s @ [NUL])" by (simp add: strncpy_term_def)
  then show ?thesis
    by (rule that) (use assms len cs in simp_all)
qed

lemma strcpy_ok:
  assumes "length src < length dst" and "NUL \<notin> set src"
  obtains d where "strcpy dst src = Inr d" and "length d = length dst" and "c_str d = src"
proof -
  have "strcpy dst src = Inr (src @ NUL # drop (length src + 1) dst)"
    using assms by (simp add: strcpy_def memcpy_at_def)
  then show ?thesis
    by (rule that) (use assms in \<open>simp_all add: c_str_terminated\<close>)
qed

text \<open>\<open>realloc\<close>: the old bytes stay, the new ones are not initialised.\<close>

definition resize :: "byte \<Rightarrow> nat \<Rightarrow> byte list \<Rightarrow> byte list" where
  "resize junk n buf = take n buf @ replicate (n - length buf) junk"

lemma length_resize [simp]: "length (resize junk n buf) = n"
  by (simp add: resize_def min_def)

lemma take_resize: "k \<le> length buf \<Longrightarrow> k \<le> n \<Longrightarrow> take k (resize junk n buf) = take k buf"
  by (simp add: resize_def min_def)

section \<open>Integers in memory, little-endian\<close>

fun le_bytes :: "nat \<Rightarrow> nat \<Rightarrow> byte list" where
  "le_bytes 0 v = []"
| "le_bytes (Suc n) v = char_of (v mod 256) # le_bytes n (v div 256)"

fun le_value :: "byte list \<Rightarrow> nat" where
  "le_value [] = 0"
| "le_value (b # bs) = of_char b + 256 * le_value bs"

lemma length_le_bytes [simp]: "length (le_bytes n v) = n"
  by (induction n arbitrary: v) simp_all

lemma le_value_bytes: "le_value (le_bytes n v) = v mod 256 ^ n"
proof (induction n arbitrary: v)
  case (Suc n)
  have "v mod 256 + 256 * (v div 256 mod 256 ^ n) = v mod (256 * 256 ^ n)"
    using mod_mult2_eq [of v 256 "256 ^ n"] by simp
  with Suc show ?case by simp
qed simp

definition int_bytes :: "int \<Rightarrow> byte list" where
  "int_bytes i = le_bytes 4 (nat (i mod 2 ^ 32))"

definition bytes_int :: "byte list \<Rightarrow> int" where
  "bytes_int bs = (let v = int (le_value bs) in if v < 2 ^ 31 then v else v - 2 ^ 32)"

lemma length_int_bytes [simp]: "length (int_bytes i) = 4"
  by (simp add: int_bytes_def)

lemma bytes_int_bytes: "INT_MIN \<le> i \<Longrightarrow> i \<le> INT_MAX \<Longrightarrow> bytes_int (int_bytes i) = i"
proof -
  assume i: "INT_MIN \<le> i" "i \<le> INT_MAX"
  have "int (le_value (int_bytes i)) = i mod 2 ^ 32"
    by (simp add: int_bytes_def le_value_bytes nat_mod_distrib)
  moreover have "i mod 2 ^ 32 = (if i < 0 then i + 2 ^ 32 else i)"
    using i mod_pos_pos_trivial [of "i + 2 ^ 32" "2 ^ 32"] by (auto simp: mod_pos_pos_trivial)
  ultimately show ?thesis using i by (auto simp: bytes_int_def Let_def)
qed

end
