(* ===== verification/Peer_Wire.thy ===== *)
theory Peer_Wire
  imports C_Arrays
begin

text \<open>
  The strings peers exchange over a stream socket (\<open>recv_string\<close> and \<open>send_string\<close> of
  \<open>src/helper_peer.cpp\<close>).  The incoming side of a socket is the list of the segments the
  network delivers, none of them empty: one \<open>recv\<close> returns at most the first segment, and 0 at
  the end of the stream.
\<close>

section \<open>Reading from a socket\<close>

type_synonym stream = "byte list list"

definition recv :: "nat \<Rightarrow> stream \<Rightarrow> byte list \<times> stream" where
  "recv n st =
     (case st of
        [] \<Rightarrow> ([], [])
      | c # cs \<Rightarrow> if length c \<le> n then (c, cs) else (take n c, drop n c # cs))"

definition stream_ok :: "stream \<Rightarrow> bool" where
  "stream_ok st \<longleftrightarrow> [] \<notin> set st"

text \<open>\<open>htonl\<close> and \<open>ntohl\<close>: four bytes, the most significant first.\<close>

definition be_bytes :: "nat \<Rightarrow> byte list" where
  "be_bytes n = rev (le_bytes 4 n)"

definition be_value :: "byte list \<Rightarrow> nat" where
  "be_value bs = le_value (rev bs)"

lemma length_be_bytes [simp]: "length (be_bytes n) = 4"
  by (simp add: be_bytes_def)

lemma be_value_bytes: "n < 2 ^ 32 \<Longrightarrow> be_value (be_bytes n) = n"
  by (simp add: be_value_def be_bytes_def le_value_bytes)

text \<open>What \<open>send_string\<close> writes.\<close>

definition send_string :: "string \<Rightarrow> byte list" where
  "send_string data = be_bytes (length data mod 2 ^ 32) @ data"

text \<open>The loop that fills the buffer; \<open>None\<close> where the stream ends before.\<close>

function recv_all :: "nat \<Rightarrow> byte list \<Rightarrow> stream \<Rightarrow> byte list option \<times> stream" where
  "recv_all n got st =
     (if length got < n then
        (let (bs, st') = recv (n - length got) st
         in if bs = [] then (None, st') else recv_all n (got @ bs) st')
      else (Some got, st))"
  by pat_completeness auto
termination
  by (relation "measure (\<lambda>(n, got, st). n - length got)") (auto simp: recv_def dest!: neq_Nil_conv [THEN iffD1] split: list.splits if_splits)

declare recv_all.simps [simp del]

text \<open>The first \<open>recv\<close> may return fewer than four bytes; the others keep what \<open>length\<close>
  held.\<close>

definition recv_string :: "byte list \<Rightarrow> stream \<Rightarrow> string \<times> stream" where
  "recv_string junk st =
     (let (bs, st1) = recv 4 st
      in if bs = [] then ([], st1)
         else let n = be_value (bs @ drop (length bs) junk)
              in case recv_all n [] st1 of
                   (None, st2) \<Rightarrow> ([], st2)
                 | (Some got, st2) \<Rightarrow> (got, st2))"

section \<open>Framing\<close>

text \<open>A segment boundary inside the four bytes at position \<open>a\<close>.\<close>

definition splits_at :: "nat \<Rightarrow> stream \<Rightarrow> bool" where
  "splits_at a st \<longleftrightarrow> (\<exists>xs ys. st = xs @ ys \<and> a < length (concat xs) \<and> length (concat xs) < a + 4)"

fun drop_stream :: "nat \<Rightarrow> stream \<Rightarrow> stream" where
  "drop_stream n [] = []"
| "drop_stream n (c # cs) = (if length c \<le> n then drop_stream (n - length c) cs else drop n c # cs)"

lemma stream_ok_simps [simp]: "stream_ok []" "stream_ok (c # cs) \<longleftrightarrow> c \<noteq> [] \<and> stream_ok cs"
  by (auto simp: stream_ok_def)

lemma concat_drop_stream: "concat (drop_stream n st) = drop n (concat st)"
  by (induction n st rule: drop_stream.induct) auto

lemma drop_stream_ok: "stream_ok st \<Longrightarrow> stream_ok (drop_stream n st)"
  by (induction n st rule: drop_stream.induct) auto

lemma drop_stream_0 [simp]: "stream_ok st \<Longrightarrow> drop_stream 0 st = st"
  by (cases st) auto

lemma drop_stream_add: "stream_ok st \<Longrightarrow> drop_stream m (drop_stream n st) = drop_stream (n + m) st"
proof (induction n st arbitrary: m rule: drop_stream.induct)
  case (2 n c cs)
  then show ?case by (auto simp: add.commute)
qed simp

lemma recv_drop:
  assumes "stream_ok st" and "0 < n" and "recv n st = (bs, st')"
  shows "bs = take (length bs) (concat st) \<and> st' = drop_stream (length bs) st \<and> length bs \<le> n \<and>
         (bs = [] \<longleftrightarrow> st = [])"
  using assms by (cases st) (auto simp: recv_def split: if_splits)

lemma recv_all_enough:
  assumes "stream_ok st" and "n - length got \<le> length (concat st)"
  shows "recv_all n got st =
           (Some (got @ take (n - length got) (concat st)), drop_stream (n - length got) st)"
  using assms
proof (induction n got st rule: recv_all.induct)
  case (1 n got st)
  show ?case
  proof (cases "length got < n")
    case True
    obtain bs st' where r: "recv (n - length got) st = (bs, st')" by fastforce
    have d: "bs = take (length bs) (concat st)" "st' = drop_stream (length bs) st"
      "length bs \<le> n - length got" "bs = [] \<longleftrightarrow> st = []"
      using recv_drop [OF "1.prems"(1) _ r] True by auto
    have ne: "bs \<noteq> []" using True "1.prems"(2) d(4) by auto
    have lbs: "length bs \<le> length (concat st)" using arg_cong [OF d(1), of length] by simp
    have "recv_all n (got @ bs) st' =
        (Some ((got @ bs) @ take (n - length (got @ bs)) (concat st')), drop_stream (n - length (got @ bs)) st')"
      by (rule "1.IH" [OF True r [symmetric] refl ne])
        (use "1.prems" d lbs in \<open>auto simp: drop_stream_ok concat_drop_stream\<close>)
    moreover have "bs @ take (n - length (got @ bs)) (concat st') = take (n - length got) (concat st)"
      using d(1,3) lbs by (metis append_take_drop_id concat_drop_stream d(2) diff_diff_left length_append
          le_add_diff_inverse take_add)
    moreover have "drop_stream (n - length (got @ bs)) st' = drop_stream (n - length got) st"
      proof -
      have "length bs + (n - length (got @ bs)) = n - length got" using d(3) by simp
      then show ?thesis by (simp only: d(2) drop_stream_add [OF "1.prems"(1)])
    qed
    ultimately show ?thesis using True r ne by (simp add: recv_all.simps [of n got st])
  next
    case False
    then show ?thesis using "1.prems"(1) by (simp add: recv_all.simps [of n got st])
  qed
qed

lemma splits_at_drop:
  assumes "\<not> splits_at a st" and "n \<le> a" and "stream_ok st"
  shows "\<not> splits_at (a - n) (drop_stream n st)"
  using assms
proof (induction n st arbitrary: a rule: drop_stream.induct)
  case (1 n)
  then show ?case by (simp add: splits_at_def)
next
  case (2 n c cs)
  show ?case
  proof (cases "length c \<le> n")
    case True
    have "\<not> splits_at (a - length c) cs"
    proof
      assume "splits_at (a - length c) cs"
      then obtain xs ys where "cs = xs @ ys" "a - length c < length (concat xs)"
        "length (concat xs) < a - length c + 4" by (auto simp: splits_at_def)
      then have "splits_at a (c # cs)"
        using True "2.prems"(2) unfolding splits_at_def by (intro exI [of _ "c # xs"] exI [of _ ys]) auto
      then show False using "2.prems"(1) by blast
    qed
    then show ?thesis using "2.IH" [OF True, of "a - length c"] "2.prems" True by simp
  next
    case False
    show ?thesis
    proof
      assume "splits_at (a - n) (drop_stream n (c # cs))"
      then obtain xs ys where x: "drop n c # cs = xs @ ys" "a - n < length (concat xs)"
        "length (concat xs) < a - n + 4" using False by (auto simp: splits_at_def)
      then obtain zs where "xs = drop n c # zs" "cs = zs @ ys" by (cases xs) auto
      then have "splits_at a (c # cs)"
        using x False "2.prems"(2) unfolding splits_at_def
        by (intro exI [of _ "c # zs"] exI [of _ ys]) auto
      then show False using "2.prems"(1) by blast
    qed
  qed
qed

lemma recv_header:
  assumes "stream_ok st" and "\<not> splits_at 0 st" and "4 \<le> length (concat st)"
  shows "recv 4 st = (take 4 (concat st), drop_stream 4 st)"
proof (cases st)
  case (Cons c cs)
  have "4 \<le> length c"
  proof (rule ccontr)
    assume "\<not> 4 \<le> length c"
    then have "splits_at 0 st"
      using assms(1) Cons unfolding splits_at_def by (intro exI [of _ "[c]"] exI [of _ cs]) auto
    then show False using assms(2) by blast
  qed
  then show ?thesis using Cons assms(1) by (auto simp: recv_def)
qed (use assms in simp)

text \<open>One frame: the string, and the stream behind it.\<close>

lemma recv_string_frame:
  assumes "stream_ok st" and "concat st = send_string data @ rest" and "length data < 2 ^ 32"
    and "\<not> splits_at 0 st" and "length junk = 4"
  shows "recv_string junk st = (data, drop_stream (4 + length data) st)"
proof -
  have c: "concat st = be_bytes (length data) @ data @ rest" using assms(2,3) by (simp add: send_string_def)
  have r: "recv 4 st = (be_bytes (length data), drop_stream 4 st)"
    using recv_header [OF assms(1,4)] c by simp
  have "be_bytes (length data) \<noteq> []" by (metis length_be_bytes list.size(3) zero_neq_numeral)
  moreover have v: "be_value (be_bytes (length data)) = length data"
    by (rule be_value_bytes [OF assms(3)])
  moreover have "recv_all (length data) [] (drop_stream 4 st) = (Some data, drop_stream (4 + length data) st)"
    using recv_all_enough [of "drop_stream 4 st" "length data" "[]"] drop_stream_ok [OF assms(1)] c
      drop_stream_add [OF assms(1)] by (simp add: concat_drop_stream)
  ultimately show ?thesis using r by (simp add: recv_string_def assms(5))
qed

text \<open>A stream that closes inside the frame.\<close>

lemma recv_all_short:
  assumes "stream_ok st" and "length (concat st) < n - length got"
  shows "fst (recv_all n got st) = None"
  using assms
proof (induction n got st rule: recv_all.induct)
  case (1 n got st)
  obtain bs st' where r: "recv (n - length got) st = (bs, st')" by fastforce
  have less: "length got < n" using "1.prems"(2) by simp
  have d: "bs = take (length bs) (concat st)" "st' = drop_stream (length bs) st"
    using recv_drop [OF "1.prems"(1) _ r] less by auto
  have lbs: "length bs \<le> length (concat st)" using arg_cong [OF d(1), of length] by simp
  show ?case
  proof (cases "bs = []")
    case True
    then show ?thesis using less r by (simp add: recv_all.simps [of n got st])
  next
    case False
    have "fst (recv_all n (got @ bs) st') = None"
      by (rule "1.IH" [OF less r [symmetric] refl False])
        (use "1.prems" d lbs in \<open>auto simp: drop_stream_ok concat_drop_stream\<close>)
    then show ?thesis using less r False by (simp add: recv_all.simps [of n got st])
  qed
qed

text \<open>C14: Two strings sent one after the other are received as they were sent, however the
  network cuts the bytes into segments as long as it cuts neither header, and the bytes behind
  them stay in the stream; what the receiver's variable held before does not matter.\<close>

theorem framing_round_trip:
  assumes "stream_ok st" and "concat st = send_string a @ send_string b @ rest"
    and "length a < 2 ^ 32" and "length b < 2 ^ 32"
    and "\<not> splits_at 0 st" and "\<not> splits_at (4 + length a) st"
    and "length junk = 4" and "length junk' = 4"
  shows "\<exists>st1 st2. recv_string junk st = (a, st1) \<and> recv_string junk' st1 = (b, st2) \<and>
           concat st2 = rest"
proof -
  let ?st1 = "drop_stream (4 + length a) st"
  have first: "recv_string junk st = (a, ?st1)"
    by (rule recv_string_frame [OF assms(1,2,3,5,7)])
  have rest1: "concat ?st1 = send_string b @ rest"
    using assms(2,3) by (simp add: concat_drop_stream send_string_def)
  have "recv_string junk' ?st1 = (b, drop_stream (4 + length b) ?st1)"
    by (rule recv_string_frame [OF drop_stream_ok [OF assms(1)] rest1 assms(4) _ assms(8)])
      (use splits_at_drop [OF assms(6) _ assms(1), of "4 + length a"] in simp)
  moreover have "concat (drop_stream (4 + length b) ?st1) = rest"
    using rest1 assms(4) by (simp only: concat_drop_stream) (simp add: send_string_def)
  ultimately show ?thesis using first by blast
qed

definition demo_stream :: stream where
  "demo_stream = [be_bytes 3, ''a.'', ''t'' @ be_bytes 1, ''7'']"

lemma demo_stream_facts:
  "stream_ok demo_stream"
  "concat demo_stream = send_string ''a.t'' @ send_string ''7'' @ []"
  "\<not> splits_at 0 demo_stream"
  "\<not> splits_at 7 demo_stream"
proof -
  have ne: "be_bytes n \<noteq> []" for n by (metis length_be_bytes list.size(3) zero_neq_numeral)
  show "stream_ok demo_stream" by (simp add: demo_stream_def ne)
  show "concat demo_stream = send_string ''a.t'' @ send_string ''7'' @ []"
    by (simp add: demo_stream_def send_string_def)
  have pre: "length (concat xs) = 0 \<or> length (concat xs) = 4 \<or> length (concat xs) = 6 \<or>
      length (concat xs) = 11 \<or> length (concat xs) = 12" if "demo_stream = xs @ ys" for xs ys
  proof -
    have xs: "xs = take (length xs) demo_stream"
      by (simp only: that append_eq_conv_conj take_append) simp
    have "length xs + length ys = 4"
      using arg_cong [OF that, of length] by (simp add: demo_stream_def)
    then consider "length xs = 0" | "length xs = 1" | "length xs = 2" | "length xs = 3" | "length xs = 4"
      by linarith
    then show ?thesis
      by cases (subst xs, simp add: demo_stream_def)+
  qed
  have no: "\<not> (a < k \<and> k < a + 4)" if "a = 0 \<or> a = 7"
    "k = 0 \<or> k = 4 \<or> k = 6 \<or> k = 11 \<or> k = 12" for a k :: nat
    using that by auto
  show "\<not> splits_at 0 demo_stream" "\<not> splits_at 7 demo_stream"
    unfolding splits_at_def using no [OF _ pre] by blast+
qed

theorem framing_round_trip_witness:
  "\<exists>st1 st2. recv_string ''abcd'' demo_stream = (''a.t'', st1) \<and>
     recv_string ''efgh'' st1 = (''7'', st2) \<and> concat st2 = []"
  by (rule framing_round_trip [OF demo_stream_facts(1,2)])
    (use demo_stream_facts in simp_all)

end
