(* ===== verification/Peer_Files.thy ===== *)
theory Peer_Files
  imports Peer_Wire
begin

text \<open>
  The files of a peer (\<open>src/sha256.cpp\<close>, and \<open>handle_peer\<close>, \<open>download\<close>,
  \<open>piece_creation\<close> of \<open>src/helper_peer.cpp\<close>): the hash of a file and of a piece of 200
  bytes, what a peer serves for a request, what it announces to the tracker for a file, and how
  it fetches a piece from another peer.  The file system is a map from paths to contents; a path
  without contents is one that cannot be opened.  OpenSSL's digest is the parameter \<open>evp\<close>.
\<close>

section \<open>Files\<close>

definition CHUNK_SIZE :: nat where "CHUNK_SIZE = 200"

definition PIECE_SIZE :: nat where "PIECE_SIZE = 200"

definition MAX_RETRIES :: nat where "MAX_RETRIES = 3"

lemma sizes_pos [simp]: "0 < CHUNK_SIZE" "0 < PIECE_SIZE" "PIECE_SIZE \<noteq> 0" "CHUNK_SIZE = PIECE_SIZE"
  by (simp_all add: CHUNK_SIZE_def PIECE_SIZE_def)

type_synonym files = "string \<rightharpoonup> byte list"

abbreviation open_file :: "files \<Rightarrow> string \<Rightarrow> byte list option" where
  "open_file fs path \<equiv> fs (c_str path)"

text \<open>\<open>write\<close> at an offset: a gap before it is filled with zeros.\<close>

definition write_at :: "nat \<Rightarrow> byte list \<Rightarrow> byte list \<Rightarrow> byte list" where
  "write_at off bs file =
     (if bs = [] then file
      else take off (file @ replicate (off - length file) NUL) @ bs @ drop (off + length bs) file)"

text \<open>The multiplication \<open>piece_number*PIECE_SIZE\<close> is done in \<open>int\<close>.\<close>

definition piece_offset :: "int \<Rightarrow> fault + int" where
  "piece_offset n =
     (let v = n * int PIECE_SIZE in if INT_MIN \<le> v \<and> v \<le> INT_MAX then Inr v else Inl SignedOverflow)"

section \<open>Hashes\<close>

text \<open>A digest context of the library: creating one, adding bytes to it and finishing it can
  each fail.\<close>

record 'c evp =
  evp_new :: "'c option"
  evp_update :: "'c \<Rightarrow> byte list \<Rightarrow> 'c option"
  evp_final :: "'c \<Rightarrow> byte list option"

definition hex_digit :: "nat \<Rightarrow> char" where
  "hex_digit d = (if d < 10 then char_of (48 + d) else char_of (87 + d))"

definition hex_bytes :: "byte list \<Rightarrow> string" where
  "hex_bytes bs = concat (map (\<lambda>b. [hex_digit (of_char b div 16), hex_digit (of_char b mod 16)]) bs)"

definition hex_final :: "'c evp \<Rightarrow> 'c option \<Rightarrow> string" where
  "hex_final E ctx =
     (case ctx of
        None \<Rightarrow> []
      | Some c \<Rightarrow> (case evp_final E c of None \<Rightarrow> [] | Some h \<Rightarrow> hex_bytes h))"

function hash_loop :: "'c evp \<Rightarrow> 'c \<Rightarrow> byte list \<Rightarrow> 'c option" where
  "hash_loop E ctx rest =
     (if take CHUNK_SIZE rest = [] then Some ctx
      else case evp_update E ctx (take CHUNK_SIZE rest) of
             None \<Rightarrow> None
           | Some ctx' \<Rightarrow> hash_loop E ctx' (drop CHUNK_SIZE rest))"
  by pat_completeness auto
termination
  by (relation "measure (\<lambda>(E, ctx, rest). length rest)") (auto simp: CHUNK_SIZE_def)

declare hash_loop.simps [simp del]

definition computeHash :: "'c evp \<Rightarrow> files \<Rightarrow> string \<Rightarrow> string" where
  "computeHash E fs path =
     (case open_file fs path of
        None \<Rightarrow> []
      | Some c \<Rightarrow>
          (case evp_new E of None \<Rightarrow> [] | Some ctx \<Rightarrow> hex_final E (hash_loop E ctx c)))"

definition shapiece :: "'c evp \<Rightarrow> files \<Rightarrow> string \<Rightarrow> int \<Rightarrow> fault + string" where
  "shapiece E fs path n =
     (case open_file fs path of
        None \<Rightarrow> Inr []
      | Some c \<Rightarrow>
          (case piece_offset n of
             Inl e \<Rightarrow> Inl e
           | Inr off \<Rightarrow>
               if off < 0 then Inr []
               else let bs = take PIECE_SIZE (drop (nat off) c)
                    in Inr (case evp_new E of
                              None \<Rightarrow> []
                            | Some ctx \<Rightarrow> hex_final E (evp_update E ctx bs))))"

section \<open>Serving a piece\<close>

text \<open>The loop around \<open>send\<close>.  The list gives what its calls return, a negative number for
  a failure; when it is exhausted the connection takes everything.\<close>

fun send_loop :: "int list \<Rightarrow> byte list \<Rightarrow> byte list \<times> int list \<times> bool" where
  "send_loop rs [] = ([], rs, True)"
| "send_loop [] bs = (bs, [], True)"
| "send_loop (r # rs) bs =
     (if r < 0 then ([], rs, False)
      else case send_loop rs (drop (nat r) bs) of
             (out, rs', ok) \<Rightarrow> (take (nat r) bs @ out, rs', ok))"

function serve_loop :: "int list \<Rightarrow> nat \<Rightarrow> byte list \<Rightarrow> byte list" where
  "serve_loop rs tot rest =
     (if tot < PIECE_SIZE then
        (let bs = take (min CHUNK_SIZE (PIECE_SIZE - tot)) rest
         in if bs = [] then []
            else case send_loop rs bs of
                   (out, rs', ok) \<Rightarrow>
                     if ok then out @ serve_loop rs' (tot + length bs) (drop (length bs) rest)
                     else out)
      else [])"
  by pat_completeness auto
termination
  by (relation "measure (\<lambda>(rs, tot, rest). length rest)") auto

declare serve_loop.simps [simp del]

text \<open>How a connection ends: the bytes sent before it is closed, the end of the whole process
  (\<open>exit(1)\<close>), or a fault.\<close>

datatype service = Served "byte list" | ProcessExit | ServiceFault fault

definition handle_peer :: "files \<Rightarrow> int list \<Rightarrow> byte list \<Rightarrow> byte list \<Rightarrow> stream \<Rightarrow> service" where
  "handle_peer fs rs junk junk' st =
     (let (path, st1) = recv_string junk st
      in if path = [] then Served []
         else let (piece, st2) = recv_string junk' st1
              in if piece = [] then Served []
                 else case stoi piece of
                        Inl e \<Rightarrow> ServiceFault e
                      | Inr n \<Rightarrow>
                          (case open_file fs path of
                             None \<Rightarrow> ProcessExit
                           | Some c \<Rightarrow>
                               (case piece_offset n of
                                  Inl e \<Rightarrow> ServiceFault e
                                | Inr off \<Rightarrow>
                                    if off < 0 then Served []
                                    else Served (serve_loop rs 0 (drop (nat off) c)))))"

section \<open>Announcing the pieces of a file\<close>

text \<open>The messages to the tracker, one for each piece read, and the fault that ends the
  loop.  The replies are read and not looked at.\<close>

function piece_loop ::
    "'c evp \<Rightarrow> files \<Rightarrow> string \<Rightarrow> string \<Rightarrow> int \<Rightarrow> byte list \<Rightarrow> string list \<times> fault option" where
  "piece_loop E fs path s i rest =
     (if take PIECE_SIZE rest = [] then ([], None)
      else case shapiece E fs path i of
             Inl e \<Rightarrow> ([], Some e)
           | Inr h \<Rightarrow>
               (case piece_loop E fs path s (i + 1) (drop PIECE_SIZE rest) of
                  (ms, e) \<Rightarrow> ((s @ '' '' @ to_string i @ '' '' @ h) # ms, e)))"
  by pat_completeness auto
termination
  by (relation "measure (\<lambda>(E, fs, path, s, i, rest). length rest)") (auto simp: PIECE_SIZE_def)

declare piece_loop.simps [simp del]

definition piece_creation :: "'c evp \<Rightarrow> files \<Rightarrow> string \<Rightarrow> string \<Rightarrow> string list \<times> fault option" where
  "piece_creation E fs path s =
     (case open_file fs path of None \<Rightarrow> ([], None) | Some c \<Rightarrow> piece_loop E fs path s 0 c)"

section \<open>Fetching a piece\<close>

text \<open>A request is an address, a port, a path and a piece number.  What an attempt meets: no socket or no connection, or a connection on which the bytes
  of a stream arrive.\<close>

type_synonym request = "string \<times> int \<times> string \<times> int"

datatype link = NoLink | Linked stream

record download_env =
  inet_pton :: "string \<Rightarrow> bool"         \<comment> \<open>the address has a valid form\<close>
  creatable :: "string \<Rightarrow> bool"         \<comment> \<open>the path can be opened with \<open>O_CREAT\<close>, and writing to it succeeds\<close>
  unreadable :: "string \<Rightarrow> bool"        \<comment> \<open>a path that cannot be opened for reading nevertheless exists\<close>
  links :: "request \<Rightarrow> nat \<Rightarrow> link"      \<comment> \<open>what the attempts at a request meet\<close>

text \<open>What arrives is written where the piece belongs.  A failing \<open>write\<close>, at which the code leaves the
  loop, is not modelled: where a path is \<open>creatable\<close>, writing to it succeeds.\<close>

function recv_loop :: "nat \<Rightarrow> nat \<Rightarrow> stream \<Rightarrow> byte list \<Rightarrow> nat \<times> byte list" where
  "recv_loop off tot st file =
     (if tot < PIECE_SIZE then
        (let (bs, st') = recv CHUNK_SIZE st
         in if bs = [] then (tot, file)
            else recv_loop off (tot + length bs) st' (write_at (off + tot) bs file))
      else (tot, file))"
  by pat_completeness auto
termination
  by (relation "measure (\<lambda>(off, tot, st, file). PIECE_SIZE - tot)") (auto simp: neq_Nil_conv)

declare recv_loop.simps [simp del]

text \<open>\<open>Inl\<close> a fault; otherwise the files and whether the piece was accepted.\<close>

function download_loop ::
    "'c evp \<Rightarrow> download_env \<Rightarrow> int \<Rightarrow> int \<Rightarrow> string \<Rightarrow> string \<Rightarrow> string \<Rightarrow> string \<Rightarrow> nat \<Rightarrow> files \<Rightarrow>
     fault + files \<times> bool" where
  "download_loop E net n port ip path h dstn retries fs =
     (if retries < MAX_RETRIES then
        if \<not> inet_pton net ip then Inr (fs, False)
        else case links net (ip, port, path, n) retries of
          NoLink \<Rightarrow> Inr (fs, False)
        | Linked st \<Rightarrow>
            if \<not> creatable net dstn then download_loop E net n port ip path h dstn (retries + 1) fs
            else
              let old = (case open_file fs dstn of None \<Rightarrow> [] | Some c \<Rightarrow> c);
                  fs1 = fs(c_str dstn \<mapsto> old)
              in if n < 0 then Inr (fs1, False)
                 else
                   let (tot, file) = recv_loop (nat n * PIECE_SIZE) 0 st old;
                       fs2 = fs1(c_str dstn \<mapsto> file)
                   in if tot \<noteq> PIECE_SIZE then download_loop E net n port ip path h dstn (retries + 1) fs2
                      else case shapiece E fs2 path n of
                             Inl e \<Rightarrow> Inl e
                           | Inr h' \<Rightarrow>
                               if h' = h then Inr (fs2, True)
                               else download_loop E net n port ip path h dstn (retries + 1) fs2
      else Inr (fs, False))"
  by pat_completeness auto
termination
  by (relation "measure (\<lambda>(E, net, n, port, ip, path, h, dstn, retries, fs). MAX_RETRIES - retries)") auto

declare download_loop.simps [simp del]

definition download ::
    "'c evp \<Rightarrow> download_env \<Rightarrow> int \<Rightarrow> int \<Rightarrow> string \<Rightarrow> string \<Rightarrow> string \<Rightarrow> string \<Rightarrow> files \<Rightarrow> fault + files \<times> bool" where
  "download E net n port ip path h dstn fs = download_loop E net n port ip path h dstn 0 fs"

section \<open>What the hashes are\<close>

primrec updates :: "'c evp \<Rightarrow> 'c \<Rightarrow> byte list list \<Rightarrow> 'c option" where
  "updates E ctx [] = Some ctx"
| "updates E ctx (bs # bss) =
     (case evp_update E ctx bs of None \<Rightarrow> None | Some ctx' \<Rightarrow> updates E ctx' bss)"

text \<open>The documented behaviour of the library: no call fails, and the digest is that of the
  bytes added, however they were divided.\<close>

definition evp_computes :: "'c evp \<Rightarrow> (byte list \<Rightarrow> byte list) \<Rightarrow> bool" where
  "evp_computes E sha \<longleftrightarrow>
     (\<exists>ctx. evp_new E = Some ctx \<and>
        (\<forall>bss. \<exists>ctx'. updates E ctx bss = Some ctx' \<and> evp_final E ctx' = Some (sha (concat bss))))"

definition piece :: "nat \<Rightarrow> byte list \<Rightarrow> byte list" where
  "piece n c = take PIECE_SIZE (drop (n * PIECE_SIZE) c)"

lemma length_piece: "length (piece n c) = min PIECE_SIZE (length c - n * PIECE_SIZE)"
  by (simp add: piece_def)

lemma hash_loop_updates: "\<exists>bss. concat bss = c \<and> hash_loop E ctx c = updates E ctx bss"
proof (induction E ctx c rule: hash_loop.induct)
  case (1 E ctx rest)
  show ?case
  proof (cases "take CHUNK_SIZE rest = []")
    case True
    then show ?thesis
      by (intro exI [of _ "[]"]) (auto simp: hash_loop.simps [of E ctx] PIECE_SIZE_def)
  next
    case False
    show ?thesis
    proof (cases "evp_update E ctx (take CHUNK_SIZE rest)")
      case None
      then show ?thesis
        by (intro exI [of _ "[take CHUNK_SIZE rest, drop CHUNK_SIZE rest]"])
          (use False in \<open>simp add: hash_loop.simps [of E ctx rest]\<close>)
    next
      case (Some ctx')
      from "1.IH" [OF False Some] obtain bss where "concat bss = drop CHUNK_SIZE rest"
        "hash_loop E ctx' (drop CHUNK_SIZE rest) = updates E ctx' bss" by blast
      then show ?thesis
        by (intro exI [of _ "take CHUNK_SIZE rest # bss"])
          (use False Some in \<open>simp add: hash_loop.simps [of E ctx rest]\<close>)
    qed
  qed
qed

lemma evp_run:
  assumes "evp_computes E sha"
  shows "\<exists>ctx ctx'. evp_new E = Some ctx \<and> updates E ctx bss = Some ctx' \<and>
           evp_final E ctx' = Some (sha (concat bss))"
  using assms unfolding evp_computes_def by blast

lemma computeHash_sha:
  assumes "evp_computes E sha" and "open_file fs path = Some c"
  shows "computeHash E fs path = hex_bytes (sha c)"
proof -
  obtain ctx where ctx: "evp_new E = Some ctx" 
    using evp_run [OF assms(1), of "[]"] by auto
  obtain bss where bss: "concat bss = c" "hash_loop E ctx c = updates E ctx bss"
    using hash_loop_updates [of c E ctx] by auto
  obtain ctx' where "updates E ctx bss = Some ctx'" "evp_final E ctx' = Some (sha (concat bss))"
    using evp_run [OF assms(1), of bss] ctx by auto
  then show ?thesis
    using ctx assms(2) bss by (simp add: computeHash_def hex_final_def)
qed

lemma piece_offset_ok:
  assumes "int (n * PIECE_SIZE) \<le> INT_MAX"
  shows "piece_offset (int n) = Inr (int (n * PIECE_SIZE))"
proof -
  have "INT_MIN \<le> int (n * PIECE_SIZE)" using of_nat_0_le_iff [of "n * PIECE_SIZE"] by linarith
  then show ?thesis using assms by (simp add: piece_offset_def Let_def)
qed

lemma shapiece_eq:
  assumes "int (n * PIECE_SIZE) \<le> INT_MAX"
  shows "shapiece E fs path (int n) =
    Inr (case open_file fs path of None \<Rightarrow> [] | Some c \<Rightarrow>
           (case evp_new E of None \<Rightarrow> [] | Some ctx \<Rightarrow> hex_final E (evp_update E ctx (piece n c))))"
  by (cases "open_file fs path"; cases "evp_new E")
    (simp_all add: shapiece_def piece_offset_ok [OF assms] piece_def Let_def del: of_nat_mult)

lemma shapiece_sha:
  assumes "evp_computes E sha" and "open_file fs path = Some c"
    and "int (n * PIECE_SIZE) \<le> INT_MAX"
  shows "shapiece E fs path (int n) = Inr (hex_bytes (sha (piece n c)))"
proof -
  obtain ctx ctx' where ctx: "evp_new E = Some ctx" "updates E ctx [piece n c] = Some ctx'"
    "evp_final E ctx' = Some (sha (piece n c))"
    using evp_run [OF assms(1), of "[piece n c]"] by auto
  then have "evp_update E ctx (piece n c) = Some ctx'" by (simp split: option.splits)
  then show ?thesis
    using ctx assms(2) by (simp add: shapiece_eq [OF assms(3)] hex_final_def)
qed

section \<open>What is served\<close>

lemma send_loop_prefix: "send_loop rs bs = (out, rs', ok) \<Longrightarrow> \<exists>n. out = take n bs \<and> (ok \<longrightarrow> out = bs)"
proof (induction rs bs arbitrary: out rs' ok rule: send_loop.induct)
  case (3 r rs b bs)
  show ?case
  proof (cases "r < 0")
    case True
    with "3.prems" show ?thesis by (intro exI [of _ 0]) auto
  next
    case False
    obtain out1 rs1 ok1 where s: "send_loop rs (drop (nat r) (b # bs)) = (out1, rs1, ok1)"
      by (cases "send_loop rs (drop (nat r) (b # bs))")
    from "3.IH" [OF False s] obtain n where n: "out1 = take n (drop (nat r) (b # bs))"
      "ok1 \<longrightarrow> out1 = drop (nat r) (b # bs)" by blast
    from "3.prems" False s have out: "out = take (nat r) (b # bs) @ out1" "ok = ok1" by auto
    then have "out = take (nat r + n) (b # bs)" using n(1) by (simp only: take_add)
    moreover have "ok \<longrightarrow> out = b # bs" using out n(2) by (auto simp only: append_take_drop_id)
    ultimately show ?thesis by blast
  qed
next
  case (2 b bs)
  then show ?case by (intro exI [of _ "length (b # bs)"]) auto
qed auto

lemma serve_loop_prefix:
  "\<exists>n. serve_loop rs tot rest = take n (take (PIECE_SIZE - tot) rest) \<and>
       (rs = [] \<longrightarrow> PIECE_SIZE - tot \<le> n)"
proof (induction rs tot rest rule: serve_loop.induct)
  case (1 rs tot rest)
  show ?case
  proof (cases "tot < PIECE_SIZE \<and> rest \<noteq> []")
    case False
    then have "serve_loop rs tot rest = []" by (auto simp: serve_loop.simps [of rs tot rest])
    then show ?thesis using False by (intro exI [of _ "PIECE_SIZE"]) auto
  next
    case True
    let ?bs = "take (PIECE_SIZE - tot) rest"
    obtain out rs' ok where s: "send_loop rs ?bs = (out, rs', ok)"
      by (cases "send_loop rs ?bs")
    from send_loop_prefix [OF s] obtain n where n: "out = take n ?bs" "ok \<longrightarrow> out = ?bs" by blast
    have all: "ok" "out = ?bs" if "rs = []" using s that by (cases ?bs; simp)+
    have step: "serve_loop rs tot rest =
        (if ok then out @ serve_loop rs' (tot + length ?bs) (drop (length ?bs) rest) else out)"
      using True s by (simp add: serve_loop.simps [of rs tot rest])
    have stop: "serve_loop rs' (tot + length ?bs) (drop (length ?bs) rest) = []"
    proof (cases "length rest \<le> PIECE_SIZE - tot")
      case True
      then show ?thesis by (simp add: serve_loop.simps [of _ _ "[]"])
    next
      case False
      then show ?thesis using \<open>tot < PIECE_SIZE \<and> rest \<noteq> []\<close>
        by (simp add: serve_loop.simps [of _ PIECE_SIZE])
    qed
    have "serve_loop rs tot rest = take (if ok then PIECE_SIZE - tot else n) ?bs"
      using step stop n by simp
    then show ?thesis using all by (metis order_refl)
  qed
qed

lemma serve_loop_all: "serve_loop [] 0 rest = take PIECE_SIZE rest"
  using serve_loop_prefix [of "[]" 0 rest] by (auto simp: min_def)

end
