(* ===== verification/Peer_Transfer.thy ===== *)
theory Peer_Transfer
  imports Peer_Files
begin

text \<open>
  What the two sides of a piece transfer do together: a request served by \<open>handle_peer\<close> is
  answered with the piece, and \<open>download\<close> writes the bytes it receives at the piece's place
  in the destination.  Writing the pieces of a file in any order gives the file.
\<close>

section \<open>Requests\<close>

lemma piece_offset_large:
  "INT_MAX < int (n * PIECE_SIZE) \<Longrightarrow> piece_offset (int n) = Inl SignedOverflow"
  by (simp add: piece_offset_def Let_def)

text \<open>A request for piece \<open>n\<close> of a path, as \<open>download\<close> sends it, is answered with bytes
  \<open>200 n\<close> to \<open>200 n + 199\<close> of the file, or as many of them as it has, and nothing if it ends
  before.  Where the file cannot be opened the whole serving process exits, and a number whose
  offset exceeds an \<open>int\<close> overflows.\<close>

lemma handle_peer_served:
  assumes "stream_ok st" and "concat st = send_string path @ send_string (to_string (int n))"
    and "path \<noteq> []" and "NUL \<notin> set path" and "length path < 2 ^ 32" and "int n \<le> INT_MAX"
    and "\<not> splits_at 0 st" and "\<not> splits_at (4 + length path) st"
    and "length junk = 4" and "length junk' = 4" and "length (to_string (int n)) < 2 ^ 32"
  shows "handle_peer fs [] junk junk' st =
           (case fs path of
              None \<Rightarrow> ProcessExit
            | Some c \<Rightarrow> if int (n * PIECE_SIZE) \<le> INT_MAX then Served (piece n c)
                        else ServiceFault SignedOverflow)"
proof -
  let ?st1 = "drop_stream (4 + length path) st"
  have first: "recv_string junk st = (path, ?st1)"
    by (rule recv_string_frame [OF assms(1,2,5,7,9)])
  have rest1: "concat ?st1 = send_string (to_string (int n)) @ []"
    using assms(2,5) by (simp add: concat_drop_stream send_string_def)
  have second: "recv_string junk' ?st1 =
      (to_string (int n), drop_stream (4 + length (to_string (int n))) ?st1)"
    by (rule recv_string_frame [OF drop_stream_ok [OF assms(1)] rest1 assms(11) _ assms(10)])
      (use splits_at_drop [OF assms(8) _ assms(1), of "4 + length path"] in simp)
  have num: "stoi (to_string (int n)) = Inr (int n)"
    by (rule stoi_to_string) (use assms(6) in simp_all)
  have cs: "c_str path = path" by (rule c_str_NUL_free [OF assms(4)])
  show ?thesis
  proof (cases "int (n * PIECE_SIZE) \<le> INT_MAX")
    case True
    show ?thesis
      by (cases "fs path") (use True first second num cs assms(3) in
          \<open>simp_all add: handle_peer_def piece_offset_ok serve_loop_all piece_def del: of_nat_mult\<close>)
  next
    case False
    then have "piece_offset (int n) = Inl SignedOverflow" by (intro piece_offset_large) simp
    with False show ?thesis
      by (cases "fs path") (use first second num cs assms(3) in
          \<open>simp_all add: handle_peer_def del: of_nat_mult\<close>)
  qed
qed

lemma handle_peer_served_demo:
  "handle_peer [''a.t'' \<mapsto> replicate 1400 CHR ''x'' @ ''end''] [] ''abcd'' ''efgh'' demo_stream =
     Served ''end''"
proof -
  have s: "to_string 7 = ''7''" 
    by (simp add: to_string_def nat_to_string.simps digit_char_def) code_simp
  have p: "piece 7 (replicate 1400 CHR ''x'' @ ''end'') = ''end''"
    by (simp add: piece_def PIECE_SIZE_def)
  show ?thesis
    using handle_peer_served [of demo_stream "''a.t''" 7 "''abcd''" "''efgh''"
        "[''a.t'' \<mapsto> replicate 1400 CHR ''x'' @ ''end'']"] demo_stream_facts p
    by (simp add: s PIECE_SIZE_def)
qed

section \<open>Writing at an offset\<close>

lemma write_at_Nil [simp]: "write_at off [] file = file"
  by (simp add: write_at_def)

lemma length_write_at: "off + length bs \<le> length file \<Longrightarrow> length (write_at off bs file) = length file"
  by (auto simp: write_at_def min_def)

lemma nth_write_at:
  assumes "off + length bs \<le> length file" and "i < length file"
  shows "write_at off bs file ! i = (if off \<le> i \<and> i < off + length bs then bs ! (i - off) else file ! i)"
  using assms by (auto simp: write_at_def nth_append min_def)

definition padded :: "nat \<Rightarrow> byte list \<Rightarrow> byte list" where
  "padded off file = take off (file @ replicate (off - length file) NUL)"

lemma length_padded [simp]: "length (padded off file) = off"
  by (simp add: padded_def)

lemma write_at_padded: "bs \<noteq> [] \<Longrightarrow> write_at off bs file = padded off file @ bs @ drop (off + length bs) file"
  by (simp add: write_at_def padded_def)

lemma padded_append: "length pre = off \<Longrightarrow> padded off (pre @ rest) = pre"
  by (simp add: padded_def)

lemma write_at_append: "write_at (off + length a) b (write_at off a file) = write_at off (a @ b) file"
proof (cases "a = [] \<or> b = []")
  case False
  have "padded (off + length a) (padded off file @ a @ drop (off + length a) file) = padded off file @ a"
    using padded_append [of "padded off file @ a" "off + length a"] by simp
  then show ?thesis using False by (simp add: write_at_padded add_ac)
qed auto

lemma write_at_again: "length b = length a \<Longrightarrow> write_at off b (write_at off a file) = write_at off b file"
proof (cases "a = []")
  case False
  assume "length b = length a"
  moreover from this False have "b \<noteq> []" by auto
  ultimately show ?thesis using False by (simp add: write_at_padded padded_append)
qed simp

section \<open>Fetching\<close>

lemma recv_loop_writes:
  assumes "stream_ok st" and "tot + length (concat st) \<le> PIECE_SIZE"
  shows "recv_loop off tot st dst = (tot + length (concat st), write_at (off + tot) (concat st) dst)"
  using assms
proof (induction off tot st dst rule: recv_loop.induct)
  case (1 off tot st dst)
  obtain bs st' where r: "recv PIECE_SIZE st = (bs, st')" by fastforce
  have d: "bs = take (length bs) (concat st)" "st' = drop_stream (length bs) st" "bs = [] \<longleftrightarrow> st = []"
    using recv_drop [OF "1.prems"(1) sizes_pos(2) r] by auto
  have split: "concat st = bs @ concat st'"
    using d(1,2) by (metis append_take_drop_id concat_drop_stream)
  show ?case
  proof (cases "tot < PIECE_SIZE \<and> bs \<noteq> []")
    case True
    have "recv_loop off (tot + length bs) st' (write_at (off + tot) bs dst) =
        (tot + length bs + length (concat st'),
         write_at (off + (tot + length bs)) (concat st') (write_at (off + tot) bs dst))"
      by (rule "1.IH") (use True r "1.prems" split d(2) in \<open>simp_all add: drop_stream_ok\<close>)
    then show ?thesis
      using True r split write_at_append [of "off + tot" bs "concat st'" dst]
      by (simp add: recv_loop.simps [of off tot st dst] add.assoc)
  next
    case False
    have "length bs \<le> length (concat st)" using split by simp
    then have "tot < PIECE_SIZE \<or> length bs = 0" using "1.prems"(2) by linarith
    then have "bs = []" using False by auto
    then have "st = []" using d(3) by blast
    then show ?thesis
      by (simp add: recv_loop.simps [of off tot "[]" dst] recv_def)
  qed
qed

definition old_contents :: "files \<Rightarrow> string \<Rightarrow> byte list" where
  "old_contents fs path = (case open_file fs path of None \<Rightarrow> [] | Some c \<Rightarrow> c)"

text \<open>Every attempt at a request reaches a peer that sends \<open>bs\<close>.\<close>

definition answers :: "download_env \<Rightarrow> request \<Rightarrow> byte list \<Rightarrow> bool" where
  "answers net r bs \<longleftrightarrow>
     (\<forall>k < MAX_RETRIES. \<exists>st. links net r k = Linked st \<and> stream_ok st \<and> concat st = bs)"

lemma download_loop_writes:
  assumes "inet_pton net ip" and "creatable net dstn" and "answers net (ip, port, path, int n) bs"
    and "length bs \<le> PIECE_SIZE" and "int (n * PIECE_SIZE) \<le> INT_MAX" and "k < MAX_RETRIES"
  shows "download_loop E net (int n) port ip path h dstn k fs =
    (let fs' = fs(c_str dstn \<mapsto> write_at (n * PIECE_SIZE) bs (old_contents fs dstn))
     in Inr (fs', length bs = PIECE_SIZE \<and> shapiece E fs' path (int n) = Inr h))"
  using assms
proof (induction "MAX_RETRIES - k" arbitrary: k fs)
  case (Suc m)
  define fs' where "fs' = fs(c_str dstn \<mapsto> write_at (n * PIECE_SIZE) bs (old_contents fs dstn))"
  obtain st where st: "links net (ip, port, path, int n) k = Linked st" "stream_ok st" "concat st = bs"
    using Suc.prems(3,6) unfolding answers_def by blast
  have r: "recv_loop (n * PIECE_SIZE) 0 st (old_contents fs dstn) =
      (length bs, write_at (n * PIECE_SIZE) bs (old_contents fs dstn))"
    using recv_loop_writes [of st 0 "n * PIECE_SIZE"] st Suc.prems(4) by simp
  obtain h' where h': "shapiece E fs' path (int n) = Inr h'"
    using shapiece_eq [OF Suc.prems(5)] by blast
  have step: "download_loop E net (int n) port ip path h dstn k fs =
      (if length bs = PIECE_SIZE \<and> h' = h then Inr (fs', True)
       else download_loop E net (int n) port ip path h dstn (k + 1) fs')"
    using Suc.prems st(1) r h'
    by (simp add: download_loop.simps [of E net "int n" port ip path h dstn k fs] Let_def
        old_contents_def [symmetric] fs'_def [symmetric])
  show ?case
  proof (cases "length bs = PIECE_SIZE \<and> h' = h")
    case True
    then show ?thesis using step h' by (simp add: fs'_def [symmetric] Let_def)
  next
    case False
    have same: "fs'(c_str dstn \<mapsto> write_at (n * PIECE_SIZE) bs (old_contents fs' dstn)) = fs'"
      by (simp add: fs'_def old_contents_def write_at_again)
    have "download_loop E net (int n) port ip path h dstn (k + 1) fs' = Inr (fs', False)"
    proof (cases "k + 1 < MAX_RETRIES")
      case True
      then show ?thesis
        using Suc.hyps(1) [of "k + 1" fs'] Suc.hyps(2) Suc.prems False same h'
        by (auto simp: Let_def)
    next
      case False
      then show ?thesis by (subst download_loop.simps) simp
    qed
    then show ?thesis using step False h' by (auto simp: fs'_def [symmetric] Let_def)
  qed
qed simp

lemma download_writes_piece_eq:
  assumes "inet_pton net ip" and "creatable net dstn" and "answers net (ip, port, path, int n) bs"
    and "length bs \<le> PIECE_SIZE" and "int (n * PIECE_SIZE) \<le> INT_MAX"
  shows "download E net (int n) port ip path h dstn fs =
    (let fs' = fs(c_str dstn \<mapsto> write_at (n * PIECE_SIZE) bs (old_contents fs dstn))
     in Inr (fs', length bs = PIECE_SIZE \<and> shapiece E fs' path (int n) = Inr h))"
  unfolding download_def by (rule download_loop_writes [OF assms]) (simp add: MAX_RETRIES_def)

text \<open>C13: A download from peers that answer with the same bytes, at most 200, writes them at
  the piece's place in the destination, whatever was there and however often it is tried, and
  changes no other file.  It counts as a success exactly when there are 200 of them and the
  announced hash is that of the piece in the file at the source's path on the downloading side: the
  bytes received are not hashed, and the last piece of most files never counts.\<close>

theorem download_writes_piece:
  assumes "inet_pton net ip" and "creatable net dstn" and "answers net (ip, port, path, int n) bs"
    and "length bs \<le> PIECE_SIZE" and "int (n * PIECE_SIZE) \<le> INT_MAX"
  shows "download E net (int n) port ip path h dstn fs =
    (let fs' = fs(c_str dstn \<mapsto> write_at (n * PIECE_SIZE) bs (old_contents fs dstn))
     in Inr (fs', length bs = PIECE_SIZE \<and> shapiece E fs' path (int n) = Inr h))"
  by (rule download_writes_piece_eq [OF assms])

text \<open>A digest that keeps the first 32 bytes.\<close>

definition demo_sha :: "byte list \<Rightarrow> byte list" where
  "demo_sha x = take 32 (x @ replicate 32 NUL)"

definition demo_evp :: "byte list evp" where
  "demo_evp = \<lparr>evp_new = Some [], evp_update = (\<lambda>ctx bs. Some (ctx @ bs)), evp_final = (\<lambda>ctx. Some (demo_sha ctx))\<rparr>"

lemma demo_evp_computes: "evp_computes demo_evp demo_sha"
proof -
  have "updates demo_evp ctx bss = Some (ctx @ concat bss)" for ctx bss
    by (induction bss arbitrary: ctx) (simp_all add: demo_evp_def)
  then show ?thesis by (simp add: evp_computes_def) (simp add: demo_evp_def)
qed

definition demo_net :: "byte list \<Rightarrow> download_env" where
  "demo_net bs = \<lparr>inet_pton = (\<lambda>ip. True), creatable = (\<lambda>path. True), unreadable = (\<lambda>path. False), links = (\<lambda>r k. Linked [bs])\<rparr>"

lemma demo_net_answers: "bs \<noteq> [] \<Longrightarrow> answers (demo_net bs) r bs"
  by (simp add: answers_def demo_net_def)

theorem download_writes_piece_witness:
  "download demo_evp (demo_net ''end'') 0 7001 ''10.0.0.1'' ''/d/f'' ''h'' ''f'' [''f'' \<mapsto> ''old text''] =
     Inr ([''f'' \<mapsto> ''end text''], False)"
  using download_writes_piece [of "demo_net ''end''" "''10.0.0.1''" "''f''" 7001 "''/d/f''" 0 "''end''" demo_evp "''h''"
      "[''f'' \<mapsto> ''old text'']"] demo_net_answers [of "''end''"]
  by (simp add: demo_net_def PIECE_SIZE_def old_contents_def write_at_def c_str_def Let_def)

end
