(* ===== verification/Ordered_Set.thy ===== *)
theory Ordered_Set
  imports Prelude
begin

text \<open>
  \<open>std::set\<close>: a container ordered by a comparison \<open>lt\<close>, which stands for
  \<open>operator<\<close> of the element type.  Two elements neither of which is less than the
  other are the same key, whatever their other fields.  The container is the list of its
  elements in iteration order.  The locale \<open>weak_order\<close> is what the standard asks of a
  comparison (a strict weak order); \<open>total_key_order\<close> adds that equivalent elements are
  equal, as for strings.
\<close>

section \<open>Operations\<close>

fun set_insert :: "('a \<Rightarrow> 'a \<Rightarrow> bool) \<Rightarrow> 'a \<Rightarrow> 'a list \<Rightarrow> 'a list" where
  "set_insert lt x [] = [x]"
| "set_insert lt x (y # ys) =
     (if lt x y then x # y # ys
      else if lt y x then y # set_insert lt x ys
      else y # ys)"

definition set_find :: "('a \<Rightarrow> 'a \<Rightarrow> bool) \<Rightarrow> 'a \<Rightarrow> 'a list \<Rightarrow> bool" where
  "set_find lt x ys \<longleftrightarrow> list_ex (\<lambda>y. \<not> lt x y \<and> \<not> lt y x) ys"

definition set_erase :: "('a \<Rightarrow> 'a \<Rightarrow> bool) \<Rightarrow> 'a \<Rightarrow> 'a list \<Rightarrow> 'a list" where
  "set_erase lt x ys = filter (\<lambda>y. lt x y \<or> lt y x) ys"

lemma set_insert_ne [simp]: "set_insert lt x ys \<noteq> []"
  by (cases ys) auto

lemma set_find_Nil [simp]: "\<not> set_find lt x []"
  by (simp add: set_find_def)

lemma set_insert_subset: "set (set_insert lt x ys) \<subseteq> insert x (set ys)"
  by (induction ys) auto

lemma set_insert_superset: "set ys \<subseteq> set (set_insert lt x ys)"
  by (induction ys) auto

lemma set_erase_subset: "set (set_erase lt x ys) \<subseteq> set ys"
  by (auto simp: set_erase_def)

section \<open>Strict weak orders\<close>

locale weak_order =
  fixes lt :: "'a \<Rightarrow> 'a \<Rightarrow> bool"
  assumes irrefl: "\<not> lt x x"
    and less_trans: "lt x y \<Longrightarrow> lt y z \<Longrightarrow> lt x z"
    and not_less_trans: "\<not> lt x y \<Longrightarrow> \<not> lt y z \<Longrightarrow> \<not> lt x z"
begin

lemma asym: "lt x y \<Longrightarrow> \<not> lt y x"
  using irrefl less_trans by blast

lemma less_cong_right: "lt x y \<Longrightarrow> \<not> lt z y \<Longrightarrow> lt x z"
  using not_less_trans by blast

lemma less_cong_left: "lt y x \<Longrightarrow> \<not> lt y z \<Longrightarrow> lt z x"
  using not_less_trans by blast

lemma sorted_insert: "sorted_wrt lt ys \<Longrightarrow> sorted_wrt lt (set_insert lt x ys)"
proof (induction ys)
  case (Cons y ys)
  show ?case
  proof (cases "lt x y")
    case True
    with Cons.prems show ?thesis by (auto intro: less_trans)
  next
    case False
    have "\<forall>z \<in> set (set_insert lt x ys). lt y z" if "lt y x"
      using that Cons.prems set_insert_subset [of lt x ys] by auto
    with False Cons show ?thesis by simp
  qed
qed simp

lemma sorted_erase: "sorted_wrt lt ys \<Longrightarrow> sorted_wrt lt (set_erase lt x ys)"
  by (simp add: set_erase_def sorted_wrt_filter)

lemma find_iff: "set_find lt x ys \<longleftrightarrow> (\<exists>y \<in> set ys. \<not> lt x y \<and> \<not> lt y x)"
  by (auto simp: set_find_def list_ex_iff)

lemma set_insert_eq:
  "sorted_wrt lt ys \<Longrightarrow>
   set (set_insert lt x ys) = (if set_find lt x ys then set ys else insert x (set ys))"
proof (induction ys)
  case (Cons y ys)
  have "\<not> set_find lt x ys" if "lt x y"
    using that Cons.prems less_trans by (auto simp: find_iff)
  then show ?case
    using Cons asym [of x y] by (auto simp: find_iff irrefl)
qed (simp add: find_iff)

lemma insert_present:
  assumes "sorted_wrt lt ys" and "set_find lt x ys"
  shows "set_insert lt x ys = ys"
  using assms
proof (induction ys)
  case (Cons y ys)
  have no: "\<not> set_find lt x ys" if "\<not> lt y x"
    using that Cons.prems(1) less_cong_left by (auto simp: find_iff)
  have "\<not> lt x y"
    using Cons.prems less_trans by (auto simp: find_iff)
  then show ?case
    using Cons no by (auto simp: find_iff)
qed simp

lemma find_insert: "sorted_wrt lt ys \<Longrightarrow> set_find lt x (set_insert lt x ys)"
  using set_insert_eq [of ys x] irrefl by (auto simp: find_iff)

lemma distinct_sorted: "sorted_wrt lt ys \<Longrightarrow> distinct ys"
  by (induction ys) (auto simp: irrefl)

end

section \<open>Orders whose equivalence is equality\<close>

locale total_key_order = weak_order +
  assumes total: "\<not> lt x y \<Longrightarrow> \<not> lt y x \<Longrightarrow> x = y"
begin

lemma find_mem: "set_find lt x ys \<longleftrightarrow> x \<in> set ys"
  using total irrefl by (auto simp: find_iff)

lemma set_insert_set: "set (set_insert lt x ys) = insert x (set ys)"
proof (induction ys)
  case (Cons y ys)
  then show ?case using total by auto
qed simp

lemma set_erase_set: "set (set_erase lt x ys) = set ys - {x}"
  using total irrefl by (auto simp: set_erase_def)

end

section \<open>Strings and tuples of strings\<close>

abbreviation string_insert :: "string \<Rightarrow> string list \<Rightarrow> string list" where
  "string_insert \<equiv> set_insert (<)"

abbreviation string_find :: "string \<Rightarrow> string list \<Rightarrow> bool" where
  "string_find \<equiv> set_find (<)"

abbreviation string_erase :: "string \<Rightarrow> string list \<Rightarrow> string list" where
  "string_erase \<equiv> set_erase (<)"

lemma linorder_total_key_order: "total_key_order ((<) :: 'a::linorder \<Rightarrow> 'a \<Rightarrow> bool)"
  by unfold_locales auto

interpretation string_set: total_key_order "(<) :: string \<Rightarrow> string \<Rightarrow> bool"
  by (rule linorder_total_key_order)

interpretation triple_set:
  total_key_order "(<) :: string \<times> string \<times> string \<Rightarrow> string \<times> string \<times> string \<Rightarrow> bool"
  by (rule linorder_total_key_order)

declare string_set.find_mem [simp] string_set.set_insert_set [simp] string_set.set_erase_set [simp]
declare triple_set.find_mem [simp] triple_set.set_insert_set [simp] triple_set.set_erase_set [simp]

end
