(* ===== verification/Peer_Client.thy ===== *)
theory Peer_Client
  imports Peer_Transfer Ordered_Set
begin

text \<open>
  The command loop of a peer (\<open>main\<close> of \<open>src/peer.cpp\<close>): what a line typed by the user
  sends to the tracker, and what the peer does with the tracker's reply to a download command: it
  parses the list of pieces and sources, orders the pieces by rarity, fetches each from one of its
  sources, and checks the whole file.
\<close>

section \<open>Sources\<close>

record piece_info =
  pi_port :: int
  pi_ip :: string
  pi_path :: string
  pi_hash :: string

definition piece_info_less :: "piece_info \<Rightarrow> piece_info \<Rightarrow> bool" where
  "piece_info_less a b =
     (if pi_path a \<noteq> pi_path b then pi_path a < pi_path b
      else if pi_ip a \<noteq> pi_ip b then pi_ip a < pi_ip b
      else pi_port a < pi_port b)"

definition piece_info_key :: "piece_info \<Rightarrow> string \<times> string \<times> int" where
  "piece_info_key a = (pi_path a, pi_ip a, pi_port a)"

lemma piece_info_less_key: "piece_info_less a b \<longleftrightarrow> piece_info_key a < piece_info_key b"
  by (auto simp: piece_info_less_def piece_info_key_def)

interpretation piece_info_set: weak_order piece_info_less
  by unfold_locales (auto simp: piece_info_less_key)

text \<open>\<open>piece_map\<close>: the sources of each piece number.  The order of an
  \<open>unordered_map\<close> is not fixed; the model lists the numbers in the order they were added, and
  what is read from the map below does not depend on it.\<close>

type_synonym piece_map = "(int \<times> piece_info list) list"

fun pm_insert :: "int \<Rightarrow> piece_info \<Rightarrow> piece_map \<Rightarrow> piece_map" where
  "pm_insert n p [] = [(n, [p])]"
| "pm_insert n p ((m, ps) # pm) =
     (if m = n then (m, set_insert piece_info_less p ps) # pm else (m, ps) # pm_insert n p pm)"

definition pm_sources :: "piece_map \<Rightarrow> int \<Rightarrow> piece_info list" where
  "pm_sources pm n = (case map_of pm n of None \<Rightarrow> [] | Some ps \<Rightarrow> ps)"

section \<open>Reading the reply\<close>

text \<open>\<open>start\<close> is kept as the part of the message from it on, and the text up to \<open>end\<close> is
  its first line.  Where there is no further newline \<open>end\<close> is -1 and \<open>end+1\<close> is the start
  of the whole message again.\<close>

definition next_line :: "string \<Rightarrow> string \<Rightarrow> string" where
  "next_line msg rest = (if LF \<in> set rest then after_char LF rest else msg)"

lemma length_after_char: "d \<in> set s \<Longrightarrow> length (after_char d s) < length s"
  by (induction s) (auto simp: after_char_def)

function parse_loop ::
    "string \<Rightarrow> int \<Rightarrow> nat \<Rightarrow> int \<Rightarrow> string \<Rightarrow> string \<Rightarrow> piece_map \<Rightarrow> fault + piece_map" where
  "parse_loop rest i ln port ip path pm =
     (if LF \<notin> set rest then Inr pm
      else
        let l = before_char LF rest; rest' = after_char LF rest
        in if l = to_string (i + 1) then parse_loop rest' (i + 1) ln port ip path pm
           else if ln mod 4 = 0 then
             (case stoi l of
                Inl e \<Rightarrow> Inl e
              | Inr p \<Rightarrow> parse_loop rest' i (ln + 1) p ip path pm)
           else if ln mod 4 = 1 then parse_loop rest' i (ln + 1) port l path pm
           else if ln mod 4 = 2 then parse_loop rest' i (ln + 1) port ip l pm
           else
             parse_loop rest' i (ln + 1) port ip path
               (pm_insert i \<lparr>pi_port = port, pi_ip = ip, pi_path = path, pi_hash = l\<rparr> pm))"
  by pat_completeness auto
termination
  by (relation "measure (\<lambda>(rest, i, ln, port, ip, path, pm). length rest)")
    (auto simp: length_after_char)

declare parse_loop.simps [simp del]

section \<open>Fetching the pieces, the rarest first\<close>

definition piece_rarity :: "piece_map \<Rightarrow> (int \<times> int) list" where
  "piece_rarity pm = sort (map (\<lambda>(n, ps). (int (length ps), n)) pm)"

text \<open>\<open>rnd k\<close> is what the \<open>k\<close>-th call of \<open>rand\<close> returns.\<close>

fun download_pieces ::
    "'c evp \<Rightarrow> download_env \<Rightarrow> (nat \<Rightarrow> nat) \<Rightarrow> nat \<Rightarrow> string \<Rightarrow> piece_map \<Rightarrow> (int \<times> int) list \<Rightarrow> files \<Rightarrow>
     fault + files" where
  "download_pieces E net rnd k dstn pm [] fs = Inr fs"
| "download_pieces E net rnd k dstn pm ((count, n) # rs) fs =
     (let ps = pm_sources pm n; p = ps ! (rnd k mod length ps)
      in case download E net n (pi_port p) (pi_ip p) (pi_path p) (pi_hash p) dstn fs of
           Inl e \<Rightarrow> Inl e
         | Inr (fs', ok) \<Rightarrow> download_pieces E net rnd (k + 1) dstn pm rs fs')"

text \<open>The destination is made as long as the file by writing a zero as its last byte; a seek to
  a negative offset fails and the zero goes to the front.\<close>

definition preallocate :: "download_env \<Rightarrow> string \<Rightarrow> int \<Rightarrow> files \<Rightarrow> files" where
  "preallocate net dstn flen fs =
     (if creatable net dstn
      then fs(c_str dstn \<mapsto> write_at (nat (flen - 1)) [NUL] (old_contents fs dstn))
      else fs)"

section \<open>A turn of the loop\<close>

text \<open>What a turn leaves: the files, what it sent to the tracker and printed, the fault that ended
  the process, and whether the user quits.  Where the pieces of a download end in a fault, an overflow
  whose behaviour is undefined, \<open>t_files\<close> are the files before the first piece.\<close>

record turn =
  t_files :: files
  t_sent :: "string list"
  t_out :: "string list"
  t_fault :: "fault option"
  t_quit :: bool

definition turn_of :: "files \<Rightarrow> turn" where
  "turn_of fs = \<lparr>t_files = fs, t_sent = [], t_out = [], t_fault = None, t_quit = False\<rparr>"

definition download_reply ::
    "'c evp \<Rightarrow> download_env \<Rightarrow> (nat \<Rightarrow> nat) \<Rightarrow> string \<Rightarrow> string \<Rightarrow> string \<Rightarrow> files \<Rightarrow> turn" where
  "download_reply E net rnd msg dstn g fs =
     (let r1 = next_line msg msg
      in case stoi (before_char LF r1) of
           Inl e \<Rightarrow> turn_of fs\<lparr>t_fault := Some e\<rparr>
         | Inr flen \<Rightarrow>
             let r2 = next_line msg r1; file_hash = before_char LF r2;
                 r3 = next_line msg r2; r4 = next_line msg r3
             in if flen = INT_MIN then turn_of fs\<lparr>t_fault := Some SignedOverflow\<rparr>
                else
                  let fs1 = preallocate net dstn flen fs
                  in case parse_loop r4 0 0 0 [] [] [] of
                       Inl e \<Rightarrow> turn_of fs1\<lparr>t_fault := Some e\<rparr>
                     | Inr pm \<Rightarrow>
                         (case download_pieces E net rnd 0 dstn pm (piece_rarity pm) fs1 of
                            Inl e \<Rightarrow> turn_of fs1\<lparr>t_fault := Some e\<rparr>
                          | Inr fs2 \<Rightarrow>
                              let good = (file_hash = computeHash E fs2 dstn);
                                  fs3 = (if good then fs2 else fs2(c_str dstn := None));
                                  (sent, f) = piece_creation E fs3 dstn (''upload_file '' @ dstn @ '' '' @ g)
                              in turn_of fs3
                                   \<lparr>t_sent := sent,
                                    t_out := [line (if good then ''download completed'' else ''download failed'')],
                                    t_fault := f\<rparr>))"

text \<open>The words of a line around its spaces; \<open>after_char\<close> and \<open>before_char\<close> give the
  whole line where \<open>find\<close> finds no space.\<close>

definition second_word :: "string \<Rightarrow> string" where
  "second_word s = before_char (CHR '' '') (after_char (CHR '' '') s)"

definition last_part :: "string \<Rightarrow> string" where
  "last_part s = rev (before_char (CHR '' '') (rev s))"

text \<open>The destination: the last word of the command, and the one before it.\<close>

definition destination :: "string \<Rightarrow> string" where
  "destination s =
     last_part s @
     (if CHR '' '' \<in> set s then last_part (rev (after_char (CHR '' '') (rev s))) else s)"

text \<open>The length of a file as \<open>int\<close>.\<close>

definition int_length :: "byte list \<Rightarrow> int" where
  "int_length c = sint (word_of_nat (length c) :: 32 word)"

definition peer_help :: "string list" where
  "peer_help = map line
     [''Create peer Account: create_peer <peer_id> <password>'',
      ''Login: login <peer_id> <password>'',
      ''Create Group: create_group <group_id>'',
      ''Join Group: join_group <group_id>'',
      ''Leave Group: leave_group <group_id>'',
      ''List Pending Join: list_requests <group_id>'',
      ''Accept Group Joining Request: accept_request <group_id> <peer_id>'',
      ''List All Groups in Network: list_groups'',
      ''List All Sharable Files in Group: list_files <group_id>'',
      ''Upload File: upload_file <file_path> <group_id>'',
      ''Download File: download_file <group_id> <file_name> <destination_path>'',
      ''Logout: logout'',
      ''Show Downloads: show_downloads'',
      ''Output format: [D] [grp_id] filename or [C] [grp_id] filename (D - Downloading, C - Complete)'',
      ''Stop Sharing: stop_share <group_id> <file_name>'',
      ''Quit: quit'']"

text \<open>\<open>access\<close> finds a path that exists even if it cannot be opened; then \<open>lseek\<close> returns -1.\<close>

definition upload_turn :: "'c evp \<Rightarrow> download_env \<Rightarrow> string \<Rightarrow> files \<Rightarrow> turn" where
  "upload_turn E net s fs =
     (let path = second_word s
      in if open_file fs path = None \<and> \<not> unreadable net (c_str path)
         then turn_of fs\<lparr>t_out := [line ''file does not exist'']\<rparr>
         else
           let filelen = (case open_file fs path of None \<Rightarrow> -1 | Some c \<Rightarrow> int_length c);
               msg = ''file_details '' @ path @ '' '' @ to_string filelen @ '' '' @ computeHash E fs path;
               (sent, f) = piece_creation E fs path s
           in turn_of fs\<lparr>t_sent := msg # sent, t_fault := f\<rparr>)"

text \<open>\<open>arrived\<close> is what has arrived from the tracker when \<open>recv\<close> returns after the command was
  sent, nothing if the connection is closed.  One call is made, and it takes at most as many bytes as
  the buffer has but one; what is behind them, or arrives later, is not part of the reply.\<close>

definition REPLY_SIZE :: nat where "REPLY_SIZE = 893227"

definition client_turn ::
    "'c evp \<Rightarrow> download_env \<Rightarrow> (nat \<Rightarrow> nat) \<Rightarrow> byte list \<Rightarrow> string \<Rightarrow> files \<Rightarrow> turn" where
  "client_turn E net rnd arrived s fs =
     (let reply = take REPLY_SIZE arrived;
          b = before_char (CHR '' '') s;
          dstn = (if b = ''download_file'' then destination s else []);
          g = (if b = ''download_file'' then second_word s else []);
          shown = (if b = ''download_file'' then [line s, line dstn]
                   else if b = ''help'' then peer_help else [])
      in if b = ''upload_file'' then upload_turn E net s fs
         else if b = ''quit'' then turn_of fs\<lparr>t_quit := True\<rparr>
         else if s = [] then turn_of fs
         else if reply = [] then turn_of fs\<lparr>t_sent := [s], t_out := shown\<rparr>
         else
           let msg = c_str reply
           in if before_char LF msg = ''download''
              then let t = download_reply E net rnd msg dstn g fs
                   in t\<lparr>t_sent := s # t_sent t, t_out := shown @ t_out t\<rparr>
              else turn_of fs\<lparr>t_sent := [s], t_out := shown @ [msg]\<rparr>)"

text \<open>The argument \<open>ip:port\<close> of the program: the port it serves pieces on, the address, and the
  greeting it sends to the tracker.\<close>

definition peer_start :: "string \<Rightarrow> fault + (int \<times> string \<times> string)" where
  "peer_start arg =
     (case stoi (after_char (CHR '':'') arg) of
        Inl e \<Rightarrow> Inl e
      | Inr port \<Rightarrow> Inr (port, before_char (CHR '':'') arg, arg))"

end
