(* ===== verification/Tracker_State.thy ===== *)
theory Tracker_State
  imports Ordered_Set
begin

text \<open>
  The tracker's data (\<open>include/utils.h\<close> and the globals of
  \<open>src/helper_tracker.cpp\<close>): \<open>file_info\<close> and \<open>filepiece\<close>, their
  ordering, and one record field for each global container.  \<open>file_path_save\<close> is
  declared but never used and has no field.
\<close>

section \<open>Sources and pieces\<close>

record file_info =
  peername :: string
  client_port :: int
  client_ip :: string
  file_path :: string
  hash :: string

definition file_info_less :: "file_info \<Rightarrow> file_info \<Rightarrow> bool" where
  "file_info_less a b =
     (if file_path a \<noteq> file_path b then file_path a < file_path b
      else if client_ip a \<noteq> client_ip b then client_ip a < client_ip b
      else client_port a < client_port b)"

definition file_info_key :: "file_info \<Rightarrow> string \<times> string \<times> int" where
  "file_info_key a = (file_path a, client_ip a, client_port a)"

lemma file_info_less_key: "file_info_less a b \<longleftrightarrow> file_info_key a < file_info_key b"
  by (auto simp: file_info_less_def file_info_key_def)

interpretation file_info_set: weak_order file_info_less
  by unfold_locales (auto simp: file_info_less_key)

lemma file_info_find:
  "set_find file_info_less x ys \<longleftrightarrow> file_info_key x \<in> file_info_key ` set ys"
  unfolding file_info_set.find_iff file_info_less_key by (force simp: image_iff)

record filepiece =
  file_name :: string
  piecenumber :: int
  sources :: "file_info list"

section \<open>The global containers\<close>

record tracker =
  user :: "string \<rightharpoonup> string"
  loggedIn :: "string \<rightharpoonup> bool"
  logmap :: "int \<rightharpoonup> string"
  group_owner :: "string \<rightharpoonup> string"      \<comment> \<open>\<open>group\<close> in the source\<close>
  group_members :: "string \<rightharpoonup> string list"
  pending :: "string \<rightharpoonup> string list"
  file_list :: "string \<rightharpoonup> file_info list"
  group_file :: "string \<rightharpoonup> string list"
  listenmap :: "int \<rightharpoonup> int \<times> string"
  downloads :: "string \<rightharpoonup> (string \<times> string \<times> string) list"
  file_pieces :: "string \<rightharpoonup> filepiece list"
  filedetails :: "string \<rightharpoonup> int \<times> string"

definition tracker_init :: tracker where
  "tracker_init =
     \<lparr>user = Map.empty, loggedIn = Map.empty, logmap = Map.empty, group_owner = Map.empty,
      group_members = Map.empty, pending = Map.empty, file_list = Map.empty,
      group_file = Map.empty, listenmap = Map.empty, downloads = Map.empty,
      file_pieces = Map.empty, filedetails = Map.empty\<rparr>"

section \<open>Reading the containers\<close>

text \<open>\<open>operator[]\<close> on each container: its default is the empty string, set or
  vector, \<open>false\<close>, or the pair of 0 and the empty string.\<close>

abbreviation members_of :: "tracker \<Rightarrow> string \<Rightarrow> string list" where
  "members_of t g \<equiv> mget [] (group_members t) g"

abbreviation pending_of :: "tracker \<Rightarrow> string \<Rightarrow> string list" where
  "pending_of t g \<equiv> mget [] (pending t) g"

abbreviation files_of :: "tracker \<Rightarrow> string \<Rightarrow> string list" where
  "files_of t g \<equiv> mget [] (group_file t) g"

abbreviation pieces_of :: "tracker \<Rightarrow> string \<Rightarrow> filepiece list" where
  "pieces_of t f \<equiv> mget [] (file_pieces t) f"

abbreviation name_of :: "tracker \<Rightarrow> int \<Rightarrow> string" where
  "name_of t sock \<equiv> mget [] (logmap t) sock"

abbreviation downloads_of :: "tracker \<Rightarrow> string \<Rightarrow> (string \<times> string \<times> string) list" where
  "downloads_of t p \<equiv> mget [] (downloads t) p"

end
