(* ===== verification/Tracker_Ops.thy ===== *)
theory Tracker_Ops
  imports Tracker_State
begin

text \<open>
  The operations of \<open>src/helper_tracker.cpp\<close>, one definition for each function, with
  its checks in the code's order.  Each takes the words of the command (\<open>input\<close>, whose
  first element is the command name) and the client's socket, and returns the new state
  with the code's integer result; an operation that sends to the client itself also
  returns the strings sent.  \<open>operator[]\<close> on a missing key inserts the default value:
  the \<open>mtouch\<close> updates.
\<close>

section \<open>Accounts\<close>

definition create_peer :: "string list \<Rightarrow> tracker \<Rightarrow> tracker \<times> int" where
  "create_peer input t =
     (if length input \<noteq> 3 then (t, -1)
      else if user t (input ! 1) \<noteq> None then (t, -2)
      else
        (t\<lparr>user := (user t)(input ! 1 \<mapsto> input ! 2),
           loggedIn := (case loggedIn t (input ! 1) of
                          None \<Rightarrow> (loggedIn t)(input ! 1 \<mapsto> False)
                        | Some _ \<Rightarrow> loggedIn t)\<rparr>, 1))"

definition login :: "string list \<Rightarrow> int \<Rightarrow> tracker \<Rightarrow> tracker \<times> int" where
  "login input sock t =
     (if length input \<noteq> 3 then (t, 2)
      else if logmap t sock \<noteq> None then (t, 3)
      else
        let t' = t\<lparr>loggedIn := mtouch False (loggedIn t) (input ! 1)\<rparr>
        in if mget False (loggedIn t) (input ! 1) then (t', 4)
           else if user t' (input ! 1) = Some (input ! 2)
           then (t'\<lparr>loggedIn := (loggedIn t')(input ! 1 \<mapsto> True),
                    logmap := (logmap t')(sock \<mapsto> input ! 1)\<rparr>, 1)
           else (t', 0))"

definition logout :: "string list \<Rightarrow> int \<Rightarrow> tracker \<Rightarrow> tracker \<times> int" where
  "logout input sock t =
     (if length input \<noteq> 1 then (t, -1)
      else (t\<lparr>loggedIn := (loggedIn t)(name_of t sock \<mapsto> False),
              logmap := (logmap t)(sock := None)\<rparr>, 0))"

section \<open>Groups\<close>

definition create_group :: "string list \<Rightarrow> int \<Rightarrow> tracker \<Rightarrow> tracker \<times> int" where
  "create_group input sock t =
     (if length input \<noteq> 2 then (t, -1)
      else if group_owner t (input ! 1) \<noteq> None then (t, 0)
      else
        let name = name_of t sock; g = input ! 1
        in (t\<lparr>logmap := mtouch [] (logmap t) sock,
              group_owner := (group_owner t)(g \<mapsto> name),
              group_members := (group_members t)(g \<mapsto> string_insert name (members_of t g))\<rparr>, 1))"

definition join_group :: "string list \<Rightarrow> int \<Rightarrow> tracker \<Rightarrow> tracker \<times> int" where
  "join_group input sock t =
     (if length input \<noteq> 2 then (t, -1)
      else
        let g = input ! 1; name = name_of t sock; t1 = t\<lparr>logmap := mtouch [] (logmap t) sock\<rparr>
        in if group_owner t1 g = None then (t1, -2)
           else
             let t2 = t1\<lparr>group_members := mtouch [] (group_members t1) g\<rparr>
             in if string_find name (members_of t1 g) then (t2, 0)
                else (t2\<lparr>pending := (pending t2)(g \<mapsto> string_insert name (pending_of t2 g))\<rparr>, 1))"

definition list_requests ::
    "string list \<Rightarrow> int \<Rightarrow> tracker \<Rightarrow> tracker \<times> int \<times> string list" where
  "list_requests input sock t =
     (if length input \<noteq> 2 then (t, -1, [])
      else if group_owner t (input ! 1) = None then (t, -2, [])
      else
        let g = input ! 1; t1 = t\<lparr>logmap := mtouch [] (logmap t) sock\<rparr>
        in if name_of t sock = mget [] (group_owner t) g
           then (t1\<lparr>pending := mtouch [] (pending t1) g\<rparr>, 1,
                 if length (pending_of t g) > 0 then map line (pending_of t g)
                 else [line ''no pending request''])
           else (t1, 0, []))"

definition accept_request :: "string list \<Rightarrow> int \<Rightarrow> tracker \<Rightarrow> tracker \<times> int" where
  "accept_request input sock t =
     (if length input \<noteq> 3 then (t, -1)
      else
        let g = input ! 1; p = input ! 2; t1 = t\<lparr>logmap := mtouch [] (logmap t) sock\<rparr>
        in if group_owner t1 g = None then (t1, -2)
           else
             let t2 = t1\<lparr>pending := mtouch [] (pending t1) g\<rparr>
             in if \<not> string_find p (pending_of t1 g) then (t2, -3)
                else if name_of t2 sock = mget [] (group_owner t2) g
                then (t2\<lparr>group_members :=
                           (group_members t2)(g \<mapsto> string_insert p (members_of t2 g)),
                         pending := (pending t2)(g \<mapsto> string_erase p (pending_of t2 g))\<rparr>, 1)
                else (t2, 0))"

text \<open>The loop of \<open>leave_group\<close> that hands the group over: the owner becomes the first
  member, in the set's order, that is not the one leaving.\<close>

fun new_owner :: "string \<Rightarrow> string list \<Rightarrow> string option" where
  "new_owner p [] = None"
| "new_owner p (m # ms) = (if m \<noteq> p then Some m else new_owner p ms)"

definition leave_group :: "string list \<Rightarrow> int \<Rightarrow> tracker \<Rightarrow> tracker \<times> int" where
  "leave_group input sock t =
     (if length input \<noteq> 2 then (t, -1)
      else
        let p = name_of t sock; g = input ! 1; t1 = t\<lparr>logmap := mtouch [] (logmap t) sock\<rparr>
        in if group_owner t1 g = None then (t1, -2)
           else
             let ms = members_of t1 g;
                 t2 = t1\<lparr>group_members := mtouch [] (group_members t1) g\<rparr>
             in if \<not> string_find p ms then (t2, -3)
                else if mget [] (group_owner t2) g = p
                then if length ms > 1
                     then (t2\<lparr>group_owner := (case new_owner p ms of
                                                None \<Rightarrow> group_owner t2
                                              | Some q \<Rightarrow> (group_owner t2)(g \<mapsto> q)),
                              group_members := (group_members t2)(g \<mapsto> string_erase p ms)\<rparr>, 1)
                     else (t2\<lparr>group_owner := (group_owner t2)(g := None),
                              group_members := (group_members t2)(g := None)\<rparr>, 1)
                else (t2\<lparr>group_members := (group_members t2)(g \<mapsto> string_erase p ms)\<rparr>, 1))"

text \<open>\<open>group\<close> is unordered: \<open>order\<close> is the sequence in which this iteration visits
  its keys.\<close>

definition list_groups :: "string list \<Rightarrow> string list \<Rightarrow> tracker \<Rightarrow> tracker \<times> int \<times> string list" where
  "list_groups order input t =
     (if length input \<noteq> 1 then (t, -1, [])
      else if length order > 0 then (t, 0, map line order)
      else (t, 0, [line ''no groups present'']))"

section \<open>Files\<close>

text \<open>The loop of \<open>upload_file\<close> over the pieces known for a file: the source goes to
  the first piece with this number, or to a new piece at the end.\<close>

fun add_source :: "string \<Rightarrow> int \<Rightarrow> file_info \<Rightarrow> filepiece list \<Rightarrow> filepiece list" where
  "add_source f n fi [] = [\<lparr>file_name = f, piecenumber = n, sources = [fi]\<rparr>]"
| "add_source f n fi (p # ps) =
     (if piecenumber p = n then p\<lparr>sources := set_insert file_info_less fi (sources p)\<rparr> # ps
      else p # add_source f n fi ps)"

definition upload_file :: "string list \<Rightarrow> int \<Rightarrow> tracker \<Rightarrow> fault + (tracker \<times> int)" where
  "upload_file input sock t =
     (if length input \<noteq> 5 then Inr (t, -1)
      else
        let g = input ! 2; p = name_of t sock; t1 = t\<lparr>logmap := mtouch [] (logmap t) sock\<rparr>
        in if group_owner t1 g = None then Inr (t1, -2)
           else
             let t2 = t1\<lparr>group_members := mtouch [] (group_members t1) g\<rparr>
             in if \<not> string_find p (members_of t1 g) then Inr (t2, -3)
                else
                  let port_ip = mget (0, []) (listenmap t2) sock;
                      t3 = t2\<lparr>listenmap := mtouch (0, []) (listenmap t2) sock\<rparr>;
                      path = input ! 1;
                      f = base_name path
                  in case stoi (input ! 3) of
                       Inl e \<Rightarrow> Inl e
                     | Inr n \<Rightarrow>
                         let fi = \<lparr>peername = p, client_port = fst port_ip, client_ip = snd port_ip,
                                   file_path = path, hash = input ! 4\<rparr>
                         in Inr (t3\<lparr>file_pieces :=
                                      (file_pieces t3)(f \<mapsto> add_source f n fi (pieces_of t3 f)),
                                    file_list := (file_list t3)
                                      (f \<mapsto> set_insert file_info_less fi (mget [] (file_list t3) f)),
                                    group_file := (group_file t3)
                                      (g \<mapsto> string_insert f (files_of t3 g))\<rparr>, 0))"

text \<open>The reply to \<open>download_file\<close>: a line each for the command, the size and the hash
  of the file, then for each piece its number and four lines for each of its sources.\<close>

definition source_lines :: "file_info \<Rightarrow> string list" where
  "source_lines fi = [to_string (client_port fi), client_ip fi, file_path fi, hash fi]"

definition piece_lines :: "filepiece \<Rightarrow> string list" where
  "piece_lines p = to_string (piecenumber p) # concat (map source_lines (sources p))"

definition peerdetails :: "int \<times> string \<Rightarrow> filepiece list \<Rightarrow> string" where
  "peerdetails det ps =
     concat (map line (''download'' # to_string (fst det) # snd det # concat (map piece_lines ps)))"

definition download_file ::
    "string list \<Rightarrow> int \<Rightarrow> tracker \<Rightarrow> tracker \<times> int \<times> string" where
  "download_file input sock t =
     (if length input \<noteq> 4 then (t, -1, [])
      else
        let g = input ! 1; f = input ! 2; p = name_of t sock;
            t1 = t\<lparr>logmap := mtouch [] (logmap t) sock\<rparr>
        in if group_owner t1 g = None then (t1, -2, [])
           else
             let t2 = t1\<lparr>group_members := mtouch [] (group_members t1) g\<rparr>
             in if \<not> string_find p (members_of t1 g) then (t2, -4, [])
                else
                  let t3 = t2\<lparr>group_file := mtouch [] (group_file t2) g\<rparr>
                  in if \<not> string_find f (files_of t2 g) then (t3, -3, [])
                     else
                       (t3\<lparr>downloads := (downloads t3)
                              (p \<mapsto> set_insert (<) (f, ''C'', g) (downloads_of t3 p)),
                            filedetails := mtouch (0, []) (filedetails t3) f,
                            file_pieces := mtouch [] (file_pieces t3) f\<rparr>,
                        0, peerdetails (mget (0, []) (filedetails t3) f) (pieces_of t3 f)))"

definition list_files :: "string list \<Rightarrow> tracker \<Rightarrow> tracker \<times> int \<times> string list" where
  "list_files input t =
     (if length input \<noteq> 2 then (t, -1, [])
      else if group_owner t (input ! 1) = None then (t, -2, [])
      else
        case group_file t (input ! 1) of
          None \<Rightarrow> (t, -3, [])
        | Some fs \<Rightarrow> if fs = [] then (t, -3, []) else (t, 0, map line fs))"

definition drop_peer :: "string \<Rightarrow> filepiece \<Rightarrow> filepiece" where
  "drop_peer p pc = pc\<lparr>sources := filter (\<lambda>fi. peername fi \<noteq> p) (sources pc)\<rparr>"

definition stop_share :: "string list \<Rightarrow> int \<Rightarrow> tracker \<Rightarrow> tracker \<times> int" where
  "stop_share input sock t =
     (if length input \<noteq> 3 then (t, -1)
      else
        let g = input ! 1; f = input ! 2; p = name_of t sock;
            t1 = t\<lparr>logmap := mtouch [] (logmap t) sock\<rparr>
        in if group_owner t1 g = None then (t1, -2)
           else
             let t2 = t1\<lparr>group_file := mtouch [] (group_file t1) g\<rparr>
             in if \<not> string_find f (files_of t1 g) then (t2, -3)
                else case file_pieces t2 f of
                       None \<Rightarrow> (t2, 0)
                     | Some ps \<Rightarrow>
                         let ps' = map (drop_peer p) ps
                         in if list_all (\<lambda>pc. sources pc = []) ps'
                            then (t2\<lparr>group_file := (group_file t2)(g \<mapsto> string_erase f (files_of t2 g)),
                                     file_pieces := (file_pieces t2)(f := None)\<rparr>, 0)
                            else (t2\<lparr>file_pieces := (file_pieces t2)(f \<mapsto> ps')\<rparr>, 0))"

definition show_downloads :: "string list \<Rightarrow> int \<Rightarrow> tracker \<Rightarrow> tracker \<times> int \<times> string list" where
  "show_downloads input sock t =
     (if length input \<noteq> 1 then (t, -1, [])
      else
        let p = name_of t sock; t1 = t\<lparr>logmap := mtouch [] (logmap t) sock\<rparr>
        in case downloads t1 p of
             None \<Rightarrow> (t1, -2, [])
           | Some ds \<Rightarrow>
               (t1, 0, map (\<lambda>(f, st, g). line (''['' @ st @ ''] '' @ ''['' @ g @ ''] '' @ f)) ds))"

text \<open>The \<open>file_details\<close> branch of the dispatcher.\<close>

definition file_details :: "string list \<Rightarrow> tracker \<Rightarrow> fault + tracker" where
  "file_details input t =
     (if length input < 4 then Inl BadIndex
      else case stoi (input ! 2) of
             Inl e \<Rightarrow> Inl e
           | Inr n \<Rightarrow>
               Inr (t\<lparr>filedetails := (filedetails t)(base_name (input ! 1) \<mapsto> (n, input ! 3))\<rparr>))"

text \<open>
  The loop of the \<open>download_completed\<close> branch runs over the peer's set while it erases
  from it and inserts into it.  Erasing the element the iterator is at invalidates the
  iterator; an element inserted after it is visited later.  \<open>rest\<close> are the elements the
  iteration has still to visit.
\<close>

function completed_loop ::
    "string \<Rightarrow> string \<times> string \<times> string \<Rightarrow> (string \<times> string \<times> string) list \<Rightarrow>
     (string \<times> string \<times> string) list \<Rightarrow> fault + (string \<times> string \<times> string) list" where
  "completed_loop f x ds [] = Inr ds"
| "completed_loop f x ds (d # rest) =
     (if fst d = f then Inl IteratorInvalid
      else if x \<in> set ds then completed_loop f x ds rest
      else completed_loop f x (set_insert (<) x ds)
             (if d < x then set_insert (<) x rest else rest))"
  by pat_completeness auto
termination
  by (relation "measures [\<lambda>(f, x, ds, rest). if x \<in> set ds then 0 else 1,
                          \<lambda>(f, x, ds, rest). length rest]") auto

definition download_completed :: "string list \<Rightarrow> int \<Rightarrow> tracker \<Rightarrow> fault + tracker" where
  "download_completed input sock t =
     (if length input < 3 then Inl BadIndex
      else
        let p = name_of t sock; ds = downloads_of t p; f = input ! 2
        in case completed_loop f (f, ''C'', input ! 1) ds ds of
             Inl e \<Rightarrow> Inl e
           | Inr ds' \<Rightarrow> Inr (t\<lparr>logmap := mtouch [] (logmap t) sock,
                              downloads := (downloads t)(p \<mapsto> ds')\<rparr>))"

lemmas tracker_op_defs =
  create_peer_def login_def logout_def create_group_def join_group_def list_requests_def
  accept_request_def leave_group_def list_groups_def upload_file_def download_file_def
  list_files_def stop_share_def show_downloads_def file_details_def download_completed_def

end
