(* ===== verification/Peer_Parse.thy ===== *)
theory Peer_Parse
  imports Peer_Client Tracker_Ops
begin

text \<open>
  The reply to a download command is read back by the peer as the tracker wrote it: the size and
  hash of the file and the sources of every piece.  The parser tells the number of the next piece
  from the lines of a source only by its value, so this holds for sources none of whose four lines
  is that number.
\<close>

section \<open>Lines of a message\<close>

lemma line_append [simp]: "line l @ rest = l @ LF # rest"
  by (simp add: line_def)

lemma LF_in_line [simp]: "LF \<in> set (line l)"
  by (simp add: line_def)

lemma next_line_append [simp]: "LF \<notin> set l \<Longrightarrow> next_line msg (l @ LF # rest) = rest"
  by (simp add: next_line_def)

section \<open>One source\<close>

definition info :: "file_info \<Rightarrow> piece_info" where
  "info fi = \<lparr>pi_port = client_port fi, pi_ip = client_ip fi, pi_path = file_path fi, pi_hash = hash fi\<rparr>"

text \<open>The source can be told from the piece number \<open>n\<close>.\<close>

definition clean :: "int \<Rightarrow> file_info \<Rightarrow> bool" where
  "clean n fi \<longleftrightarrow>
     INT_MIN \<le> client_port fi \<and> client_port fi \<le> INT_MAX \<and> client_port fi \<noteq> n \<and>
     (\<forall>l \<in> {client_ip fi, file_path fi, hash fi}. LF \<notin> set l \<and> NUL \<notin> set l \<and> l \<noteq> to_string n)"

lemma parse_line:
  assumes "LF \<notin> set l"
  shows "parse_loop (l @ LF # rest) i ln port ip path pm =
     (if l = to_string (i + 1) then parse_loop rest (i + 1) ln port ip path pm
      else if ln mod 4 = 0 then
        (case stoi l of Inl e \<Rightarrow> Inl e | Inr p \<Rightarrow> parse_loop rest i (ln + 1) p ip path pm)
      else if ln mod 4 = 1 then parse_loop rest i (ln + 1) port l path pm
      else if ln mod 4 = 2 then parse_loop rest i (ln + 1) port ip l pm
      else parse_loop rest i (ln + 1) port ip path
             (pm_insert i \<lparr>pi_port = port, pi_ip = ip, pi_path = path, pi_hash = l\<rparr> pm))"
  using assms by (subst parse_loop.simps) (simp add: Let_def)

lemma parse_end: "parse_loop [] i ln port ip path pm = Inr pm"
  by (subst parse_loop.simps) simp

lemma parse_source:
  assumes "clean (i + 1) fi" and "4 dvd ln"
  shows "parse_loop (concat (map line (source_lines fi)) @ rest) i ln port ip path pm =
           parse_loop rest i (Suc (Suc (Suc (Suc ln)))) (client_port fi) (client_ip fi) (file_path fi)
             (pm_insert i (info fi) pm)"
proof -
  have m: "Suc ln mod 4 = 1" "Suc (Suc ln) mod 4 = 2" "Suc (Suc (Suc ln)) mod 4 = 3"
    using assms(2) by presburger+
  have s: "stoi (to_string (client_port fi)) = Inr (client_port fi)"
    using assms(1) by (intro stoi_to_string) (simp_all add: clean_def)
  show ?thesis
    using assms m s by (simp add: source_lines_def parse_line clean_def info_def)
qed

section \<open>The sources of a piece\<close>

lemma set_insert_last: "\<forall>y \<in> set ys. lt y x \<and> \<not> lt x y \<Longrightarrow> set_insert lt x ys = ys @ [x]"
  by (induction ys) auto

lemma pm_insert_old:
  "n \<notin> fst ` set pm \<Longrightarrow> pm_insert n p (pm @ [(n, ps)]) = pm @ [(n, set_insert piece_info_less p ps)]"
  by (induction pm) auto

lemma pm_insert_new: "n \<notin> fst ` set pm \<Longrightarrow> pm_insert n p pm = pm @ [(n, [p])]"
  by (induction pm) auto

lemma info_less: "piece_info_less (info a) (info b) \<longleftrightarrow> file_info_less a b"
  by (simp add: piece_info_less_def file_info_less_def info_def)

lemma pm_insert_sources:
  assumes "n \<notin> fst ` set pm" and "sorted_wrt file_info_less (as @ fis)"
  shows "fold (\<lambda>fi. pm_insert n (info fi)) fis (pm @ [(n, map info as)]) = pm @ [(n, map info (as @ fis))]"
  using assms(2)
proof (induction fis arbitrary: as)
  case (Cons fi fis)
  have "\<forall>y \<in> set (map info as). piece_info_less y (info fi) \<and> \<not> piece_info_less (info fi) y"
    using Cons.prems file_info_set.asym by (auto simp: sorted_wrt_append info_less)
  then have "pm_insert n (info fi) (pm @ [(n, map info as)]) = pm @ [(n, map info (as @ [fi]))]"
    by (simp add: pm_insert_old [OF assms(1)] set_insert_last)
  then show ?case using Cons.IH [of "as @ [fi]"] Cons.prems by simp
qed simp

lemma parse_sources:
  assumes "\<forall>fi \<in> set fis. clean (i + 1) fi" and "4 dvd ln"
  shows "\<exists>port' ip' path' ln'. 4 dvd ln' \<and>
    parse_loop (concat (map line (concat (map source_lines fis))) @ rest) i ln port ip path pm =
      parse_loop rest i ln' port' ip' path' (fold (\<lambda>fi. pm_insert i (info fi)) fis pm)"
  using assms
proof (induction fis arbitrary: ln port ip path pm)
  case (Cons fi fis)
  have "4 dvd Suc (Suc (Suc (Suc ln)))" using Cons.prems(2) by presburger
  with Cons.IH [of "Suc (Suc (Suc (Suc ln)))" "client_port fi" "client_ip fi" "file_path fi" "pm_insert i (info fi) pm"]
    Cons.prems show ?case by (simp add: parse_source)
qed (simp, blast)

definition entry :: "filepiece \<Rightarrow> piece_map" where
  "entry p = (if sources p = [] then [] else [(piecenumber p, map info (sources p))])"

lemma fold_entry:
  assumes "piecenumber p \<notin> fst ` set pm" and "sorted_wrt file_info_less (sources p)"
  shows "fold (\<lambda>fi. pm_insert (piecenumber p) (info fi)) (sources p) pm = pm @ entry p"
proof (cases "sources p")
  case (Cons fi fis)
  then show ?thesis
    using pm_insert_sources [OF assms(1), of "[fi]" fis] assms
    by (simp add: entry_def pm_insert_new)
qed (simp add: entry_def)

section \<open>All pieces\<close>

text \<open>The pieces from number \<open>n\<close> on.\<close>

fun parseable :: "int \<Rightarrow> filepiece list \<Rightarrow> bool" where
  "parseable n [] \<longleftrightarrow> True"
| "parseable n (p # ps) \<longleftrightarrow>
     piecenumber p = n \<and> sorted_wrt file_info_less (sources p) \<and>
     (\<forall>fi \<in> set (sources p). clean (n + 1) fi) \<and> parseable (n + 1) ps"

lemma parse_pieces:
  assumes "parseable (i + 1) ps" and "\<forall>k \<in> fst ` set pm. k \<le> i" and "4 dvd ln"
  shows "parse_loop (concat (map line (concat (map piece_lines ps)))) i ln port ip path pm =
           Inr (pm @ concat (map entry ps))"
  using assms
proof (induction ps arbitrary: i ln port ip path pm)
  case Nil
  then show ?case by (simp add: parse_end)
next
  case (Cons p ps)
  define rest where "rest = concat (map line (concat (map piece_lines ps)))"
  have p: "piecenumber p = i + 1" "sorted_wrt file_info_less (sources p)"
    "\<forall>fi \<in> set (sources p). clean (i + 1 + 1) fi" "parseable (i + 1 + 1) ps"
    using Cons.prems(1) by simp_all
  have new: "piecenumber p \<notin> fst ` set pm" using Cons.prems(2) p(1) by force
  have keys: "\<forall>k \<in> fst ` set (pm @ entry p). k \<le> i + 1"
    using Cons.prems(2) p(1) by (auto simp: entry_def)
  obtain port' ip' path' ln' where "4 dvd ln'" and
    run: "parse_loop (concat (map line (concat (map source_lines (sources p)))) @ rest) (i + 1) ln port ip path pm =
      parse_loop rest (i + 1) ln' port' ip' path'
        (fold (\<lambda>fi. pm_insert (i + 1) (info fi)) (sources p) pm)"
    using parse_sources [OF p(3) Cons.prems(3), of rest port ip path pm]
    by (elim exE conjE) (rule that, assumption+)
  from run have "parse_loop (concat (map line (concat (map source_lines (sources p)))) @ rest) (i + 1) ln port ip path pm
      = parse_loop rest (i + 1) ln' port' ip' path' (pm @ entry p)"
    using fold_entry [OF new p(2)] by (simp add: p(1))
  also have "\<dots> = Inr ((pm @ entry p) @ concat (map entry ps))"
    unfolding rest_def by (rule Cons.IH [OF p(4) keys \<open>4 dvd ln'\<close>])
  finally show ?case
    by (simp add: piece_lines_def [of p] p(1) parse_line rest_def)
qed

lemma parse_reply:
  assumes "INT_MIN \<le> fst det" and "fst det \<le> INT_MAX" and "LF \<notin> set (snd det)"
    and "parseable 0 ps" and "ps \<noteq> []"
  shows "let msg = peerdetails det ps; r1 = next_line msg msg; r2 = next_line msg r1;
             r3 = next_line msg r2; r4 = next_line msg r3
         in before_char LF msg = ''download'' \<and> stoi (before_char LF r1) = Inr (fst det) \<and>
            before_char LF r2 = snd det \<and>
            parse_loop r4 0 0 0 [] [] [] = Inr (concat (map entry ps))"
proof -
  obtain p qs where ps: "ps = p # qs" using assms(5) by (cases ps) auto
  define tail where "tail = concat (map line (concat (map source_lines (sources p)))) @
    concat (map line (concat (map piece_lines qs)))"
  obtain dl :: string where dl: "dl = ''download''" by blast
  have msg: "peerdetails det ps =
      dl @ LF # to_string (fst det) @ LF # snd det @ LF # to_string 0 @ LF # tail"
    using assms(4) by (simp add: peerdetails_def ps piece_lines_def [of p] tail_def dl)
  have LF: "LF \<notin> set dl" by (simp add: LF_def dl)
  have p: "piecenumber p = 0" "sorted_wrt file_info_less (sources p)"
    "\<forall>fi \<in> set (sources p). clean (0 + 1) fi" "parseable (0 + 1) qs"
    using assms(4) by (simp_all add: ps)
  obtain port' ip' path' ln' where "4 dvd ln'" and
    run: "parse_loop tail 0 0 0 [] [] [] = parse_loop (concat (map line (concat (map piece_lines qs)))) 0 ln' port' ip' path'
        (fold (\<lambda>fi. pm_insert 0 (info fi)) (sources p) [])"
    using parse_sources [OF p(3) dvd_0_right, of "concat (map line (concat (map piece_lines qs)))" 0 "[]" "[]" "[]"]
    unfolding tail_def [symmetric]
    by (elim exE conjE) (rule that, assumption+)
  have "fold (\<lambda>fi. pm_insert 0 (info fi)) (sources p) [] = entry p"
    using fold_entry [of p "[]"] p(1,2) by simp
  moreover have "\<forall>k \<in> fst ` set (entry p). k \<le> 0" using p(1) by (simp add: entry_def)
  ultimately have "parse_loop tail 0 0 0 [] [] [] = Inr (concat (map entry ps))"
    using run parse_pieces [OF p(4) _ \<open>4 dvd ln'\<close>, of "entry p"] by (simp add: ps)
  then show ?thesis
    using LF assms(1-3) stoi_to_string [of "fst det"] by (simp only: msg dl [symmetric] Let_def) simp
qed

text \<open>C6: The peer reads from the reply to a download command the size, the hash and the
  sources of every piece that has any, each under its number and in the tracker's order, if the
  pieces are listed in order from 0 and no line of a source is the decimal form of the next piece's
  number.\<close>

theorem parse_download_reply:
  assumes "INT_MIN \<le> fst det" and "fst det \<le> INT_MAX" and "LF \<notin> set (snd det)"
    and "parseable 0 ps" and "ps \<noteq> []"
  shows "let msg = peerdetails det ps; r1 = next_line msg msg; r2 = next_line msg r1;
             r3 = next_line msg r2; r4 = next_line msg r3
         in before_char LF msg = ''download'' \<and> stoi (before_char LF r1) = Inr (fst det) \<and>
            before_char LF r2 = snd det \<and>
            parse_loop r4 0 0 0 [] [] [] = Inr (concat (map entry ps))"
  by (rule parse_reply [OF assms])

definition demo_pieces :: "filepiece list" where
  "demo_pieces =
     [\<lparr>file_name = ''f'', piecenumber = 0, sources =
        [\<lparr>peername = ''alice'', client_port = 7001, client_ip = ''10.0.0.1'', file_path = ''/d/f'', hash = ''h0''\<rparr>,
         \<lparr>peername = ''bob'', client_port = 7002, client_ip = ''10.0.0.2'', file_path = ''/e/f'', hash = ''h0''\<rparr>]\<rparr>,
      \<lparr>file_name = ''f'', piecenumber = 1, sources =
        [\<lparr>peername = ''alice'', client_port = 7001, client_ip = ''10.0.0.1'', file_path = ''/d/f'', hash = ''h1''\<rparr>]\<rparr>]"

theorem parse_download_reply_witness:
  "let msg = peerdetails (230, ''hf'') demo_pieces; r1 = next_line msg msg; r2 = next_line msg r1;
       r3 = next_line msg r2; r4 = next_line msg r3
   in before_char LF msg = ''download'' \<and> stoi (before_char LF r1) = Inr 230 \<and>
      before_char LF r2 = ''hf'' \<and>
      parse_loop r4 0 0 0 [] [] [] = Inr (concat (map entry demo_pieces))"
proof -
  have n: "to_string 1 = ''1''" "to_string 2 = ''2''"
    by (simp_all add: to_string_def nat_to_string.simps digit_char_def) code_simp+
  have "parseable 0 demo_pieces"
    by (simp add: demo_pieces_def clean_def n LF_def file_info_less_def)
  then show ?thesis
    using parse_download_reply [of "(230, ''hf'')" demo_pieces] by (simp add: LF_def demo_pieces_def)
qed

end
