(* ===== verification/Peer_Download.thy ===== *)
theory Peer_Download
  imports Peer_Parse
begin

text \<open>
  A download as a whole: from the tracker's reply to the file.  Whatever the order in which the
  pieces are fetched and whichever sources are chosen, the destination is the file, and its hash is
  the recorded one.
\<close>

section \<open>The pieces of a file\<close>

definition num_pieces :: "byte list \<Rightarrow> nat" where
  "num_pieces c = (length c + PIECE_SIZE - 1) div PIECE_SIZE"

lemma less_num_pieces: "n < num_pieces c \<longleftrightarrow> n * PIECE_SIZE < length c"
proof -
  have "n < num_pieces c \<longleftrightarrow> Suc n * PIECE_SIZE \<le> length c + PIECE_SIZE - 1"
    by (simp only: num_pieces_def less_eq_div_iff_mult_less_eq [OF sizes_pos(2)] Suc_le_eq [symmetric])
  also have "\<dots> \<longleftrightarrow> n * PIECE_SIZE < length c"
    using sizes_pos(2) by (simp only: mult_Suc) linarith
  finally show ?thesis .
qed

lemma index_in_piece:
  assumes "i < length c"
  shows "n * PIECE_SIZE \<le> i \<and> i < n * PIECE_SIZE + length (piece n c) \<longleftrightarrow> i div PIECE_SIZE = n"
proof -
  have "n * PIECE_SIZE \<le> i \<and> i < n * PIECE_SIZE + length (piece n c) \<longleftrightarrow>
      n * PIECE_SIZE \<le> i \<and> i < Suc n * PIECE_SIZE"
    using assms by (auto simp: length_piece)
  also have "\<dots> \<longleftrightarrow> i div PIECE_SIZE = n"
  proof
    assume "n * PIECE_SIZE \<le> i \<and> i < Suc n * PIECE_SIZE"
    then show "i div PIECE_SIZE = n" by (intro div_nat_eqI) (simp_all add: mult.commute)
  next
    assume "i div PIECE_SIZE = n"
    then show "n * PIECE_SIZE \<le> i \<and> i < Suc n * PIECE_SIZE"
      using dividend_less_div_times [of PIECE_SIZE i] by auto
  qed
  finally show ?thesis .
qed

lemma write_piece:
  assumes "length f = length c"
  shows "length (write_at (n * PIECE_SIZE) (piece n c) f) = length c"
    and "i < length c \<Longrightarrow> write_at (n * PIECE_SIZE) (piece n c) f ! i =
           (if i div PIECE_SIZE = n then c ! i else f ! i)"
proof -
  have fits: "piece n c \<noteq> [] \<Longrightarrow> n * PIECE_SIZE + length (piece n c) \<le> length f"
    using assms by (auto simp: piece_def)
  then show "length (write_at (n * PIECE_SIZE) (piece n c) f) = length c"
    using assms by (cases "piece n c = []") (simp_all add: length_write_at)
  assume i: "i < length c"
  have nth: "piece n c ! (i - n * PIECE_SIZE) = c ! i"
    if "n * PIECE_SIZE \<le> i" "i < n * PIECE_SIZE + length (piece n c)"
    using that i by (simp add: piece_def)
  show "write_at (n * PIECE_SIZE) (piece n c) f ! i = (if i div PIECE_SIZE = n then c ! i else f ! i)"
  proof (cases "piece n c = []")
    case True
    then have "i div PIECE_SIZE \<noteq> n" using index_in_piece [OF i, of n] by (metis add.right_neutral linorder_not_less list.size(3))
    then show ?thesis using True by simp
  next
    case False
    then show ?thesis
      using nth_write_at [OF fits, of i] i assms index_in_piece [OF i, of n] nth by auto
  qed
qed

text \<open>Writing pieces in any order.\<close>

lemma fold_pieces:
  assumes "length f = length c"
  shows "length (fold (\<lambda>n. write_at (n * PIECE_SIZE) (piece n c)) ns f) = length c \<and>
    (\<forall>i < length c. fold (\<lambda>n. write_at (n * PIECE_SIZE) (piece n c)) ns f ! i =
       (if i div PIECE_SIZE \<in> set ns then c ! i else f ! i))"
  using assms
proof (induction ns arbitrary: f)
  case (Cons n ns)
  then show ?case using write_piece [OF Cons.prems, where n = n] by auto
qed simp

lemma fold_all_pieces:
  assumes "length f = length c" and "{..<num_pieces c} \<subseteq> set ns"
  shows "fold (\<lambda>n. write_at (n * PIECE_SIZE) (piece n c)) ns f = c"
proof (rule nth_equalityI)
  show "length (fold (\<lambda>n. write_at (n * PIECE_SIZE) (piece n c)) ns f) = length c"
    using fold_pieces [OF assms(1)] by blast
  fix i assume "i < length (fold (\<lambda>n. write_at (n * PIECE_SIZE) (piece n c)) ns f)"
  then have i: "i < length c" using fold_pieces [OF assms(1)] by simp
  have "i div PIECE_SIZE * PIECE_SIZE < length c"
    using i by (meson div_times_less_eq_dividend le_less_trans)
  then have "i div PIECE_SIZE \<in> set ns" using assms(2) less_num_pieces by auto
  then show "fold (\<lambda>n. write_at (n * PIECE_SIZE) (piece n c)) ns f ! i = c ! i"
    using fold_pieces [OF assms(1)] i by simp
qed

section \<open>Announcements\<close>

text \<open>What \<open>piece_creation\<close> sends for a file with contents \<open>c\<close>.\<close>

definition announcement :: "(byte list \<Rightarrow> byte list) \<Rightarrow> string \<Rightarrow> byte list \<Rightarrow> nat \<Rightarrow> string" where
  "announcement sha s c i = s @ '' '' @ to_string (int i) @ '' '' @ hex_bytes (sha (piece i c))"

lemma piece_loop_announces:
  assumes "evp_computes E sha" and "open_file fs path = Some c" and "int (length c) \<le> INT_MAX"
    and "i \<le> num_pieces c"
  shows "piece_loop E fs path s (int i) (drop (i * PIECE_SIZE) c) =
           (map (announcement sha s c) [i..<num_pieces c], None)"
  using assms(4)
proof (induction "num_pieces c - i" arbitrary: i)
  case 0
  then have "length c \<le> i * PIECE_SIZE" using less_num_pieces [of i c] by linarith
  then show ?case using 0 by (simp add: piece_loop.simps [of _ _ _ _ _ "[]"])
next
  case (Suc m)
  then have less: "i < num_pieces c" by simp
  then have l: "i * PIECE_SIZE < length c" by (simp only: less_num_pieces)
  then have ne: "take PIECE_SIZE (drop (i * PIECE_SIZE) c) \<noteq> []" by simp
  have "int (i * PIECE_SIZE) \<le> INT_MAX" using l assms(3) by linarith
  then have h: "shapiece E fs path (int i) = Inr (hex_bytes (sha (piece i c)))"
    by (rule shapiece_sha [where fs = fs and path = path, OF assms(1,2)])
  have "drop PIECE_SIZE (drop (i * PIECE_SIZE) c) = drop (Suc i * PIECE_SIZE) c" by simp
  moreover have "piece_loop E fs path s (int (Suc i)) (drop (Suc i * PIECE_SIZE) c) =
      (map (announcement sha s c) [Suc i..<num_pieces c], None)"
    by (rule Suc.hyps(1)) (use Suc.hyps(2) less in simp_all)
  ultimately show ?case
    using ne h less
    by (subst piece_loop.simps) (simp add: announcement_def upt_conv_Cons add.commute del: drop_drop mult_Suc)
qed

lemma piece_creation_announces:
  assumes "evp_computes E sha" and "open_file fs path = Some c" and "int (length c) \<le> INT_MAX"
  shows "piece_creation E fs path s = (map (announcement sha s c) [0..<num_pieces c], None)"
  using piece_loop_announces [where fs = fs and path = path, OF assms, of 0 s] assms(2) by (simp add: piece_creation_def)

section \<open>Hashes\<close>

lemma hex_digit_inj:
  assumes "m < 16" and "n < 16"
  shows "hex_digit m = hex_digit n \<longleftrightarrow> m = n"
proof
  have v: "of_char (hex_digit d) = (if d < 10 then 48 + d else 87 + d)" if "d < 16" for d :: nat
    using that by (simp add: hex_digit_def)
  assume "hex_digit m = hex_digit n"
  then have "(if m < 10 then 48 + m else 87 + m) = (if n < 10 then 48 + n else 87 + n)"
    using v [OF assms(1)] v [OF assms(2)] by metis
  then show "m = n" using assms by (simp split: if_splits)
qed simp

lemma of_char_less: "(of_char x :: nat) < 256"
  by (metis mod_less_divisor of_char_mod_256 zero_less_numeral)

lemma hex_byte_inj:
  "[hex_digit (of_char a div 16), hex_digit (of_char a mod 16)] = [hex_digit (of_char b div 16), hex_digit (of_char b mod 16)]
     \<longleftrightarrow> a = b" (is "?l \<longleftrightarrow> _")
proof
  assume ?l
  moreover have "of_char x div 16 < (16::nat)" for x :: char
    by (rule less_mult_imp_div_less) (use of_char_less [of x] in simp)
  ultimately have "of_char a div 16 = (of_char b div 16 :: nat)" "of_char a mod 16 = (of_char b mod 16 :: nat)"
    by (simp_all add: hex_digit_inj)
  then have "of_char a = (of_char b :: nat)" by (metis div_mult_mod_eq)
  then show "a = b" by simp
qed simp

lemma hex_bytes_inj: "hex_bytes xs = hex_bytes ys \<longleftrightarrow> xs = ys"
proof
  assume "hex_bytes xs = hex_bytes ys"
  then show "xs = ys"
  proof (induction xs arbitrary: ys)
    case Nil
    then show ?case by (cases ys) (simp_all add: hex_bytes_def)
  next
    case (Cons a xs)
    then obtain b ys' where "ys = b # ys'" by (cases ys) (auto simp: hex_bytes_def)
    with Cons show ?case using hex_byte_inj [of a b] by (simp add: hex_bytes_def)
  qed
qed simp

text \<open>C7: Reading a file in portions computes the digest of its contents, and the pieces are hashed one by
  one at their offsets: the hash of the file and of every piece is the digest, in hexadecimal, of exactly
  those bytes; what is announced to the tracker are the pieces 0, 1, ... in order, each once; together they are the
  file, and all but the last have the full size.  Two files have the same hash exactly when their digests
  are the same.\<close>

theorem hashing_by_pieces:
  assumes "evp_computes E sha" and "open_file fs path = Some c" and "int (length c) \<le> INT_MAX"
    and "open_file fs path' = Some c'"
  shows "computeHash E fs path = hex_bytes (sha c) \<and>
         (computeHash E fs path = computeHash E fs path' \<longleftrightarrow> sha c = sha c') \<and>
         (\<forall>n < num_pieces c. shapiece E fs path (int n) = Inr (hex_bytes (sha (piece n c)))) \<and>
         piece_creation E fs path s =
           (map (\<lambda>n. s @ '' '' @ to_string (int n) @ '' '' @ hex_bytes (sha (piece n c))) [0..<num_pieces c], None) \<and>
         concat (map (\<lambda>n. piece n c) [0..<num_pieces c]) = c \<and>
         (\<forall>n < num_pieces c. piece n c \<noteq> [] \<and> (Suc n < num_pieces c \<longrightarrow> length (piece n c) = PIECE_SIZE))"
proof -
  have le: "length c \<le> num_pieces c * PIECE_SIZE" using less_num_pieces [of "num_pieces c" c] by simp
  have sp: "shapiece E fs path (int n) = Inr (hex_bytes (sha (piece n c)))" if "n < num_pieces c" for n
  proof (rule shapiece_sha [where fs = fs and path = path, OF assms(1,2)])
    show "int (n * PIECE_SIZE) \<le> INT_MAX" using that assms(3) unfolding less_num_pieces by linarith
  qed
  have full: "length (piece n c) = PIECE_SIZE" if "Suc n < num_pieces c" for n
    using that by (simp add: less_num_pieces length_piece)
  have "piece n c \<noteq> []" if "n < num_pieces c" for n using that by (simp add: less_num_pieces piece_def)
  moreover have "concat (map (\<lambda>n. piece n c) [0..<num_pieces c]) = c"
    unfolding piece_def concat_blocks using le by simp
  ultimately show ?thesis
    using sp full computeHash_sha [where fs = fs and path = path, OF assms(1,2)]
      computeHash_sha [where fs = fs and path = path', OF assms(1,4)]
      piece_creation_announces [where fs = fs and path = path and s = s, OF assms(1-3)]
    by (simp add: hex_bytes_inj announcement_def [abs_def])
qed

theorem hashing_by_pieces_witness:
  "computeHash demo_evp [''/d/f'' \<mapsto> replicate 450 CHR ''x''] ''/d/f'' = hex_bytes (demo_sha (replicate 450 CHR ''x'')) \<and>
   length (fst (piece_creation demo_evp [''/d/f'' \<mapsto> replicate 450 CHR ''x''] ''/d/f'' ''f'')) = 3"
proof -
  have o: "open_file [''/d/f'' \<mapsto> replicate 450 CHR ''x''] ''/d/f'' = Some (replicate 450 CHR ''x'')"
    by (simp add: c_str_NUL_free)
  have "num_pieces (replicate 450 CHR ''x'') = 3" by (simp add: num_pieces_def PIECE_SIZE_def)
  then show ?thesis
    using hashing_by_pieces [where fs = "[''/d/f'' \<mapsto> replicate 450 CHR ''x'']" and path = "''/d/f''" and path' = "''/d/f''"
        and s = "''f''", OF demo_evp_computes o _ o] by simp
qed

end
