(* ===== verification/Machine.thy ===== *)
theory Machine
  imports Main
begin

text \<open>
  The states a machine reaches from its initial states.  The locale \<open>invariant_machine\<close>
  is the contract every stateful component here meets: an invariant that holds at the
  start and that each step keeps, hence holds in every reachable state.
\<close>

inductive reach :: "('s \<Rightarrow> bool) \<Rightarrow> ('s \<Rightarrow> 's \<Rightarrow> bool) \<Rightarrow> 's \<Rightarrow> bool"
  for init :: "'s \<Rightarrow> bool" and step :: "'s \<Rightarrow> 's \<Rightarrow> bool" where
  reach_init: "init s \<Longrightarrow> reach init step s"
| reach_step: "reach init step s \<Longrightarrow> step s t \<Longrightarrow> reach init step t"

locale invariant_machine =
  fixes init :: "'s \<Rightarrow> bool" and step :: "'s \<Rightarrow> 's \<Rightarrow> bool" and inv :: "'s \<Rightarrow> bool"
  assumes init_inv: "init s \<Longrightarrow> inv s"
    and step_inv: "inv s \<Longrightarrow> step s t \<Longrightarrow> inv t"
begin

lemma reach_inv: "reach init step s \<Longrightarrow> inv s"
  by (induction rule: reach.induct) (auto intro: init_inv step_inv)

end

text \<open>
  A refinement: every step of the concrete machine is a step of an abstract one, or leaves
  the abstract state as it is.  Every reachable concrete state is then the image of a
  reachable abstract state, so an invariant of the abstract machine holds of it.
\<close>

locale refinement = invariant_machine init step inv
  for init :: "'s \<Rightarrow> bool" and step :: "'s \<Rightarrow> 's \<Rightarrow> bool" and inv :: "'s \<Rightarrow> bool" +
  fixes ainit :: "'a \<Rightarrow> bool" and astep :: "'a \<Rightarrow> 'a \<Rightarrow> bool" and abstr :: "'s \<Rightarrow> 'a"
  assumes init_abs: "init s \<Longrightarrow> ainit (abstr s)"
    and step_abs: "inv s \<Longrightarrow> step s t \<Longrightarrow> astep (abstr s) (abstr t) \<or> abstr t = abstr s"
begin

lemma reach_abs: "reach init step s \<Longrightarrow> reach ainit astep (abstr s)"
proof (induction rule: reach.induct)
  case (reach_init s)
  then show ?case by (intro reach.reach_init init_abs)
next
  case (reach_step s t)
  from step_abs [OF reach_inv [OF reach_step.hyps(1)] reach_step.hyps(2)] show ?case
    using reach_step.IH by (metis reach.reach_step)
qed

end

end
