(* ===== verification/Tracker_Server.thy ===== *)
theory Tracker_Server
  imports Tracker_Ops Machine
begin

text \<open>
  The tracker as a server: the command dispatcher of \<open>handleClient\<close>
  (\<open>src/helper_tracker.cpp\<close>), which turns an operation's result code into the reply
  the client reads, and the life of connections (\<open>handleClient\<close> around the dispatcher,
  \<open>main\<close> and \<open>peer_input\<close> of \<open>src/tracker.cpp\<close>) as a step relation.  Every
  client has its own thread; a step handles one whole command, so the model's runs are the
  executions in which commands do not overlap.
\<close>

section \<open>The replies\<close>

definition create_peer_reply :: "int \<Rightarrow> string list" where
  "create_peer_reply a =
     (if a = 1 then [line ''account created'']
      else if a = -1 then [line ''Incorrect amount of arguments'']
      else [line ''peer already exists''])"

definition login_reply :: "string list \<Rightarrow> int \<Rightarrow> string list" where
  "login_reply input l =
     (if l = 1 then [line ''Logged in'']
      else if l = 0 then [line ''Incorrect peer_id or password'']
      else if l = 3 then [line ''you are logged in as another peer, please logout first'']
      else if l = 4 then [line (''someone else is logged in as '' @ input ! 1)]
      else [line ''Incorrect amount of arguments''])"

definition create_group_reply :: "int \<Rightarrow> string list" where
  "create_group_reply a =
     (if a = 1 then [line ''Group created'']
      else if a = 0 then [line ''Group already exists'']
      else [line ''Incorrect amount of arguments''])"

definition join_group_reply :: "string list \<Rightarrow> int \<Rightarrow> string list" where
  "join_group_reply input a =
     (if a = -2 then [line ''No such group exists'']
      else if a = 0 then [line ''you are already member of this group'']
      else if a = -1 then [line ''Incorrect amount of arguments'']
      else [line (''Request sent to join group '' @ input ! 1)])"

definition leave_group_reply :: "string list \<Rightarrow> int \<Rightarrow> string list" where
  "leave_group_reply input a =
     (if a = -1 then [line ''Incorrect amount of arguments'']
      else if a = -2 then [line ''No such group exists'']
      else if a = -3 then [line ''You are not a part of this group'']
      else [line (''You have exited the group '' @ input ! 1)])"

definition list_requests_reply :: "int \<Rightarrow> string list" where
  "list_requests_reply a =
     (if a = -1 then [line ''Incorrect amount of arguments'']
      else if a = 0 then [line ''Sorry you are not the owner of this group'']
      else if a = -2 then [line ''No such group exists'']
      else [])"

definition accept_request_reply :: "string list \<Rightarrow> int \<Rightarrow> string list" where
  "accept_request_reply input a =
     (if a = 1 then [line (''added '' @ input ! 2 @ '' to group '' @ input ! 1)]
      else if a = -1 then [line ''Incorrect amount of arguments'']
      else if a = -2 then [line ''no such group'']
      else if a = -3 then [line ''no such request to join group'']
      else [line ''Sorry you are not the owner of this group''])"

definition list_groups_reply :: "int \<Rightarrow> string list" where
  "list_groups_reply a = (if a = -1 then [line ''Incorrect amount of arguments''] else [])"

definition upload_file_reply :: "int \<Rightarrow> string list" where
  "upload_file_reply a =
     (if a = -1 then [line ''Incorrect amount of arguments'']
      else if a = -2 then [line ''group does not exist'']
      else if a = -3 then [line ''file is not present in the group'']
      else if a = -4 then [line ''you are not member of the group'']
      else if a = 0 then [line ''message sent for uploading'']
      else [])"

definition download_file_reply :: "int \<Rightarrow> string \<Rightarrow> string list" where
  "download_file_reply a details =
     (if a = -1 then [line ''Incorrect amount of arguments'']
      else if a = -2 then [line ''No such group exists'']
      else if a = -3 then [line ''No such file in group'']
      else if a = 0 then [details]
      else [])"

definition list_files_reply :: "int \<Rightarrow> string list" where
  "list_files_reply a =
     (if a = -1 then [line ''Incorrect amount of arguments'']
      else if a = -2 then [line ''No such group exists'']
      else if a = -3 then [line ''No file in group'']
      else [])"

definition logout_reply :: "int \<Rightarrow> string list" where
  "logout_reply a =
     (if a = -1 then [line ''Incorrect amount of arguments''] else [line ''logged out''])"

definition stop_share_reply :: "int \<Rightarrow> string list" where
  "stop_share_reply a =
     (if a = -1 then [line ''Incorrect amount of arguments'']
      else if a = -2 then [line ''No such group exists'']
      else if a = -3 then [line ''No such file in group'']
      else if a = 0 then [line ''stopped sharing file'']
      else [])"

definition show_downloads_reply :: "int \<Rightarrow> string list" where
  "show_downloads_reply a =
     (if a = -1 then [line ''Incorrect amount of arguments'']
      else if a = -2 then [line ''your download history is empty'']
      else [])"

lemmas reply_defs =
  create_peer_reply_def login_reply_def create_group_reply_def join_group_reply_def
  leave_group_reply_def list_requests_reply_def accept_request_reply_def list_groups_reply_def
  upload_file_reply_def download_file_reply_def list_files_reply_def logout_reply_def
  stop_share_reply_def show_downloads_reply_def

section \<open>The dispatcher\<close>

text \<open>The branches that need a login; the strings returned are what is sent to the client,
  in order.\<close>

definition member_command ::
    "string list \<Rightarrow> tracker \<Rightarrow> int \<Rightarrow> string list \<Rightarrow> fault + (tracker \<times> string list)" where
  "member_command order t sock input =
     (if input ! 0 = ''create_group'' then
        (case create_group input sock t of (t', a) \<Rightarrow> Inr (t', create_group_reply a))
      else if input ! 0 = ''join_group'' then
        (case join_group input sock t of (t', a) \<Rightarrow> Inr (t', join_group_reply input a))
      else if input ! 0 = ''leave_group'' then
        (case leave_group input sock t of (t', a) \<Rightarrow> Inr (t', leave_group_reply input a))
      else if input ! 0 = ''list_requests'' then
        (case list_requests input sock t of (t', a, out) \<Rightarrow> Inr (t', out @ list_requests_reply a))
      else if input ! 0 = ''accept_request'' then
        (case accept_request input sock t of (t', a) \<Rightarrow> Inr (t', accept_request_reply input a))
      else if input ! 0 = ''list_groups'' then
        (case list_groups order input t of (t', a, out) \<Rightarrow> Inr (t', out @ list_groups_reply a))
      else if input ! 0 = ''upload_file'' then
        (case upload_file input sock t of
           Inl e \<Rightarrow> Inl e
         | Inr (t', a) \<Rightarrow> Inr (t', upload_file_reply a))
      else if input ! 0 = ''download_file'' then
        (case download_file input sock t of
           (t', a, details) \<Rightarrow> Inr (t', download_file_reply a details))
      else if input ! 0 = ''list_files'' then
        (case list_files input t of (t', a, out) \<Rightarrow> Inr (t', out @ list_files_reply a))
      else if input ! 0 = ''logout'' then
        (case logout input sock t of (t', a) \<Rightarrow> Inr (t', logout_reply a))
      else if input ! 0 = ''stop_share'' then
        (case stop_share input sock t of (t', a) \<Rightarrow> Inr (t', stop_share_reply a))
      else if input ! 0 = ''show_downloads'' then
        (case show_downloads input sock t of (t', a, out) \<Rightarrow> Inr (t', out @ show_downloads_reply a))
      else if input ! 0 = ''file_details'' then
        (case file_details input t of Inl e \<Rightarrow> Inl e | Inr t' \<Rightarrow> Inr (t', []))
      else if input ! 0 = ''download_completed'' then
        (case download_completed input sock t of Inl e \<Rightarrow> Inl e | Inr t' \<Rightarrow> Inr (t', []))
      else Inr (t, [line ''Unknown Command'']))"

definition handle_command ::
    "string list \<Rightarrow> tracker \<Rightarrow> int \<Rightarrow> string list \<Rightarrow> fault + (tracker \<times> string list)" where
  "handle_command order t sock input =
     (if input = [] then Inl BadIndex
      else if input ! 0 = ''create_peer'' then
        (case create_peer input t of (t', a) \<Rightarrow> Inr (t', create_peer_reply a))
      else if input ! 0 = ''login'' then
        (case login input sock t of (t', l) \<Rightarrow> Inr (t', login_reply input l))
      else if logmap t sock \<noteq> None then member_command order t sock input
      else Inr (t, [line ''Please login first'']))"

section \<open>Connections\<close>

text \<open>
  The first message of a client is the address it listens on, \<open>ip:port\<close>.  The buffer it
  is received into is not cleared and not terminated: \<open>junk\<close> is what the buffer holds
  after the received bytes.
\<close>

definition hello :: "byte list \<Rightarrow> byte list \<Rightarrow> int \<Rightarrow> tracker \<Rightarrow> fault + tracker" where
  "hello bytes junk sock t =
     (let ip = c_str (bytes @ junk)
      in case stoi (after_char (CHR '':'') ip) of
           Inl e \<Rightarrow> Inl e
         | Inr port \<Rightarrow>
             Inr (t\<lparr>listenmap := (listenmap t)(sock \<mapsto> (port, before_char (CHR '':'') ip))\<rparr>))"

datatype conn = AwaitHello | Serving

record server =
  tstate :: tracker
  conns :: "int \<rightharpoonup> conn"
  running :: bool
  input_done :: bool
  outbox :: "(int \<times> string) list"      \<comment> \<open>strings sent, with the socket, oldest first\<close>
  down :: "fault option"               \<comment> \<open>the fault that ended the process\<close>

definition server_init :: server where
  "server_init =
     \<lparr>tstate = tracker_init, conns = Map.empty, running = True, input_done = False,
      outbox = [], down = None\<rparr>"

text \<open>\<open>peer_input\<close> reads one line from the terminal.\<close>

definition peer_input :: "string \<Rightarrow> server \<Rightarrow> server" where
  "peer_input s sv =
     sv\<lparr>running := (if s = ''quit'' then False else running sv), input_done := True\<rparr>"

definition serve ::
    "string list \<Rightarrow> byte list \<Rightarrow> int \<Rightarrow> server \<Rightarrow> server" where
  "serve order bytes sock sv =
     (case handle_command order (tstate sv) sock (tokens bytes) of
        Inl e \<Rightarrow> sv\<lparr>down := Some e\<rparr>
      | Inr (t', out) \<Rightarrow> sv\<lparr>tstate := t', outbox := outbox sv @ map (Pair sock) out\<rparr>)"

definition greet :: "byte list \<Rightarrow> byte list \<Rightarrow> int \<Rightarrow> server \<Rightarrow> server" where
  "greet bytes junk sock sv =
     (case hello bytes junk sock (tstate sv) of
        Inl e \<Rightarrow> sv\<lparr>down := Some e\<rparr>
      | Inr t' \<Rightarrow> sv\<lparr>tstate := t', conns := (conns sv)(sock \<mapsto> Serving)\<rparr>)"

text \<open>
  \<open>accept\<close> returns a descriptor that is not in use, and is called only while
  \<open>running\<close> is set; the client threads that exist then still serve until \<open>main\<close>
  returns.  \<open>disconnect\<close> is \<open>recv\<close> returning 0 or an error, after which the
  thread closes the socket and ends; the result of the first \<open>recv\<close> is not checked, so
  a client that leaves before its greeting is a \<open>greeting\<close> with no bytes.  One call of
  \<open>recv\<close> takes at most \<open>RECEIVE_SIZE\<close> bytes, the buffer but for one.
\<close>

definition RECEIVE_SIZE :: nat where "RECEIVE_SIZE = 1023"

declare RECEIVE_SIZE_def [simp]

inductive server_step :: "server \<Rightarrow> server \<Rightarrow> bool" where
  accept: "down sv = None \<Longrightarrow> running sv \<Longrightarrow> conns sv sock = None \<Longrightarrow>
     server_step sv (sv\<lparr>conns := (conns sv)(sock \<mapsto> AwaitHello)\<rparr>)"
| greeting: "down sv = None \<Longrightarrow> conns sv sock = Some AwaitHello \<Longrightarrow>
     server_step sv (greet bytes junk sock sv)"
| command: "down sv = None \<Longrightarrow> conns sv sock = Some Serving \<Longrightarrow>
     bytes \<noteq> [] \<Longrightarrow> length bytes \<le> RECEIVE_SIZE \<Longrightarrow>
     distinct order \<Longrightarrow> set order = dom (group_owner (tstate sv)) \<Longrightarrow>
     server_step sv (serve order bytes sock sv)"
| disconnect: "down sv = None \<Longrightarrow> conns sv sock = Some Serving \<Longrightarrow>
     server_step sv (sv\<lparr>conns := (conns sv)(sock := None)\<rparr>)"
| terminal: "down sv = None \<Longrightarrow> \<not> input_done sv \<Longrightarrow>
     server_step sv (peer_input s sv)"

inductive_cases server_stepE: "server_step sv sv'"

abbreviation tracker_reach :: "server \<Rightarrow> bool" where
  "tracker_reach \<equiv> reach (\<lambda>s. s = server_init) server_step"

end
