(* ===== verification/Tracker_Inv.thy ===== *)
theory Tracker_Inv
  imports Tracker_Server
begin

text \<open>
  The tracker's invariants, in three parts: who is logged in where (\<open>session_inv\<close>), who
  owns and belongs to which group (\<open>group_inv\<close>), and how the file containers are formed
  (\<open>file_inv\<close>).  Each operation's lemma says which parts it leaves alone and that it keeps
  the part it changes; the dispatcher and the server steps compose them.
\<close>

section \<open>The invariants\<close>

definition session_inv :: "tracker \<Rightarrow> bool" where
  "session_inv t \<longleftrightarrow>
     (\<forall>s u. logmap t s = Some u \<longrightarrow> user t u \<noteq> None \<and> loggedIn t u = Some True) \<and>
     (\<forall>s s' u. logmap t s = Some u \<longrightarrow> logmap t s' = Some u \<longrightarrow> s = s') \<and>
     (\<forall>u. loggedIn t u = Some True \<longrightarrow> (\<exists>s. logmap t s = Some u))"

definition group_inv :: "tracker \<Rightarrow> bool" where
  "group_inv t \<longleftrightarrow>
     dom (group_members t) = dom (group_owner t) \<and>
     (\<forall>g p. group_owner t g = Some p \<longrightarrow> p \<in> set (members_of t g)) \<and>
     (\<forall>g. sorted_wrt (<) (members_of t g) \<and> sorted_wrt (<) (pending_of t g)) \<and>
     (\<forall>g p. p \<in> set (members_of t g) \<or> p \<in> set (pending_of t g) \<longrightarrow> user t p \<noteq> None)"

definition piece_ok :: "tracker \<Rightarrow> string \<Rightarrow> filepiece \<Rightarrow> bool" where
  "piece_ok t f p \<longleftrightarrow>
     file_name p = f \<and> sorted_wrt file_info_less (sources p) \<and>
     (\<forall>fi \<in> set (sources p). base_name (file_path fi) = f \<and> user t (peername fi) \<noteq> None)"

definition file_inv :: "tracker \<Rightarrow> bool" where
  "file_inv t \<longleftrightarrow>
     (\<forall>f. distinct (map piecenumber (pieces_of t f)) \<and>
          (\<forall>p \<in> set (pieces_of t f). piece_ok t f p)) \<and>
     (\<forall>g. sorted_wrt (<) (files_of t g)) \<and>
     (\<forall>p. sorted_wrt (<) (downloads_of t p)) \<and>
     (\<forall>f. sorted_wrt file_info_less (mget [] (file_list t) f)) \<and>
     (\<forall>g f. f \<in> set (files_of t g) \<longrightarrow> mget [] (file_list t) f \<noteq> [])"

definition tracker_inv :: "tracker \<Rightarrow> bool" where
  "tracker_inv t \<longleftrightarrow> session_inv t \<and> group_inv t \<and> file_inv t"

lemma tracker_init_inv: "tracker_inv tracker_init"
  by (simp add: tracker_inv_def session_inv_def group_inv_def file_inv_def tracker_init_def)

section \<open>Frames\<close>

definition same_sessions :: "tracker \<Rightarrow> tracker \<Rightarrow> bool" where
  "same_sessions t t' \<longleftrightarrow> user t' = user t \<and> loggedIn t' = loggedIn t \<and> logmap t' = logmap t"

definition same_groups :: "tracker \<Rightarrow> tracker \<Rightarrow> bool" where
  "same_groups t t' \<longleftrightarrow> group_owner t' = group_owner t \<and> group_members t' = group_members t \<and>
     pending t' = pending t"

definition same_files :: "tracker \<Rightarrow> tracker \<Rightarrow> bool" where
  "same_files t t' \<longleftrightarrow> file_list t' = file_list t \<and> group_file t' = group_file t \<and>
     downloads t' = downloads t \<and> file_pieces t' = file_pieces t \<and> filedetails t' = filedetails t"

lemmas frame_defs = same_sessions_def same_groups_def same_files_def

lemma session_frame: "same_sessions t t' \<Longrightarrow> session_inv t \<Longrightarrow> session_inv t'"
  by (simp add: same_sessions_def session_inv_def)

lemma group_frame: "user t \<subseteq>\<^sub>m user t' \<Longrightarrow> same_groups t t' \<Longrightarrow> group_inv t \<Longrightarrow> group_inv t'"
  unfolding same_groups_def group_inv_def by (metis domIff map_le_def)

lemma piece_frame: "user t \<subseteq>\<^sub>m user t' \<Longrightarrow> piece_ok t f p \<Longrightarrow> piece_ok t' f p"
  unfolding piece_ok_def by (metis domIff map_le_def)

lemma file_frame: "user t \<subseteq>\<^sub>m user t' \<Longrightarrow> same_files t t' \<Longrightarrow> file_inv t \<Longrightarrow> file_inv t'"
  unfolding same_files_def file_inv_def by (metis piece_frame)

lemma same_sessions_user: "same_sessions t t' \<Longrightarrow> user t \<subseteq>\<^sub>m user t'"
  by (simp add: same_sessions_def)

lemma tracker_inv_groups:
  "tracker_inv t \<Longrightarrow> same_sessions t t' \<Longrightarrow> same_files t t' \<Longrightarrow> group_inv t' \<Longrightarrow> tracker_inv t'"
  unfolding tracker_inv_def using session_frame file_frame same_sessions_user by blast

lemma tracker_inv_files:
  "tracker_inv t \<Longrightarrow> same_sessions t t' \<Longrightarrow> same_groups t t' \<Longrightarrow> file_inv t' \<Longrightarrow> tracker_inv t'"
  unfolding tracker_inv_def using session_frame group_frame same_sessions_user by blast

lemma tracker_inv_sessions:
  "tracker_inv t \<Longrightarrow> user t \<subseteq>\<^sub>m user t' \<Longrightarrow> same_groups t t' \<Longrightarrow> same_files t t' \<Longrightarrow>
   session_inv t' \<Longrightarrow> tracker_inv t'"
  unfolding tracker_inv_def using group_frame file_frame by blast

text \<open>\<open>operator[]\<close> on a key of an existing group or a session of a logged-in client
  changes nothing; on another container it changes no value read.\<close>

lemma group_inv_mtouch:
  assumes "group_inv t" and "group_owner t g \<noteq> None"
  shows "mtouch [] (group_members t) g = group_members t"
proof -
  have "g \<in> dom (group_members t)"
    using assms by (auto simp: group_inv_def)
  then show ?thesis by auto
qed

section \<open>Sessions\<close>

lemma session_invI:
  assumes "\<And>s u. logmap t s = Some u \<Longrightarrow> user t u \<noteq> None \<and> loggedIn t u = Some True"
    and "\<And>s s' u. logmap t s = Some u \<Longrightarrow> logmap t s' = Some u \<Longrightarrow> s = s'"
    and "\<And>u. loggedIn t u = Some True \<Longrightarrow> \<exists>s. logmap t s = Some u"
  shows "session_inv t"
  using assms unfolding session_inv_def by blast

lemma session_inv_user: "session_inv t \<Longrightarrow> logmap t s = Some u \<Longrightarrow> user t u \<noteq> None"
  and session_inv_logged: "session_inv t \<Longrightarrow> logmap t s = Some u \<Longrightarrow> loggedIn t u = Some True"
  and session_inv_inj: "session_inv t \<Longrightarrow> logmap t s = Some u \<Longrightarrow> logmap t s' = Some u \<Longrightarrow> s = s'"
  and session_inv_ex: "session_inv t \<Longrightarrow> loggedIn t u = Some True \<Longrightarrow> \<exists>s. logmap t s = Some u"
  by (simp_all add: session_inv_def)

lemmas session_invD = session_inv_user session_inv_logged session_inv_inj session_inv_ex

lemma create_peer_inv:
  assumes "tracker_inv t" and "create_peer input t = (t', a)"
  shows "tracker_inv t'"
proof (rule tracker_inv_sessions [OF assms(1)])
  show "user t \<subseteq>\<^sub>m user t'"
    using assms(2) by (auto simp: create_peer_def map_le_def split: if_splits)
  show "same_groups t t'" "same_files t t'"
    using assms(2) by (auto simp: create_peer_def frame_defs split: if_splits)
  have s: "session_inv t" using assms(1) by (simp add: tracker_inv_def)
  have eq: "logmap t' = logmap t" "user t \<subseteq>\<^sub>m user t'"
    "loggedIn t u = Some b \<Longrightarrow> loggedIn t' u = Some b"
    "loggedIn t' u = Some True \<Longrightarrow> loggedIn t u = Some True" for u b
    using assms(2)
    by (auto simp: create_peer_def map_le_def split: if_splits option.splits)
  show "session_inv t'"
  proof (rule session_invI)
    fix s u assume "logmap t' s = Some u"
    then have "logmap t s = Some u" by (simp add: eq)
    with s eq show "user t' u \<noteq> None \<and> loggedIn t' u = Some True"
      by (metis domIff map_le_def session_invD(1,2))
  next
    fix s s' u assume "logmap t' s = Some u" "logmap t' s' = Some u"
    then show "s = s'" using session_inv_inj [OF s] by (simp add: eq(1))
  next
    fix u assume "loggedIn t' u = Some True"
    then have "loggedIn t u = Some True" by (rule eq(4))
    then show "\<exists>s. logmap t' s = Some u" using session_inv_ex [OF s] by (simp add: eq(1))
  qed
qed

lemma login_success:
  assumes "login input sock t = (t', 1)"
  shows "length input = 3" and "logmap t sock = None"
    and "loggedIn t (input ! 1) \<noteq> Some True" and "user t (input ! 1) = Some (input ! 2)"
    and "t' = t\<lparr>loggedIn := (loggedIn t)(input ! 1 \<mapsto> True),
               logmap := (logmap t)(sock \<mapsto> input ! 1)\<rparr>"
  using assms by (auto simp: login_def Let_def mtouch_def split: if_splits)

lemma login_failure:
  assumes "login input sock t = (t', a)" and "a \<noteq> 1"
  shows "user t' = user t" and "logmap t' = logmap t"
    and "loggedIn t' = loggedIn t \<or> loggedIn t' = mtouch False (loggedIn t) (input ! 1)"
  using assms by (auto simp: login_def Let_def split: if_splits)

lemma mtouch_False: "mtouch False m k u = Some True \<longleftrightarrow> m u = Some True"
  by (auto simp: mtouch_def mget_def split: option.splits)

lemma login_inv:
  assumes "tracker_inv t" and "login input sock t = (t', a)"
  shows "tracker_inv t'"
proof (rule tracker_inv_sessions [OF assms(1)])
  show "user t \<subseteq>\<^sub>m user t'" "same_groups t t'" "same_files t t'"
    using assms(2) by (auto simp: login_def frame_defs Let_def split: if_splits)
  have s: "session_inv t" using assms(1) by (simp add: tracker_inv_def)
  show "session_inv t'"
  proof (cases "a = 1")
    case True
    note t' = login_success [OF assms(2) [unfolded True]]
    have new: "logmap t s \<noteq> Some (input ! 1)" for s
      using s t'(3) session_inv_logged by blast
    show ?thesis
    proof (rule session_invI)
      fix s u assume "logmap t' s = Some u"
      then show "user t' u \<noteq> None \<and> loggedIn t' u = Some True"
        using session_inv_user [OF s] session_inv_logged [OF s] t'(4)
        by (simp add: t'(5) split: if_splits)
    next
      fix s s' u assume "logmap t' s = Some u" "logmap t' s' = Some u"
      then show "s = s'"
        using session_inv_inj [OF s] new by (auto simp: t'(5) split: if_splits)
    next
      fix u assume u: "loggedIn t' u = Some True"
      show "\<exists>s. logmap t' s = Some u"
      proof (cases "u = input ! 1")
        case True
        then show ?thesis by (auto simp: t'(5))
      next
        case False
        with u have "loggedIn t u = Some True" by (simp add: t'(5))
        then obtain s0 where "logmap t s0 = Some u" using session_inv_ex [OF s] by blast
        then have "logmap t' s0 = Some u" using t'(2) by (auto simp: t'(5))
        then show ?thesis ..
      qed
    qed
  next
    case False
    note t' = login_failure [OF assms(2) False]
    have "loggedIn t' u = Some True \<longleftrightarrow> loggedIn t u = Some True" for u
      using t'(3) by (elim disjE) (simp_all only: mtouch_False)
    then have "session_inv t' = session_inv t"
      unfolding session_inv_def by (simp only: t'(1,2))
    with s show ?thesis by simp
  qed
qed

lemma logout_inv:
  assumes "tracker_inv t" and "logmap t sock = Some u" and "logout input sock t = (t', a)"
  shows "tracker_inv t'"
proof (rule tracker_inv_sessions [OF assms(1)])
  show "user t \<subseteq>\<^sub>m user t'" "same_groups t t'" "same_files t t'"
    using assms(3) by (auto simp: logout_def frame_defs split: if_splits)
  have s: "session_inv t" using assms(1) by (simp add: tracker_inv_def)
  show "session_inv t'"
  proof (cases "length input = 1")
    case True
    with assms have t': "t' = t\<lparr>loggedIn := (loggedIn t)(u \<mapsto> False), logmap := (logmap t)(sock := None)\<rparr>"
      by (simp add: logout_def)
    have other: "logmap t s = Some v \<Longrightarrow> s \<noteq> sock \<Longrightarrow> v \<noteq> u" for s v
      using session_inv_inj [OF s] assms(2) by blast
    show ?thesis
    proof (rule session_invI)
      fix s v assume "logmap t' s = Some v"
      then show "user t' v \<noteq> None \<and> loggedIn t' v = Some True"
        using session_inv_user [OF s] session_inv_logged [OF s] other
        by (simp add: t' split: if_splits)
    next
      fix s s' v assume "logmap t' s = Some v" "logmap t' s' = Some v"
      then show "s = s'"
        using session_inv_inj [OF s] by (auto simp: t' split: if_splits)
    next
      fix v assume "loggedIn t' v = Some True"
      then have v: "v \<noteq> u" "loggedIn t v = Some True" by (auto simp: t' split: if_splits)
      then obtain s0 where "logmap t s0 = Some v" using session_inv_ex [OF s] by blast
      with v assms(2) have "logmap t' s0 = Some v" by (auto simp: t')
      then show "\<exists>s. logmap t' s = Some v" ..
    qed
  next
    case False
    with assms s show ?thesis by (simp add: logout_def)
  qed
qed

section \<open>Groups\<close>

lemma group_invI:
  assumes "dom (group_members t) = dom (group_owner t)"
    and "\<And>g p. group_owner t g = Some p \<Longrightarrow> p \<in> set (members_of t g)"
    and "\<And>g. sorted_wrt (<) (members_of t g)" and "\<And>g. sorted_wrt (<) (pending_of t g)"
    and "\<And>g p. p \<in> set (members_of t g) \<Longrightarrow> user t p \<noteq> None"
    and "\<And>g p. p \<in> set (pending_of t g) \<Longrightarrow> user t p \<noteq> None"
  shows "group_inv t"
  using assms unfolding group_inv_def by blast

lemma group_inv_dom: "group_inv t \<Longrightarrow> dom (group_members t) = dom (group_owner t)"
  and group_inv_owner: "group_inv t \<Longrightarrow> group_owner t g = Some p \<Longrightarrow> p \<in> set (members_of t g)"
  and group_inv_members: "group_inv t \<Longrightarrow> sorted_wrt (<) (members_of t g)"
  and group_inv_pending: "group_inv t \<Longrightarrow> sorted_wrt (<) (pending_of t g)"
  and group_inv_user: "group_inv t \<Longrightarrow> p \<in> set (members_of t g) \<Longrightarrow> user t p \<noteq> None"
  and group_inv_requester: "group_inv t \<Longrightarrow> p \<in> set (pending_of t g) \<Longrightarrow> user t p \<noteq> None"
  by (simp_all add: group_inv_def)

lemma group_inv_no_members:
  assumes "group_inv t" and "group_owner t g = None"
  shows "group_members t g = None" and "members_of t g = []"
proof -
  show "group_members t g = None"
    using group_inv_dom [OF assms(1)] assms(2) by (metis domIff)
  then show "members_of t g = []" by simp
qed

text \<open>The result of each group operation when the client is logged in and the invariant
  holds: the default insertions have then no effect but on \<open>pending\<close>.\<close>

lemma create_group_result:
  assumes "group_inv t" and "logmap t sock = Some u" and "create_group input sock t = (t', a)"
  shows "t' = t \<and> a \<noteq> 1 \<or>
         (\<exists>g. input = [input ! 0, g] \<and> group_owner t g = None \<and> a = 1 \<and>
              t' = t\<lparr>group_owner := (group_owner t)(g \<mapsto> u),
                     group_members := (group_members t)(g \<mapsto> [u])\<rparr>)"
proof (cases "length input = 2 \<and> group_owner t (input ! 1) = None")
  case True
  then obtain x g where i: "input = [x, g]"
    by (auto simp: length_Suc_conv numeral_2_eq_2)
  with True have "members_of t g = []"
    using group_inv_no_members [OF assms(1)] by simp
  with True i assms show ?thesis by (simp add: create_group_def Let_def)
next
  case False
  with assms show ?thesis by (auto simp: create_group_def split: if_splits)
qed

lemma join_group_result:
  assumes "group_inv t" and "logmap t sock = Some u" and "join_group input sock t = (t', a)"
  shows "t' = t \<and> a \<noteq> 1 \<or>
         (\<exists>g. input = [input ! 0, g] \<and> group_owner t g \<noteq> None \<and> u \<notin> set (members_of t g) \<and> a = 1 \<and>
              t' = t\<lparr>pending := (pending t)(g \<mapsto> string_insert u (pending_of t g))\<rparr>)"
proof (cases "length input = 2 \<and> group_owner t (input ! 1) \<noteq> None")
  case True
  then obtain x g where i: "input = [x, g]"
    by (auto simp: length_Suc_conv numeral_2_eq_2)
  with True have "mtouch [] (group_members t) g = group_members t"
    using group_inv_mtouch [OF assms(1)] by simp
  with True i assms show ?thesis by (auto simp: join_group_def Let_def split: if_splits)
next
  case False
  with assms show ?thesis by (auto simp: join_group_def Let_def split: if_splits)
qed

lemma accept_request_result:
  assumes "logmap t sock = Some u" and "accept_request input sock t = (t', a)"
  shows "a \<noteq> 1 \<and> (t' = t \<or> (\<exists>g. t' = t\<lparr>pending := mtouch [] (pending t) g\<rparr>)) \<or>
         (\<exists>g p. input = [input ! 0, g, p] \<and> group_owner t g = Some u \<and>
                p \<in> set (pending_of t g) \<and> a = 1 \<and>
                t' = t\<lparr>group_members := (group_members t)(g \<mapsto> string_insert p (members_of t g)),
                       pending := (pending t)(g \<mapsto> string_erase p (pending_of t g))\<rparr>)"
proof (cases "a = 1")
  case True
  with assms(2) have "length input = 3"
    by (auto simp: accept_request_def Let_def split: if_splits)
  then obtain x g p where i: "input = [x, g, p]"
    by (auto simp: length_Suc_conv numeral_3_eq_3)
  with True assms show ?thesis
    by (auto simp: accept_request_def Let_def split: if_splits)
next
  case False
  with assms show ?thesis
    by (auto simp: accept_request_def Let_def split: if_splits)
qed

lemma new_owner_Some: "new_owner p ms = Some q \<Longrightarrow> q \<in> set ms \<and> q \<noteq> p"
  by (induction ms) (auto split: if_splits)

lemma new_owner_None: "new_owner p ms = None \<longleftrightarrow> set ms \<subseteq> {p}"
  by (induction ms) auto

lemma sorted_singleton_or_more:
  assumes "sorted_wrt (<) ms" and "p \<in> set (ms :: string list)"
  shows "length ms > 1 \<and> (\<exists>q. new_owner p ms = Some q) \<or> ms = [p]"
proof (cases "length ms > 1")
  case True
  have "distinct ms" using assms(1) by (rule string_set.distinct_sorted)
  then have "card (set ms) = length ms" by (rule distinct_card)
  then have "\<not> set ms \<subseteq> {p}"
    using True card_mono [of "{p}" "set ms"] by auto
  then show ?thesis using True new_owner_None [of p ms] by (cases "new_owner p ms") auto
next
  case False
  with assms(2) show ?thesis by (cases ms) auto
qed

lemma leave_group_result:
  assumes "group_inv t" and "logmap t sock = Some u" and "leave_group input sock t = (t', a)"
  shows "t' = t \<and> a \<noteq> 1 \<or>
         (\<exists>g p. input = [input ! 0, g] \<and> group_owner t g = Some p \<and> u \<in> set (members_of t g) \<and> a = 1 \<and>
            (p \<noteq> u \<and> t' = t\<lparr>group_members := (group_members t)(g \<mapsto> string_erase u (members_of t g))\<rparr> \<or>
             p = u \<and> (\<exists>q. new_owner u (members_of t g) = Some q \<and>
               t' = t\<lparr>group_owner := (group_owner t)(g \<mapsto> q),
                      group_members := (group_members t)(g \<mapsto> string_erase u (members_of t g))\<rparr>) \<or>
             p = u \<and> members_of t g = [u] \<and>
               t' = t\<lparr>group_owner := (group_owner t)(g := None),
                      group_members := (group_members t)(g := None)\<rparr>))"
proof (cases "length input = 2 \<and> group_owner t (input ! 1) \<noteq> None")
  case True
  then obtain x g p where i: "input = [x, g]" and p: "group_owner t g = Some p"
    by (auto simp: length_Suc_conv numeral_2_eq_2)
  have m: "mtouch [] (group_members t) g = group_members t"
    using group_inv_mtouch [OF assms(1)] p by simp
  show ?thesis
  proof (cases "u \<in> set (members_of t g)")
    case True
    from sorted_singleton_or_more [OF group_inv_members [OF assms(1)] True] show ?thesis
      using True assms(2,3) i p m by (elim disjE exE conjE) (auto simp: leave_group_def Let_def split: if_splits)
  next
    case False
    then show ?thesis using assms(2,3) i p m by (auto simp: leave_group_def Let_def)
  qed
next
  case False
  with assms show ?thesis by (auto simp: leave_group_def Let_def split: if_splits)
qed

lemma group_op_frames:
  assumes "logmap t sock = Some u"
  shows "create_group input sock t = (t', a) \<Longrightarrow> same_sessions t t' \<and> same_files t t'"
    and "join_group input sock t = (t', a) \<Longrightarrow> same_sessions t t' \<and> same_files t t'"
    and "accept_request input sock t = (t', a) \<Longrightarrow> same_sessions t t' \<and> same_files t t'"
    and "leave_group input sock t = (t', a) \<Longrightarrow> same_sessions t t' \<and> same_files t t'"
    and "list_requests input sock t = (t', b, out) \<Longrightarrow> same_sessions t t' \<and> same_files t t'"
  using assms
  by (auto simp: create_group_def join_group_def accept_request_def leave_group_def
      list_requests_def frame_defs Let_def split: if_splits option.splits)

lemma pending_mtouch_inv: "group_inv t \<Longrightarrow> group_inv (t\<lparr>pending := mtouch [] (pending t) g\<rparr>)"
  unfolding group_inv_def by simp

lemma create_group_inv:
  assumes "group_inv t" and "user t u \<noteq> None" and "logmap t sock = Some u"
    and "create_group input sock t = (t', a)"
  shows "group_inv t'"
  using create_group_result [OF assms(1,3,4)]
proof (elim disjE exE conjE)
  fix g assume t': "t' = t\<lparr>group_owner := (group_owner t)(g \<mapsto> u),
                           group_members := (group_members t)(g \<mapsto> [u])\<rparr>"
  show "group_inv t'"
    using group_inv_dom [OF assms(1)] group_inv_owner [OF assms(1)] group_inv_members [OF assms(1)]
      group_inv_pending [OF assms(1)] group_inv_user [OF assms(1)] group_inv_requester [OF assms(1)]
      assms(2)
    by (intro group_invI) (auto simp: t' split: if_splits)
qed (use assms in simp)

lemma join_group_inv:
  assumes "group_inv t" and "user t u \<noteq> None" and "logmap t sock = Some u"
    and "join_group input sock t = (t', a)"
  shows "group_inv t'"
  using join_group_result [OF assms(1,3,4)]
proof (elim disjE exE conjE)
  fix g assume t': "t' = t\<lparr>pending := (pending t)(g \<mapsto> string_insert u (pending_of t g))\<rparr>"
  show "group_inv t'"
    using group_inv_dom [OF assms(1)] group_inv_owner [OF assms(1)] group_inv_members [OF assms(1)]
      group_inv_pending [OF assms(1)] group_inv_user [OF assms(1)] group_inv_requester [OF assms(1)]
      assms(2)
    by (intro group_invI) (auto simp: t' string_set.sorted_insert split: if_splits)
qed (use assms in simp)

lemma accept_request_inv:
  assumes "group_inv t" and "logmap t sock = Some u" and "accept_request input sock t = (t', a)"
  shows "group_inv t'"
  using accept_request_result [OF assms(2,3)]
proof (elim disjE exE conjE)
  fix g p
  assume g: "group_owner t g = Some u" and p: "p \<in> set (pending_of t g)"
    and t': "t' = t\<lparr>group_members := (group_members t)(g \<mapsto> string_insert p (members_of t g)),
                   pending := (pending t)(g \<mapsto> string_erase p (pending_of t g))\<rparr>"
  show "group_inv t'"
  proof (rule group_invI)
    show "dom (group_members t') = dom (group_owner t')"
      using group_inv_dom [OF assms(1)] g by (auto simp: t')
  qed (use g p group_inv_owner [OF assms(1)] group_inv_members [OF assms(1)]
      group_inv_pending [OF assms(1)] group_inv_user [OF assms(1)] group_inv_requester [OF assms(1)] in
      \<open>auto simp: t' string_set.sorted_insert string_set.sorted_erase split: if_splits\<close>)
qed (use assms pending_mtouch_inv in auto)

lemma leave_group_inv:
  assumes "group_inv t" and "logmap t sock = Some u" and "leave_group input sock t = (t', a)"
  shows "group_inv t'"
  using leave_group_result [OF assms]
proof (elim disjE exE conjE)
  fix g p
  assume g: "group_owner t g = Some p" "p \<noteq> u"
    and t': "t' = t\<lparr>group_members := (group_members t)(g \<mapsto> string_erase u (members_of t g))\<rparr>"
  have "dom (group_members t') = dom (group_owner t')"
    using group_inv_dom [OF assms(1)] g by (auto simp: t')
  then show "group_inv t'"
    by (rule group_invI)
      (use g group_inv_owner [OF assms(1)] group_inv_members [OF assms(1)]
        group_inv_pending [OF assms(1)] group_inv_user [OF assms(1)] group_inv_requester [OF assms(1)] in
        \<open>auto simp: t' string_set.sorted_erase split: if_splits\<close>)
next
  fix g p q
  assume g: "group_owner t g = Some p" and q: "new_owner u (members_of t g) = Some q"
    and t': "t' = t\<lparr>group_owner := (group_owner t)(g \<mapsto> q),
                   group_members := (group_members t)(g \<mapsto> string_erase u (members_of t g))\<rparr>"
  have "dom (group_members t') = dom (group_owner t')"
    using group_inv_dom [OF assms(1)] g by (auto simp: t')
  then show "group_inv t'"
    by (rule group_invI)
      (use g new_owner_Some [OF q] group_inv_owner [OF assms(1)] group_inv_members [OF assms(1)]
        group_inv_pending [OF assms(1)] group_inv_user [OF assms(1)] group_inv_requester [OF assms(1)] in
        \<open>auto simp: t' string_set.sorted_erase split: if_splits\<close>)
next
  fix g p
  assume g: "group_owner t g = Some p" "members_of t g = [u]"
    and t': "t' = t\<lparr>group_owner := (group_owner t)(g := None),
                   group_members := (group_members t)(g := None)\<rparr>"
  have dom: "dom (group_members t') = dom (group_owner t')"
    using group_inv_dom [OF assms(1)] g by (auto simp: t')
  have mem: "members_of t' h = (if h = g then [] else members_of t h)" for h
    by (simp add: t' mget_def)
  from dom show "group_inv t'"
    by (rule group_invI)
      (use mem group_inv_owner [OF assms(1)] group_inv_members [OF assms(1)]
        group_inv_pending [OF assms(1)] group_inv_user [OF assms(1)] group_inv_requester [OF assms(1)] in
        \<open>auto simp: t' split: if_splits\<close>)
qed (use assms in simp)

lemma list_requests_inv:
  assumes "group_inv t" and "logmap t sock = Some u" and "list_requests input sock t = (t', a, out)"
  shows "group_inv t'"
  using assms pending_mtouch_inv by (auto simp: list_requests_def Let_def split: if_splits)

end
