(* ===== verification/Tracker_Files.thy ===== *)
theory Tracker_Files
  imports Tracker_Inv
begin

text \<open>
  The file operations keep \<open>file_inv\<close>, the dispatcher and the server steps keep
  \<open>tracker_inv\<close>, and the interpretation of \<open>invariant_machine\<close> that says so for every
  reachable state of the server.
\<close>

section \<open>Pieces and sources\<close>

lemma file_invI:
  assumes "\<And>f. distinct (map piecenumber (pieces_of t f))"
    and "\<And>f p. p \<in> set (pieces_of t f) \<Longrightarrow> piece_ok t f p"
    and "\<And>g. sorted_wrt (<) (files_of t g)" and "\<And>q. sorted_wrt (<) (downloads_of t q)"
    and "\<And>f. sorted_wrt file_info_less (mget [] (file_list t) f)"
    and "\<And>g f. f \<in> set (files_of t g) \<Longrightarrow> mget [] (file_list t) f \<noteq> []"
  shows "file_inv t"
  using assms unfolding file_inv_def by blast

lemma file_inv_distinct: "file_inv t \<Longrightarrow> distinct (map piecenumber (pieces_of t f))"
  and file_inv_piece: "file_inv t \<Longrightarrow> p \<in> set (pieces_of t f) \<Longrightarrow> piece_ok t f p"
  and file_inv_files: "file_inv t \<Longrightarrow> sorted_wrt (<) (files_of t g)"
  and file_inv_downloads: "file_inv t \<Longrightarrow> sorted_wrt (<) (downloads_of t q)"
  and file_inv_list: "file_inv t \<Longrightarrow> sorted_wrt file_info_less (mget [] (file_list t) f)"
  and file_inv_listed: "file_inv t \<Longrightarrow> f \<in> set (files_of t g) \<Longrightarrow> mget [] (file_list t) f \<noteq> []"
  by (simp_all add: file_inv_def)

lemma add_source_numbers:
  "map piecenumber (add_source f n fi ps) =
     (if n \<in> piecenumber ` set ps then map piecenumber ps else map piecenumber ps @ [n])"
  by (induction ps) auto

lemma add_source_distinct:
  "distinct (map piecenumber ps) \<Longrightarrow> distinct (map piecenumber (add_source f n fi ps))"
  by (simp add: add_source_numbers)

lemma add_source_ok:
  assumes "\<forall>p \<in> set ps. piece_ok t f p"
    and "base_name (file_path fi) = f" and "user t (peername fi) \<noteq> None"
  shows "\<forall>p \<in> set (add_source f n fi ps). piece_ok t f p"
  using assms(1)
proof (induction ps)
  case Nil
  then show ?case using assms(2,3) by (simp add: piece_ok_def)
next
  case (Cons p ps)
  have "piece_ok t f (p\<lparr>sources := set_insert file_info_less fi (sources p)\<rparr>)"
    using Cons.prems assms(2,3) set_insert_subset [of file_info_less fi "sources p"]
    by (auto simp: piece_ok_def file_info_set.sorted_insert)
  with Cons show ?case by auto
qed

lemma drop_peer_simps [simp]:
  "piecenumber (drop_peer p pc) = piecenumber pc" "file_name (drop_peer p pc) = file_name pc"
  "sources (drop_peer p pc) = filter (\<lambda>fi. peername fi \<noteq> p) (sources pc)"
  by (simp_all add: drop_peer_def)

lemma drop_peer_ok: "piece_ok t f pc \<Longrightarrow> piece_ok t f (drop_peer p pc)"
  by (auto simp: piece_ok_def sorted_wrt_filter)

section \<open>Operations\<close>

lemma upload_file_result:
  assumes "group_inv t" and "logmap t sock = Some u" and "upload_file input sock t = Inr (t', a)"
  shows "t' = t \<and> a \<noteq> 0 \<or>
         (\<exists>path g num h n fi. input = [input ! 0, path, g, num, h] \<and> group_owner t g \<noteq> None \<and>
            u \<in> set (members_of t g) \<and> stoi num = Inr n \<and> a = 0 \<and>
            fi = \<lparr>peername = u, client_port = fst (mget (0, []) (listenmap t) sock),
                  client_ip = snd (mget (0, []) (listenmap t) sock), file_path = path, hash = h\<rparr> \<and>
            t' = t\<lparr>listenmap := mtouch (0, []) (listenmap t) sock,
                   file_pieces := (file_pieces t)
                     (base_name path \<mapsto> add_source (base_name path) n fi (pieces_of t (base_name path))),
                   file_list := (file_list t)
                     (base_name path \<mapsto> set_insert file_info_less fi (mget [] (file_list t) (base_name path))),
                   group_file := (group_file t)(g \<mapsto> string_insert (base_name path) (files_of t g))\<rparr>)"
proof (cases "length input = 5 \<and> group_owner t (input ! 2) \<noteq> None")
  case True
  then obtain x path g num h where i: "input = [x, path, g, num, h]"
    by (auto simp: length_Suc_conv numeral_eq_Suc)
  with True have "mtouch [] (group_members t) g = group_members t"
    using group_inv_mtouch [OF assms(1)] by simp
  with True i assms(2,3) show ?thesis
    by (auto simp: upload_file_def Let_def split: if_splits sum.splits)
next
  case False
  with assms show ?thesis by (auto simp: upload_file_def Let_def split: if_splits)
qed

lemma upload_file_inv:
  assumes "tracker_inv t" and "logmap t sock = Some u" and "upload_file input sock t = Inr (t', a)"
  shows "tracker_inv t'"
proof -
  have s: "session_inv t" and g: "group_inv t" and f: "file_inv t"
    using assms(1) by (simp_all add: tracker_inv_def)
  from upload_file_result [OF g assms(2,3)] show ?thesis
  proof (elim disjE exE conjE)
    fix path grp n fi h
    let ?f = "base_name path"
    assume fi: "fi = \<lparr>peername = u, client_port = fst (mget (0, []) (listenmap t) sock),
                  client_ip = snd (mget (0, []) (listenmap t) sock), file_path = path, hash = h\<rparr>"
      and t': "t' = t\<lparr>listenmap := mtouch (0, []) (listenmap t) sock,
                   file_pieces := (file_pieces t)(?f \<mapsto> add_source ?f n fi (pieces_of t ?f)),
                   file_list := (file_list t)(?f \<mapsto> set_insert file_info_less fi (mget [] (file_list t) ?f)),
                   group_file := (group_file t)(grp \<mapsto> string_insert ?f (files_of t grp))\<rparr>"
    have u: "user t (peername fi) \<noteq> None" "base_name (file_path fi) = ?f"
      using fi session_inv_user [OF s assms(2)] by simp_all
    have ok: "piece_ok t' h p = piece_ok t h p" for h p
      by (simp add: piece_ok_def t')
    have ps: "\<forall>p \<in> set (add_source ?f n fi (pieces_of t ?f)). piece_ok t ?f p"
      by (rule add_source_ok) (use u file_inv_piece [OF f] in auto)
    show "tracker_inv t'"
    proof (rule tracker_inv_files [OF assms(1)])
      show "same_sessions t t'" "same_groups t t'" by (simp_all add: frame_defs t')
      show "file_inv t'"
      proof (rule file_invI)
        fix h p assume "p \<in> set (pieces_of t' h)"
        then have "piece_ok t h p"
          using ps file_inv_piece [OF f] by (auto simp: t' split: if_splits)
        then show "piece_ok t' h p" by (simp only: ok)
      qed (use file_inv_distinct [OF f] file_inv_files [OF f] file_inv_downloads [OF f]
            file_inv_list [OF f] file_inv_listed [OF f] in
          \<open>auto simp: t' add_source_distinct string_set.sorted_insert file_info_set.sorted_insert
             split: if_splits\<close>)
    qed
  qed (use assms in simp)
qed

lemma download_file_inv:
  assumes "tracker_inv t" and "logmap t sock = Some u" and "download_file input sock t = (t', a, out)"
  shows "tracker_inv t'"
proof -
  have g: "group_inv t" and f: "file_inv t"
    using assms(1) by (simp_all add: tracker_inv_def)
  have [simp]: "group_owner t h = Some y \<Longrightarrow> mtouch [] (group_members t) h = group_members t" for h y
    using group_inv_mtouch [OF g] by simp
  show ?thesis
  proof (rule tracker_inv_files [OF assms(1)])
    show "same_sessions t t'" "same_groups t t'"
      using assms(2,3) by (auto simp: download_file_def frame_defs Let_def split: if_splits)
    have eq: "pieces_of t' h = pieces_of t h" "files_of t' h = files_of t h"
      "mget [] (file_list t') h = mget [] (file_list t) h" "user t' = user t" for h
      using assms(2,3) by (auto simp: download_file_def Let_def split: if_splits)
    have "sorted_wrt (<) (downloads_of t' q)" for q
      using assms(2,3) file_inv_downloads [OF f]
      by (auto simp: download_file_def Let_def triple_set.sorted_insert split: if_splits)
    with f show "file_inv t'"
      unfolding file_inv_def piece_ok_def eq by simp
  qed
qed

lemma list_files_state: "list_files input t = (t', a, out) \<Longrightarrow> t' = t"
  by (auto simp: list_files_def split: if_splits option.splits)

lemma list_groups_state: "list_groups order input t = (t', a, out) \<Longrightarrow> t' = t"
  by (auto simp: list_groups_def split: if_splits)

lemma show_downloads_state:
  "logmap t sock = Some u \<Longrightarrow> show_downloads input sock t = (t', a, out) \<Longrightarrow> t' = t"
  by (auto simp: show_downloads_def Let_def split: if_splits option.splits)

lemma stop_share_result:
  assumes "logmap t sock = Some u" and "stop_share input sock t = (t', a)"
  shows "t' = t \<or> (\<exists>g. t' = t\<lparr>group_file := mtouch [] (group_file t) g\<rparr>) \<or>
     (\<exists>g f ps. input = [input ! 0, g, f] \<and> f \<in> set (files_of t g) \<and> file_pieces t f = Some ps \<and> a = 0 \<and>
        ((\<forall>pc \<in> set ps. sources (drop_peer u pc) = []) \<and>
           t' = t\<lparr>group_file := (group_file t)(g \<mapsto> string_erase f (files_of t g)),
                  file_pieces := (file_pieces t)(f := None)\<rparr> \<or>
         (\<exists>pc \<in> set ps. sources (drop_peer u pc) \<noteq> []) \<and>
           t' = t\<lparr>group_file := mtouch [] (group_file t) g,
                  file_pieces := (file_pieces t)(f \<mapsto> map (drop_peer u) ps)\<rparr>))"
proof (cases "length input = 3 \<and> group_owner t (input ! 1) \<noteq> None \<and>
    input ! 2 \<in> set (files_of t (input ! 1)) \<and> file_pieces t (input ! 2) \<noteq> None")
  case True
  then obtain x g f ps where i: "input = [x, g, f]" and ps: "file_pieces t f = Some ps"
    by (auto simp: length_Suc_conv numeral_3_eq_3)
  define b where "b \<longleftrightarrow> (\<forall>pc \<in> set ps. sources (drop_peer u pc) = [])"
  have all: "list_all (\<lambda>pc. sources pc = []) (map (drop_peer u) ps) = b"
    by (simp add: list_all_iff b_def)
  have mem: "group_owner t g \<noteq> None" "f \<in> set (files_of t g)"
    using True i by simp_all
  have "a = 0 \<and> t' = (if b
      then t\<lparr>group_file := (group_file t)(g \<mapsto> string_erase f (files_of t g)),
             file_pieces := (file_pieces t)(f := None)\<rparr>
      else t\<lparr>group_file := mtouch [] (group_file t) g,
             file_pieces := (file_pieces t)(f \<mapsto> map (drop_peer u) ps)\<rparr>)"
    using assms i ps mem all by (cases b) (simp_all add: stop_share_def Let_def)
  then show ?thesis using i ps mem(2) unfolding b_def by (simp split: if_splits)
next
  case False
  with assms show ?thesis by (auto simp: stop_share_def Let_def split: if_splits option.splits)
qed

lemma stop_share_inv:
  assumes "tracker_inv t" and "logmap t sock = Some u" and "stop_share input sock t = (t', a)"
  shows "tracker_inv t'"
proof (rule tracker_inv_files [OF assms(1)])
  have f: "file_inv t" using assms(1) by (simp add: tracker_inv_def)
  show fr: "same_sessions t t'" "same_groups t t'"
    using stop_share_result [OF assms(2,3)] by (auto simp: frame_defs)
  have ok: "piece_ok t' h p = piece_ok t h p" for h p
    using fr by (simp add: piece_ok_def frame_defs)
  note inv = file_inv_distinct [OF f] file_inv_piece [OF f] file_inv_files [OF f]
    file_inv_downloads [OF f] file_inv_list [OF f] file_inv_listed [OF f]
  show "file_inv t'"
    using stop_share_result [OF assms(2,3)]
  proof (elim disjE exE conjE)
    fix g fn ps
    assume t': "t' = t\<lparr>group_file := (group_file t)(g \<mapsto> string_erase fn (files_of t g)),
                  file_pieces := (file_pieces t)(fn := None)\<rparr>"
    show ?thesis
      by (rule file_invI)
        (use inv ok in \<open>auto simp: t' string_set.sorted_erase split: if_splits\<close>)
  next
    fix g fn ps
    assume ps: "file_pieces t fn = Some ps"
      and t': "t' = t\<lparr>group_file := mtouch [] (group_file t) g,
                  file_pieces := (file_pieces t)(fn \<mapsto> map (drop_peer u) ps)\<rparr>"
    have d: "distinct (map piecenumber ps)" "\<forall>p \<in> set ps. piece_ok t fn p"
      using inv(1) [of fn] inv(2) [of _ fn] ps by auto
    show ?thesis
    proof (rule file_invI)
      fix h p assume "p \<in> set (pieces_of t' h)"
      then have "piece_ok t h p"
        using d(2) inv(2) drop_peer_ok by (auto simp: t' split: if_splits)
      then show "piece_ok t' h p" by (simp only: ok)
    qed (use d(1) inv in \<open>auto simp: t' comp_def split: if_splits\<close>)
  next
    fix g assume t': "t' = t\<lparr>group_file := mtouch [] (group_file t) g\<rparr>"
    show ?thesis by (rule file_invI) (use inv ok in \<open>auto simp: t'\<close>)
  qed (use f in simp)
qed

lemma completed_loop_result:
  "completed_loop f x ds rest = Inr ds' \<Longrightarrow> ds' = ds \<or> ds' = set_insert (<) x ds"
proof (induction f x ds rest rule: completed_loop.induct)
  case (2 f x ds d rest)
  have done_: "ds'' = ds'" if "completed_loop f x ds' r = Inr ds''" "x \<in> set ds'" for ds' ds'' r
    using that by (induction r) (auto split: if_splits)
  show ?case
  proof (cases "x \<in> set ds")
    case True
    then show ?thesis using "2.prems" done_ by blast
  next
    case False
    with "2.prems" have "completed_loop f x (set_insert (<) x ds)
        (if d < x then set_insert (<) x rest else rest) = Inr ds'"
      by (simp split: if_splits)
    from done_ [OF this] show ?thesis by simp
  qed
qed simp

lemma download_completed_result:
  assumes "logmap t sock = Some u" and "download_completed input sock t = Inr t'"
  obtains ds' where "t' = t\<lparr>downloads := (downloads t)(u \<mapsto> ds')\<rparr>"
    and "ds' = downloads_of t u \<or>
         ds' = set_insert (<) (input ! 2, ''C'', input ! 1) (downloads_of t u)"
proof -
  from assms obtain ds' where "completed_loop (input ! 2) (input ! 2, ''C'', input ! 1)
      (downloads_of t u) (downloads_of t u) = Inr ds'"
    and "t' = t\<lparr>downloads := (downloads t)(u \<mapsto> ds')\<rparr>"
    by (auto simp: download_completed_def Let_def split: if_splits sum.splits)
  then show ?thesis using completed_loop_result that by blast
qed

lemma download_completed_inv:
  assumes "tracker_inv t" and "logmap t sock = Some u" and "download_completed input sock t = Inr t'"
  shows "tracker_inv t'"
proof (rule tracker_inv_files [OF assms(1)])
  have f: "file_inv t" using assms(1) by (simp add: tracker_inv_def)
  obtain ds' where t': "t' = t\<lparr>downloads := (downloads t)(u \<mapsto> ds')\<rparr>"
    and ds': "ds' = downloads_of t u \<or>
         ds' = set_insert (<) (input ! 2, ''C'', input ! 1) (downloads_of t u)"
    by (rule download_completed_result [OF assms(2,3)])
  show "same_sessions t t'" "same_groups t t'" by (simp_all add: t' frame_defs)
  have "sorted_wrt (<) ds'"
    using ds' file_inv_downloads [OF f] triple_set.sorted_insert by auto
  then show "file_inv t'"
    using f unfolding file_inv_def piece_ok_def by (simp add: t')
qed

lemma file_details_result:
  assumes "file_details input t = Inr t'"
  obtains n where "length input \<ge> 4" and "stoi (input ! 2) = Inr n"
    and "t' = t\<lparr>filedetails := (filedetails t)(base_name (input ! 1) \<mapsto> (n, input ! 3))\<rparr>"
  using assms by (auto simp: file_details_def split: if_splits sum.splits)

lemma file_details_inv:
  assumes "tracker_inv t" and "file_details input t = Inr t'"
  shows "tracker_inv t'"
proof (rule tracker_inv_files [OF assms(1)])
  obtain n where t': "t' = t\<lparr>filedetails := (filedetails t)(base_name (input ! 1) \<mapsto> (n, input ! 3))\<rparr>"
    by (rule file_details_result [OF assms(2)])
  show "same_sessions t t'" "same_groups t t'" by (simp_all add: t' frame_defs)
  have "file_inv t" using assms(1) by (simp add: tracker_inv_def)
  then show "file_inv t'" unfolding file_inv_def piece_ok_def by (simp add: t')
qed

section \<open>Commands and server steps\<close>

text \<open>Which operation a successful command ran; every proof about all commands splits
  along this rule.\<close>

lemma member_command_cases:
  assumes "logmap t sock = Some u" and "member_command order t sock input = Inr (t', out)"
  obtains (create_group) a where "create_group input sock t = (t', a)"
  | (join_group) a where "join_group input sock t = (t', a)"
  | (leave_group) a where "leave_group input sock t = (t', a)"
  | (list_requests) a o' where "list_requests input sock t = (t', a, o')"
  | (accept_request) a where "accept_request input sock t = (t', a)"
  | (upload_file) a where "upload_file input sock t = Inr (t', a)"
  | (download_file) a o' where "download_file input sock t = (t', a, o')"
  | (logout) a where "logout input sock t = (t', a)"
  | (stop_share) a where "stop_share input sock t = (t', a)"
  | (file_details) "file_details input t = Inr t'"
  | (download_completed) "download_completed input sock t = Inr t'"
  | (same) "t' = t"
  using assms(2) unfolding member_command_def
  by (elim branchE)
    (simp_all add: that list_files_state list_groups_state show_downloads_state [OF assms(1)])

lemma member_command_inv:
  assumes "tracker_inv t" and "logmap t sock = Some u"
    and "member_command order t sock input = Inr (t', out)"
  shows "tracker_inv t'"
proof -
  have g: "group_inv t" and u: "user t u \<noteq> None"
    using assms(1) session_inv_user [OF _ assms(2)] by (auto simp: tracker_inv_def)
  note group_ops = tracker_inv_groups [OF assms(1)]
  note frames = group_op_frames [OF assms(2)]
  from assms(2,3) show ?thesis
  proof (cases rule: member_command_cases)
    case create_group
    then show ?thesis using frames(1) create_group_inv [OF g u assms(2)] group_ops by blast
  next
    case join_group
    then show ?thesis using frames(2) join_group_inv [OF g u assms(2)] group_ops by blast
  next
    case accept_request
    then show ?thesis using frames(3) accept_request_inv [OF g assms(2)] group_ops by blast
  next
    case leave_group
    then show ?thesis using frames(4) leave_group_inv [OF g assms(2)] group_ops by blast
  next
    case list_requests
    then show ?thesis using frames(5) list_requests_inv [OF g assms(2)] group_ops by blast
  qed (use assms in \<open>blast intro: upload_file_inv download_file_inv logout_inv stop_share_inv
        file_details_inv download_completed_inv\<close>)+
qed

lemma handle_command_cases:
  assumes "handle_command order t sock input = Inr (t', out)"
  obtains (create_peer) a where "input \<noteq> []" "input ! 0 = ''create_peer''"
      "create_peer input t = (t', a)" "out = create_peer_reply a"
  | (login) l where "input \<noteq> []" "input ! 0 = ''login''"
      "login input sock t = (t', l)" "out = login_reply input l"
  | (member) u where "input \<noteq> []" "logmap t sock = Some u"
      "member_command order t sock input = Inr (t', out)"
  | (refused) "logmap t sock = None" "t' = t" "out = [line ''Please login first'']"
  using assms unfolding handle_command_def
  by (elim branchE) (simp_all add: that, blast intro: that)

lemma handle_command_inv:
  assumes "tracker_inv t" and "handle_command order t sock input = Inr (t', out)"
  shows "tracker_inv t'"
  using assms(2)
  by (cases rule: handle_command_cases)
    (use assms(1) in \<open>blast intro: create_peer_inv login_inv member_command_inv\<close>)+

lemma hello_inv:
  assumes "tracker_inv t" and "hello bytes junk sock t = Inr t'"
  shows "tracker_inv t'"
proof (rule tracker_inv_files [OF assms(1)])
  show "same_sessions t t'" "same_groups t t'"
    using assms(2) by (auto simp: hello_def frame_defs Let_def split: sum.splits)
  show "file_inv t'"
    using assms by (auto simp: hello_def tracker_inv_def file_inv_def piece_ok_def Let_def split: sum.splits)
qed

lemma server_step_inv:
  assumes "tracker_inv (tstate sv)" and "server_step sv sv'"
  shows "tracker_inv (tstate sv')"
  using assms(2,1)
  by (cases rule: server_step.cases)
    (auto simp: greet_def serve_def peer_input_def split: sum.splits prod.splits
       dest: hello_inv handle_command_inv)

interpretation tracker_machine:
  invariant_machine "\<lambda>s. s = server_init" server_step "\<lambda>sv. tracker_inv (tstate sv)"
  by unfold_locales (auto simp: server_init_def tracker_init_inv intro: server_step_inv)

end
