(* ===== verification/Tracker_Groups.thy ===== *)
theory Tracker_Groups
  imports Tracker_Files
begin

text \<open>
  What the tracker promises about groups, without its containers: a group has an owner, a
  set of members and a set of pending requests, and a logged-in user changes them in six
  ways.  The tracker refines this machine, so its invariant carries over.
\<close>

section \<open>The abstract machine\<close>

record group_spec =
  owner :: "string \<rightharpoonup> string"
  mem :: "string \<Rightarrow> string set"
  req :: "string \<Rightarrow> string set"

definition group_spec_init :: group_spec where
  "group_spec_init = \<lparr>owner = Map.empty, mem = (\<lambda>_. {}), req = (\<lambda>_. {})\<rparr>"

inductive spec_step :: "string \<Rightarrow> group_spec \<Rightarrow> group_spec \<Rightarrow> bool" for u :: string where
  create: "owner s g = None \<Longrightarrow>
     spec_step u s (s\<lparr>owner := (owner s)(g \<mapsto> u), mem := (mem s)(g := {u})\<rparr>)"
| request: "owner s g \<noteq> None \<Longrightarrow> u \<notin> mem s g \<Longrightarrow>
     spec_step u s (s\<lparr>req := (req s)(g := insert u (req s g))\<rparr>)"
| grant: "owner s g = Some u \<Longrightarrow> p \<in> req s g \<Longrightarrow>
     spec_step u s (s\<lparr>mem := (mem s)(g := insert p (mem s g)), req := (req s)(g := req s g - {p})\<rparr>)"
| leave: "owner s g = Some p \<Longrightarrow> p \<noteq> u \<Longrightarrow> u \<in> mem s g \<Longrightarrow>
     spec_step u s (s\<lparr>mem := (mem s)(g := mem s g - {u})\<rparr>)"
| hand_over: "owner s g = Some u \<Longrightarrow> q \<in> mem s g \<Longrightarrow> q \<noteq> u \<Longrightarrow>
     spec_step u s (s\<lparr>owner := (owner s)(g \<mapsto> q), mem := (mem s)(g := mem s g - {u})\<rparr>)"
| dissolve: "owner s g = Some u \<Longrightarrow> mem s g = {u} \<Longrightarrow>
     spec_step u s (s\<lparr>owner := (owner s)(g := None), mem := (mem s)(g := {})\<rparr>)"

inductive_cases spec_stepE: "spec_step u s s'"

definition spec_inv :: "group_spec \<Rightarrow> bool" where
  "spec_inv s \<longleftrightarrow>
     (\<forall>g p. owner s g = Some p \<longrightarrow> p \<in> mem s g) \<and> (\<forall>g. owner s g = None \<longrightarrow> mem s g = {})"

lemma spec_step_inv: "spec_step u s s' \<Longrightarrow> spec_inv s \<Longrightarrow> spec_inv s'"
  by (induction rule: spec_step.induct) (simp_all add: spec_inv_def)

interpretation group_machine:
  invariant_machine "\<lambda>s. s = group_spec_init" "\<lambda>s s'. \<exists>u. spec_step u s s'" spec_inv
proof unfold_locales
  show "s = group_spec_init \<Longrightarrow> spec_inv s" for s
    by (simp add: spec_inv_def group_spec_init_def)
qed (blast intro: spec_step_inv)

section \<open>The tracker refines it\<close>

definition abs_groups :: "tracker \<Rightarrow> group_spec" where
  "abs_groups t =
     \<lparr>owner = group_owner t, mem = (\<lambda>g. set (members_of t g)), req = (\<lambda>g. set (pending_of t g))\<rparr>"

lemma abs_groups_simps [simp]:
  "owner (abs_groups t) = group_owner t" "mem (abs_groups t) g = set (members_of t g)"
  "req (abs_groups t) g = set (pending_of t g)"
  by (simp_all add: abs_groups_def)

lemma abs_groups_eqI:
  assumes "group_owner t' = ow" and "\<And>g. set (members_of t' g) = m g" and "\<And>g. set (pending_of t' g) = r g"
  shows "abs_groups t' = \<lparr>owner = ow, mem = m, req = r\<rparr>"
  using assms by (simp add: abs_groups_def)

lemma abs_groups_same: "same_groups t t' \<Longrightarrow> abs_groups t' = abs_groups t"
  by (simp add: same_groups_def abs_groups_def)

lemma create_group_refines:
  assumes "group_inv t" and "logmap t sock = Some u" and "create_group input sock t = (t', a)"
  shows "spec_step u (abs_groups t) (abs_groups t') \<or> abs_groups t' = abs_groups t"
  using create_group_result [OF assms]
proof (elim disjE exE conjE)
  fix g
  assume g: "group_owner t g = None"
    and t': "t' = t\<lparr>group_owner := (group_owner t)(g \<mapsto> u), group_members := (group_members t)(g \<mapsto> [u])\<rparr>"
  have "abs_groups t' = (abs_groups t)\<lparr>owner := (owner (abs_groups t))(g \<mapsto> u),
      mem := (mem (abs_groups t))(g := {u})\<rparr>"
    by (auto simp: t' abs_groups_def fun_eq_iff)
  with g spec_step.create [of "abs_groups t" g u] show ?thesis by simp
qed simp

lemma join_group_refines:
  assumes "group_inv t" and "logmap t sock = Some u" and "join_group input sock t = (t', a)"
  shows "spec_step u (abs_groups t) (abs_groups t') \<or> abs_groups t' = abs_groups t"
  using join_group_result [OF assms]
proof (elim disjE exE conjE)
  fix g
  assume g: "group_owner t g \<noteq> None" "u \<notin> set (members_of t g)"
    and t': "t' = t\<lparr>pending := (pending t)(g \<mapsto> string_insert u (pending_of t g))\<rparr>"
  have "abs_groups t' = (abs_groups t)\<lparr>req := (req (abs_groups t))(g := insert u (req (abs_groups t) g))\<rparr>"
    by (auto simp: t' abs_groups_def fun_eq_iff)
  with g spec_step.request [of "abs_groups t" g u] show ?thesis by simp
qed simp

lemma accept_request_refines:
  assumes "logmap t sock = Some u" and "accept_request input sock t = (t', a)"
  shows "spec_step u (abs_groups t) (abs_groups t') \<or> abs_groups t' = abs_groups t"
  using accept_request_result [OF assms]
proof (elim disjE exE conjE)
  fix g p
  assume g: "group_owner t g = Some u" "p \<in> set (pending_of t g)"
    and t': "t' = t\<lparr>group_members := (group_members t)(g \<mapsto> string_insert p (members_of t g)),
                   pending := (pending t)(g \<mapsto> string_erase p (pending_of t g))\<rparr>"
  have "abs_groups t' = (abs_groups t)\<lparr>mem := (mem (abs_groups t))(g := insert p (mem (abs_groups t) g)),
      req := (req (abs_groups t))(g := req (abs_groups t) g - {p})\<rparr>"
    by (auto simp: t' abs_groups_def fun_eq_iff)
  with g spec_step.grant [of "abs_groups t" g u p] show ?thesis by simp
qed (auto simp: abs_groups_def)

lemma leave_group_refines:
  assumes "group_inv t" and "logmap t sock = Some u" and "leave_group input sock t = (t', a)"
  shows "spec_step u (abs_groups t) (abs_groups t') \<or> abs_groups t' = abs_groups t"
  using leave_group_result [OF assms]
proof (elim disjE exE conjE)
  fix g p
  assume g: "group_owner t g = Some p" "u \<in> set (members_of t g)" "p \<noteq> u"
    and t': "t' = t\<lparr>group_members := (group_members t)(g \<mapsto> string_erase u (members_of t g))\<rparr>"
  have "abs_groups t' = (abs_groups t)\<lparr>mem := (mem (abs_groups t))(g := mem (abs_groups t) g - {u})\<rparr>"
    by (auto simp: t' abs_groups_def fun_eq_iff)
  with g spec_step.leave [of "abs_groups t" g p u] show ?thesis by simp
next
  fix g p q
  assume g: "group_owner t g = Some p" "p = u" and q: "new_owner u (members_of t g) = Some q"
    and t': "t' = t\<lparr>group_owner := (group_owner t)(g \<mapsto> q),
                   group_members := (group_members t)(g \<mapsto> string_erase u (members_of t g))\<rparr>"
  have "abs_groups t' = (abs_groups t)\<lparr>owner := (owner (abs_groups t))(g \<mapsto> q),
      mem := (mem (abs_groups t))(g := mem (abs_groups t) g - {u})\<rparr>"
    by (auto simp: t' abs_groups_def fun_eq_iff)
  with g new_owner_Some [OF q] spec_step.hand_over [of "abs_groups t" g u q] show ?thesis by simp
next
  fix g p
  assume g: "group_owner t g = Some p" "p = u" "members_of t g = [u]"
    and t': "t' = t\<lparr>group_owner := (group_owner t)(g := None),
                   group_members := (group_members t)(g := None)\<rparr>"
  have "abs_groups t' = (abs_groups t)\<lparr>owner := (owner (abs_groups t))(g := None),
      mem := (mem (abs_groups t))(g := {})\<rparr>"
    by (auto simp: t' abs_groups_def fun_eq_iff)
  with g spec_step.dissolve [of "abs_groups t" g u] show ?thesis by simp
qed simp

text \<open>The other operations leave groups alone.\<close>

lemma other_op_frames:
  assumes "group_inv t" and "logmap t sock = Some u"
  shows "upload_file input sock t = Inr (t', a) \<Longrightarrow> same_groups t t' \<and> same_sessions t t'"
    and "download_file input sock t = (t', a, o') \<Longrightarrow> same_groups t t' \<and> same_sessions t t'"
    and "stop_share input sock t = (t', a) \<Longrightarrow> same_groups t t' \<and> same_sessions t t'"
    and "file_details input t = Inr t' \<Longrightarrow> same_groups t t' \<and> same_sessions t t'"
    and "download_completed input sock t = Inr t' \<Longrightarrow> same_groups t t' \<and> same_sessions t t'"
    and "logout input sock t = (t', a) \<Longrightarrow> same_groups t t' \<and> same_files t t'"
proof -
  have [simp]: "group_owner t h = Some y \<Longrightarrow> mtouch [] (group_members t) h = group_members t" for h y
    using group_inv_mtouch [OF assms(1)] by simp
  show "upload_file input sock t = Inr (t', a) \<Longrightarrow> same_groups t t' \<and> same_sessions t t'"
    by (drule upload_file_result [OF assms]) (auto simp: frame_defs)
  show "download_file input sock t = (t', a, o') \<Longrightarrow> same_groups t t' \<and> same_sessions t t'"
    using assms(2) by (auto simp: download_file_def frame_defs Let_def split: if_splits)
  show "stop_share input sock t = (t', a) \<Longrightarrow> same_groups t t' \<and> same_sessions t t'"
    by (drule stop_share_result [OF assms(2)]) (auto simp: frame_defs)
  show "file_details input t = Inr t' \<Longrightarrow> same_groups t t' \<and> same_sessions t t'"
    by (auto simp: frame_defs elim: file_details_result)
  show "download_completed input sock t = Inr t' \<Longrightarrow> same_groups t t' \<and> same_sessions t t'"
    by (auto simp: frame_defs elim: download_completed_result [OF assms(2)])
  show "logout input sock t = (t', a) \<Longrightarrow> same_groups t t' \<and> same_files t t'"
    by (auto simp: logout_def frame_defs split: if_splits)
qed

lemmas other_ops_abs = other_op_frames [THEN conjunct1, THEN abs_groups_same]

lemma member_command_refines:
  assumes "group_inv t" and "logmap t sock = Some u"
    and "member_command order t sock input = Inr (t', out)"
  shows "spec_step u (abs_groups t) (abs_groups t') \<or> abs_groups t' = abs_groups t"
  using assms(2,3)
proof (cases rule: member_command_cases)
  case list_requests
  then show ?thesis
    using assms(2) by (auto simp: list_requests_def abs_groups_def Let_def split: if_splits)
next
  case create_group
  then show ?thesis by (rule create_group_refines [OF assms(1,2)])
next
  case join_group
  then show ?thesis by (rule join_group_refines [OF assms(1,2)])
next
  case leave_group
  then show ?thesis by (rule leave_group_refines [OF assms(1,2)])
next
  case accept_request
  then show ?thesis by (rule accept_request_refines [OF assms(2)])
qed (simp_all add: other_ops_abs [OF assms(1,2)])

lemma handle_command_refines:
  assumes "group_inv t" and "handle_command order t sock input = Inr (t', out)"
  shows "(\<exists>u. logmap t sock = Some u \<and> spec_step u (abs_groups t) (abs_groups t')) \<or>
         abs_groups t' = abs_groups t"
  using assms(2)
proof (cases rule: handle_command_cases)
  case create_peer
  then show ?thesis by (auto simp: create_peer_def abs_groups_def split: if_splits)
next
  case login
  then show ?thesis by (auto simp: login_def abs_groups_def Let_def split: if_splits)
qed (use member_command_refines [OF assms(1)] in blast)+

interpretation tracker_groups:
  refinement "\<lambda>s. s = server_init" server_step "\<lambda>sv. tracker_inv (tstate sv)"
    "\<lambda>s. s = group_spec_init" "\<lambda>s s'. \<exists>u. spec_step u s s'" "\<lambda>sv. abs_groups (tstate sv)"
proof unfold_locales
  show "sv = server_init \<Longrightarrow> abs_groups (tstate sv) = group_spec_init" for sv
    by (simp add: server_init_def tracker_init_def abs_groups_def group_spec_init_def)
next
  fix sv sv' assume inv: "tracker_inv (tstate sv)" and step: "server_step sv sv'"
  have g: "group_inv (tstate sv)" using inv by (simp add: tracker_inv_def)
  have hello: "abs_groups t' = abs_groups t" if "hello b j s t = Inr t'" for b j s t t'
    using that by (auto simp: hello_def abs_groups_def Let_def split: sum.splits)
  from step show "(\<exists>u. spec_step u (abs_groups (tstate sv)) (abs_groups (tstate sv'))) \<or>
      abs_groups (tstate sv') = abs_groups (tstate sv)"
    by (cases rule: server_step.cases)
      (auto simp: greet_def serve_def peer_input_def split: sum.splits prod.splits
         dest: hello handle_command_refines [OF g])
qed

end
