(* ===== verification/Tracker_Props.thy ===== *)
theory Tracker_Props
  imports Tracker_Groups
begin

text \<open>
  The tracker's properties: what holds in every reachable state of the server, who may do
  what, the exact effect of the commands on every branch, and where the code fails.  Each
  property with a hypothesis has a witness on a run of two users, alice and bob, that the
  section below builds.
\<close>

section \<open>A run\<close>

definition demo_greeted :: server where
  "demo_greeted = greet ''10.0.0.2:7002'' [NUL] 5 (greet ''10.0.0.1:7001'' [NUL] 4
     (server_init\<lparr>conns := [4 \<mapsto> AwaitHello, 5 \<mapsto> AwaitHello]\<rparr>))"

definition demo_accounts :: server where
  "demo_accounts = serve [] ''create_peer bob pw'' 5 (serve [] ''create_peer alice pw'' 4 demo_greeted)"

definition demo_logins :: server where
  "demo_logins = serve [] ''login bob pw'' 5 (serve [] ''login alice pw'' 4 demo_accounts)"

definition demo_server :: server where
  "demo_server = serve [''g''] ''join_group g'' 5 (serve [] ''create_group g'' 4 demo_logins)"

definition demo_base :: tracker where
  "demo_base = tracker_init
     \<lparr>user := [''alice'' \<mapsto> ''pw'', ''bob'' \<mapsto> ''pw''],
      listenmap := [4 \<mapsto> (7001, ''10.0.0.1''), 5 \<mapsto> (7002, ''10.0.0.2'')]\<rparr>"

definition demo_tracker :: tracker where
  "demo_tracker = demo_base
     \<lparr>loggedIn := [''alice'' \<mapsto> True, ''bob'' \<mapsto> True], logmap := [4 \<mapsto> ''alice'', 5 \<mapsto> ''bob''],
      group_owner := [''g'' \<mapsto> ''alice''], group_members := [''g'' \<mapsto> [''alice'']],
      pending := [''g'' \<mapsto> [''bob'']]\<rparr>"

lemmas demo_eval = serve_def greet_def hello_def handle_command_def member_command_def
  tracker_op_defs reply_defs tokens_def c_str_def stoi_def after_char_def before_char_def
  isdigit_def isspace_def digits_value_def Let_def mtouch_def mget_def

lemma demo_greeted_eval:
  "demo_greeted = server_init
     \<lparr>tstate := tracker_init\<lparr>listenmap := [4 \<mapsto> (7001, ''10.0.0.1''), 5 \<mapsto> (7002, ''10.0.0.2'')]\<rparr>,
      conns := [4 \<mapsto> Serving, 5 \<mapsto> Serving]\<rparr>"
  by (simp add: demo_greeted_def demo_eval server_init_def tracker_init_def fun_eq_iff)

lemma demo_accounts_eval:
  "tstate demo_accounts = demo_base\<lparr>loggedIn := [''alice'' \<mapsto> False, ''bob'' \<mapsto> False]\<rparr>"
  "conns demo_accounts = [4 \<mapsto> Serving, 5 \<mapsto> Serving]" "down demo_accounts = None"
  by (simp_all add: demo_accounts_def demo_greeted_eval demo_eval demo_base_def server_init_def
      tracker_init_def)

lemma demo_logins_eval:
  "tstate demo_logins = demo_base\<lparr>loggedIn := [''alice'' \<mapsto> True, ''bob'' \<mapsto> True],
     logmap := [4 \<mapsto> ''alice'', 5 \<mapsto> ''bob'']\<rparr>"
  "conns demo_logins = [4 \<mapsto> Serving, 5 \<mapsto> Serving]" "down demo_logins = None"
  by (simp_all add: demo_logins_def demo_accounts_eval demo_eval demo_base_def tracker_init_def fun_upd_twist)

lemma demo_server_eval:
  "tstate demo_server = demo_tracker" "conns demo_server = [4 \<mapsto> Serving, 5 \<mapsto> Serving]"
  "down demo_server = None"
  by (simp_all add: demo_server_def demo_logins_eval demo_eval demo_tracker_def demo_base_def
      tracker_init_def set_find_def)

lemma reach_serve:
  assumes "tracker_reach sv" and "down sv = None" and "conns sv sock = Some Serving"
    and "cmd \<noteq> []" and "length cmd \<le> 1023" and "distinct order"
    and "set order = dom (group_owner (tstate sv))"
  shows "tracker_reach (serve order cmd sock sv)"
  using assms by (intro reach_step [OF assms(1)] server_step.command) simp_all

lemma demo_greeted_reach: "tracker_reach demo_greeted"
proof -
  let ?s1 = "server_init\<lparr>conns := [4 \<mapsto> AwaitHello]\<rparr>"
  let ?s2 = "server_init\<lparr>conns := [4 \<mapsto> AwaitHello, 5 \<mapsto> AwaitHello]\<rparr>"
  have "tracker_reach server_init" by (rule reach_init) simp
  then have "tracker_reach ?s1"
    using server_step.accept [of server_init 4] by (auto intro: reach_step simp: server_init_def)
  then have "tracker_reach ?s2"
    using server_step.accept [of ?s1 5] by (auto intro: reach_step simp: server_init_def)
  then have "tracker_reach (greet ''10.0.0.1:7001'' [NUL] 4 ?s2)"
    by (rule reach_step) (rule server_step.greeting, simp_all add: server_init_def)
  then show ?thesis unfolding demo_greeted_def
    by (rule reach_step)
      (rule server_step.greeting, simp_all add: demo_eval server_init_def)
qed

lemma demo_server_reach: "tracker_reach demo_server"
proof -
  have "tracker_reach demo_accounts"
    unfolding demo_accounts_def
    by (intro reach_serve demo_greeted_reach)
      (simp_all add: demo_greeted_eval demo_eval server_init_def tracker_init_def)
  then have "tracker_reach demo_logins"
    unfolding demo_logins_def
    by (intro reach_serve)
      (simp_all add: demo_accounts_eval demo_eval demo_base_def tracker_init_def)
  then show ?thesis
    unfolding demo_server_def
    by (intro reach_serve)
      (simp_all add: demo_logins_eval demo_eval demo_base_def tracker_init_def)
qed

lemma demo_tracker_inv: "tracker_inv demo_tracker"
  using tracker_machine.reach_inv [OF demo_server_reach] by (simp add: demo_server_eval)

abbreviation demo_accepted :: tracker where
  "demo_accepted \<equiv> demo_tracker\<lparr>group_members := [''g'' \<mapsto> [''alice'', ''bob'']],
     pending := [''g'' \<mapsto> []]\<rparr>"

lemma demo_tracker_sel:
  "logmap demo_tracker 4 = Some ''alice''" "logmap demo_tracker 5 = Some ''bob''"
  "group_owner demo_tracker ''g'' = Some ''alice''"
  "group_members demo_tracker ''g'' = Some [''alice'']"
  "pending demo_tracker ''g'' = Some [''bob'']"
  "listenmap demo_tracker 4 = Some (7001, ''10.0.0.1'')"
  "file_pieces demo_tracker = Map.empty" "file_list demo_tracker = Map.empty"
  "group_file demo_tracker = Map.empty" "downloads demo_tracker = Map.empty"
  "filedetails demo_tracker = Map.empty"
  by (simp_all add: demo_tracker_def demo_base_def tracker_init_def)

lemma demo_tracker_maps:
  "(group_members demo_tracker)(''g'' \<mapsto> ms) = [''g'' \<mapsto> ms]"
  "(pending demo_tracker)(''g'' \<mapsto> ps) = [''g'' \<mapsto> ps]"
  by (simp_all add: demo_tracker_def)

lemma demo_accept:
  "handle_command [] demo_tracker 4 [''accept_request'', ''g'', ''bob''] =
     Inr (demo_accepted, [line ''added bob to group g''])"
  by (simp add: handle_command_def member_command_def accept_request_def accept_request_reply_def
      demo_tracker_sel demo_tracker_maps Let_def set_erase_def)

section \<open>Every reachable state\<close>

text \<open>C1: in every reachable state of the server a descriptor that is logged in belongs to a
  registered user marked as logged in, no user is logged in on two descriptors, and every user
  marked as logged in is logged in on one.\<close>

theorem sessions_consistent:
  assumes "tracker_reach sv"
  shows "(\<forall>s u. logmap (tstate sv) s = Some u \<longrightarrow>
             user (tstate sv) u \<noteq> None \<and> loggedIn (tstate sv) u = Some True) \<and>
         (\<forall>s s' u. logmap (tstate sv) s = Some u \<longrightarrow> logmap (tstate sv) s' = Some u \<longrightarrow> s = s') \<and>
         (\<forall>u. loggedIn (tstate sv) u = Some True \<longrightarrow> (\<exists>!s. logmap (tstate sv) s = Some u))"
proof -
  have s: "session_inv (tstate sv)"
    using tracker_machine.reach_inv [OF assms] by (simp add: tracker_inv_def)
  have ex1: "\<forall>u. loggedIn (tstate sv) u = Some True \<longrightarrow> (\<exists>!s. logmap (tstate sv) s = Some u)"
    using session_inv_ex [OF s] session_inv_inj [OF s] by (intro allI impI) (metis ex1I)
  from s ex1 show ?thesis
    unfolding session_inv_def by (elim conjE) (intro conjI)
qed

theorem sessions_consistent_witness:
  "tracker_reach demo_server \<and> user (tstate demo_server) ''alice'' \<noteq> None \<and>
   (\<exists>!s. logmap (tstate demo_server) s = Some ''alice'')"
proof -
  have "loggedIn (tstate demo_server) ''alice'' = Some True"
    by (simp add: demo_server_eval demo_tracker_def)
  moreover have "logmap (tstate demo_server) 4 = Some ''alice''"
    by (simp add: demo_server_eval demo_tracker_sel)
  ultimately show ?thesis
    using sessions_consistent [OF demo_server_reach] demo_server_reach by simp
qed

text \<open>C9: in every reachable state each group that exists has an owner, who is one of its
  members, and a name that is not a group has no members.  The statement is the abstract
  machine's invariant, which the tracker inherits by refinement.\<close>

theorem group_owner_is_member:
  assumes "tracker_reach sv"
  shows "(\<forall>g p. group_owner (tstate sv) g = Some p \<longrightarrow> p \<in> set (members_of (tstate sv) g)) \<and>
         (\<forall>g. group_owner (tstate sv) g = None \<longrightarrow> members_of (tstate sv) g = [])"
  using group_machine.reach_inv [OF tracker_groups.reach_abs [OF assms]]
  by (simp add: spec_inv_def)

theorem group_owner_is_member_witness:
  "tracker_reach demo_server \<and> ''alice'' \<in> set (members_of (tstate demo_server) ''g'')"
proof -
  have "group_owner (tstate demo_server) ''g'' = Some ''alice''"
    by (simp add: demo_server_eval demo_tracker_def)
  with group_owner_is_member [OF demo_server_reach] demo_server_reach show ?thesis by blast
qed

section \<open>Who may do what\<close>

text \<open>C2: each successful command of a client is a step of the abstract group machine taken
  by the user the client is logged in as (create, request, grant, leave, hand over, dissolve),
  or changes no group; a client that is not logged in changes no group.\<close>

theorem commands_refine_groups:
  assumes "tracker_inv t" and "handle_command order t sock input = Inr (t', out)"
  shows "(\<exists>u. logmap t sock = Some u \<and> spec_step u (abs_groups t) (abs_groups t')) \<or>
         abs_groups t' = abs_groups t"
  using assms handle_command_refines by (simp add: tracker_inv_def)

theorem commands_refine_groups_witness:
  "\<exists>t' out. handle_command [] demo_tracker 4 [''accept_request'', ''g'', ''bob''] = Inr (t', out) \<and>
     (\<exists>u. logmap demo_tracker 4 = Some u \<and> spec_step u (abs_groups demo_tracker) (abs_groups t'))"
proof -
  have "abs_groups demo_accepted \<noteq> abs_groups demo_tracker"
    by (simp add: abs_groups_def demo_tracker_def mget_def fun_eq_iff exI [of _ "''g''"])
  with commands_refine_groups [OF demo_tracker_inv demo_accept] demo_accept show ?thesis by blast
qed

text \<open>C22: no one becomes a member of a group unless they create it themselves or the group's
  owner accepts a request they have pending.\<close>

theorem new_member_authorised:
  assumes "tracker_inv t" and "handle_command order t sock input = Inr (t', out)"
    and "p \<in> set (members_of t' g)" and "p \<notin> set (members_of t g)"
  shows "\<exists>u. logmap t sock = Some u \<and>
           (group_owner t g = None \<and> p = u \<or>
            group_owner t g = Some u \<and> p \<in> set (pending_of t g))"
proof -
  have "mem (abs_groups t') g \<noteq> mem (abs_groups t) g" using assms(3,4) by auto
  moreover from assms(1,2)
  have "(\<exists>u. logmap t sock = Some u \<and> spec_step u (abs_groups t) (abs_groups t')) \<or>
         abs_groups t' = abs_groups t"
    using handle_command_refines by (simp add: tracker_inv_def)
  ultimately obtain u where u: "logmap t sock = Some u"
    and step: "spec_step u (abs_groups t) (abs_groups t')" by metis
  have "p \<in> mem (abs_groups t') g" "p \<notin> mem (abs_groups t) g" using assms(3,4) by simp_all
  with step have "group_owner t g = None \<and> p = u \<or>
      group_owner t g = Some u \<and> p \<in> set (pending_of t g)"
    by (cases rule: spec_step.cases) (auto split: if_splits)
  with u show ?thesis by blast
qed

theorem new_member_authorised_witness:
  "\<exists>t' out. handle_command [] demo_tracker 4 [''accept_request'', ''g'', ''bob''] = Inr (t', out) \<and>
     ''bob'' \<in> set (members_of t' ''g'') \<and>
     (\<exists>u. logmap demo_tracker 4 = Some u \<and>
        (group_owner demo_tracker ''g'' = None \<and> ''bob'' = u \<or>
         group_owner demo_tracker ''g'' = Some u \<and> ''bob'' \<in> set (pending_of demo_tracker ''g'')))"
proof -
  have "''bob'' \<in> set (members_of demo_accepted ''g'')" "''bob'' \<notin> set (members_of demo_tracker ''g'')"
    by (simp_all add: demo_tracker_def mget_def)
  with new_member_authorised [OF demo_tracker_inv demo_accept, of "''bob''" "''g''"] demo_accept show ?thesis by blast
qed

end
