(* ===== verification/Tracker_Behaviour.thy ===== *)
theory Tracker_Behaviour
  imports Tracker_Props
begin

text \<open>
  What the tracker's commands do, branch by branch: logging in, uploading and looking up
  pieces, ending a share, leaving a group, the faults that end the process and the commands
  the client gets no answer to; and two places where state outlives what it belongs to, the
  session of a closed connection and the requests and files of a dissolved group.
\<close>

section \<open>Logging in\<close>

lemma member_command_logmap:
  assumes "tracker_inv t" and "logmap t sock = Some u"
    and "member_command order t sock input = Inr (t', out)" and "logmap t' s = Some v"
  shows "logmap t s = Some v"
proof -
  have g: "group_inv t" using assms(1) by (simp add: tracker_inv_def)
  note same = group_op_frames [OF assms(2)] other_op_frames [OF g assms(2)]
  from assms(2,3) show ?thesis
  proof (cases rule: member_command_cases)
    case logout
    then show ?thesis using assms(4) by (auto simp: logout_def split: if_splits)
  qed (use assms(4) same in \<open>simp_all add: same_sessions_def\<close>)
qed

text \<open>C24: a descriptor comes to be logged in as a user only by a login command on it, with
  the password registered for that user, while it was not logged in.\<close>

theorem login_needs_password:
  assumes "tracker_inv t" and "handle_command order t sock input = Inr (t', out)"
    and "logmap t' s = Some u" and "logmap t s \<noteq> Some u"
  shows "s = sock \<and> logmap t sock = None \<and> (\<exists>pw. input = [''login'', u, pw] \<and> user t u = Some pw)"
  using assms(2)
proof (cases rule: handle_command_cases)
  case create_peer
  with assms(3,4) show ?thesis by (auto simp: create_peer_def split: if_splits)
next
  case (login l)
  show ?thesis
  proof (cases "l = 1")
    case True
    note ok = login_success [OF login(3) [unfolded True]]
    with assms(3,4) have "s = sock" "u = input ! 1" by (auto split: if_splits)
    moreover have "input = [input ! 0, input ! 1, input ! 2]"
      using ok(1) by (auto simp: length_Suc_conv numeral_3_eq_3)
    ultimately show ?thesis using ok(2,4) login(2) by metis
  next
    case False
    with login_failure(2) [OF login(3)] assms(3,4) show ?thesis by simp
  qed
next
  case member
  with member_command_logmap [OF assms(1)] assms(3,4) show ?thesis by blast
next
  case refused
  with assms(3,4) show ?thesis by simp
qed

theorem login_needs_password_witness:
  "\<exists>t' out. handle_command [] (tstate demo_accounts) 4 [''login'', ''alice'', ''pw''] = Inr (t', out) \<and>
     logmap t' 4 = Some ''alice'' \<and> user (tstate demo_accounts) ''alice'' = Some ''pw''"
proof -
  let ?t = "demo_base\<lparr>loggedIn := [''alice'' \<mapsto> False, ''bob'' \<mapsto> False]\<rparr>"
  let ?t' = "?t\<lparr>loggedIn := [''alice'' \<mapsto> True, ''bob'' \<mapsto> False], logmap := [4 \<mapsto> ''alice'']\<rparr>"
  have inv: "tracker_inv ?t"
    by (simp add: tracker_inv_def session_inv_def group_inv_def file_inv_def demo_base_def tracker_init_def)
  have h: "handle_command [] ?t 4 [''login'', ''alice'', ''pw''] = Inr (?t', [line ''Logged in''])"
    by (simp add: handle_command_def login_def login_reply_def demo_base_def tracker_init_def
        Let_def fun_upd_twist)
  have l: "logmap ?t' 4 = Some ''alice''" "logmap ?t 4 \<noteq> Some ''alice''"
    by (simp_all add: demo_base_def tracker_init_def)
  from login_needs_password [OF inv h l] have "user ?t ''alice'' = Some ''pw''" by simp
  with h l(1) show ?thesis unfolding demo_accounts_eval by blast
qed

text \<open>An account created with a password can be logged into, from a descriptor that is
  not logged in, with that password and with no other.\<close>

theorem account_round_trip:
  assumes "tracker_inv t" and "create_peer [c, n, pw] t = (t1, 1)" and "logmap t sock = None"
  shows "snd (login [l, n, pw'] sock t1) = (if pw' = pw then 1 else 0)"
proof -
  have new: "user t n = None" and t1: "user t1 n = Some pw" "logmap t1 = logmap t"
    using assms(2) by (auto simp: create_peer_def split: if_splits)
  have s: "session_inv t" using assms(1) by (simp add: tracker_inv_def)
  have "loggedIn t n \<noteq> Some True"
    using session_inv_ex [OF s] session_inv_user [OF s] new by blast
  then have "mget False (loggedIn t1) n = False"
    using assms(2) by (auto simp: create_peer_def mget_def split: if_splits option.splits)
  with t1 assms(3) show ?thesis by (simp add: login_def Let_def)
qed

theorem account_round_trip_witness:
  "snd (create_peer [''create_peer'', ''carol'', ''secret''] demo_tracker) = 1 \<and>
   snd (login [''login'', ''carol'', ''secret''] 6
     (fst (create_peer [''create_peer'', ''carol'', ''secret''] demo_tracker))) = 1"
proof -
  have u: "user demo_tracker ''carol'' = None" "logmap demo_tracker 6 = None"
    by (simp_all add: demo_tracker_def demo_base_def)
  obtain t1 where c: "create_peer [''create_peer'', ''carol'', ''secret''] demo_tracker = (t1, 1)"
    using u by (simp add: create_peer_def)
  from account_round_trip [OF demo_tracker_inv c u(2), of "''login''" "''secret''"] c show ?thesis
    by simp
qed

section \<open>Uploading\<close>

definition source_of :: "tracker \<Rightarrow> int \<Rightarrow> string \<Rightarrow> string \<Rightarrow> file_info" where
  "source_of t sock path h =
     \<lparr>peername = name_of t sock, client_port = fst (mget (0, []) (listenmap t) sock),
      client_ip = snd (mget (0, []) (listenmap t) sock), file_path = path, hash = h\<rparr>"

lemma add_source_filter:
  "filter (\<lambda>p. piecenumber p \<noteq> n) (add_source f n fi ps) = filter (\<lambda>p. piecenumber p \<noteq> n) ps"
  by (induction ps) auto

lemma add_source_found:
  assumes "\<forall>p \<in> set ps. sorted_wrt file_info_less (sources p)"
  shows "\<exists>p \<in> set (add_source f n fi ps). piecenumber p = n \<and> set_find file_info_less fi (sources p)"
  using assms
proof (induction ps)
  case Nil
  then show ?case by (simp add: file_info_set.find_iff file_info_set.irrefl)
next
  case (Cons p ps)
  then show ?case by (auto simp: file_info_set.find_insert)
qed

lemma distinct_numbers_unique:
  "distinct (map piecenumber ps) \<Longrightarrow> p \<in> set ps \<Longrightarrow> q \<in> set ps \<Longrightarrow> piecenumber p = piecenumber q \<Longrightarrow> p = q"
  by (auto simp: distinct_map inj_on_def)

text \<open>C25: an upload that the tracker confirms has its file listed in the group, and the piece
  it names has, as the only piece with that number, the uploader's address and path among its
  sources; no other piece and no other file's pieces change.\<close>

theorem upload_recorded:
  assumes "tracker_inv t" and "logmap t sock = Some u"
    and "upload_file [c, path, g, num, h] sock t = Inr (t', 0)"
  shows "\<exists>n. stoi num = Inr n \<and> base_name path \<in> set (files_of t' g) \<and>
           (\<exists>!p. p \<in> set (pieces_of t' (base_name path)) \<and> piecenumber p = n) \<and>
           (\<exists>p \<in> set (pieces_of t' (base_name path)). piecenumber p = n \<and>
              set_find file_info_less (source_of t sock path h) (sources p)) \<and>
           filter (\<lambda>p. piecenumber p \<noteq> n) (pieces_of t' (base_name path)) =
             filter (\<lambda>p. piecenumber p \<noteq> n) (pieces_of t (base_name path)) \<and>
           (\<forall>f. f \<noteq> base_name path \<longrightarrow> pieces_of t' f = pieces_of t f)"
proof -
  let ?f = "base_name path" and ?fi = "source_of t sock path h"
  have g: "group_inv t" and f: "file_inv t" using assms(1) by (simp_all add: tracker_inv_def)
  from upload_file_result [OF g assms(2,3)] assms(2)
  obtain n where n: "stoi num = Inr n"
    and ps: "file_pieces t' = (file_pieces t)(?f \<mapsto> add_source ?f n ?fi (pieces_of t ?f))"
    and gf: "group_file t' = (group_file t)(g \<mapsto> string_insert ?f (files_of t g))"
    by (auto simp: source_of_def)
  have "\<forall>p \<in> set (pieces_of t ?f). sorted_wrt file_info_less (sources p)"
    using file_inv_piece [OF f] by (auto simp: piece_ok_def)
  from add_source_found [OF this, of ?f n ?fi]
  obtain p where p: "p \<in> set (pieces_of t' ?f)" "piecenumber p = n" "set_find file_info_less ?fi (sources p)"
    by (auto simp: ps)
  have "distinct (map piecenumber (pieces_of t' ?f))"
    by (simp add: ps add_source_distinct file_inv_distinct [OF f])
  then have "\<exists>!p. p \<in> set (pieces_of t' ?f) \<and> piecenumber p = n"
    using p distinct_numbers_unique by (intro ex1I [of _ p]) auto
  with n p show ?thesis by (auto simp: ps gf add_source_filter)
qed

lemma demo_upload:
  "upload_file [''upload_file'', ''/d/f'', ''g'', ''0'', ''h0''] 4 demo_tracker =
     Inr (demo_tracker
       \<lparr>file_pieces := [''f'' \<mapsto> [\<lparr>file_name = ''f'', piecenumber = 0, sources =
           [\<lparr>peername = ''alice'', client_port = 7001, client_ip = ''10.0.0.1'',
             file_path = ''/d/f'', hash = ''h0''\<rparr>]\<rparr>]],
        file_list := [''f'' \<mapsto> [\<lparr>peername = ''alice'', client_port = 7001, client_ip = ''10.0.0.1'',
             file_path = ''/d/f'', hash = ''h0''\<rparr>]],
        group_file := [''g'' \<mapsto> [''f'']]\<rparr>, 0)"
  by (simp add: upload_file_def demo_tracker_sel Let_def base_name_def is_sep_def stoi_def
      isspace_def isdigit_def digits_value_def)

theorem upload_recorded_witness:
  "\<exists>t'. upload_file [''upload_file'', ''/d/f'', ''g'', ''0'', ''h0''] 4 demo_tracker = Inr (t', 0) \<and>
     base_name ''/d/f'' \<in> set (files_of t' ''g'')"
  using upload_recorded [OF demo_tracker_inv demo_tracker_sel(1) demo_upload] demo_upload by blast

text \<open>An upload from an address and path that already share the piece leaves the piece's
  sources as they are, the recorded hash included, whatever hash the upload names.\<close>

lemma reupload_keeps_hash:
  assumes "tracker_inv t" and "p \<in> set (pieces_of t f)" and "set_find file_info_less fi (sources p)"
  shows "add_source f (piecenumber p) fi (pieces_of t f) = pieces_of t f"
proof -
  have f: "file_inv t" using assms(1) by (simp add: tracker_inv_def)
  have keep: "add_source f n fi ps = ps"
    if "q \<in> set ps" "piecenumber q = n" "set_insert file_info_less fi (sources q) = sources q"
       "distinct (map piecenumber ps)" for q n ps
    using that
  proof (induction ps)
    case (Cons r ps)
    then show ?case by (cases "r = q") (auto simp: rev_image_eqI)
  qed simp
  have "set_insert file_info_less fi (sources p) = sources p"
    using file_inv_piece [OF f assms(2)] assms(3)
    by (simp add: piece_ok_def file_info_set.insert_present)
  with assms(2) file_inv_distinct [OF f] show ?thesis by (intro keep [of p]) auto
qed

abbreviation demo_shared :: tracker where
  "demo_shared \<equiv> demo_tracker
     \<lparr>file_pieces := [''f'' \<mapsto> [\<lparr>file_name = ''f'', piecenumber = 0, sources =
         [\<lparr>peername = ''alice'', client_port = 7001, client_ip = ''10.0.0.1'',
           file_path = ''/d/f'', hash = ''h0''\<rparr>]\<rparr>]],
      file_list := [''f'' \<mapsto> [\<lparr>peername = ''alice'', client_port = 7001, client_ip = ''10.0.0.1'',
           file_path = ''/d/f'', hash = ''h0''\<rparr>]],
      group_file := [''g'' \<mapsto> [''f'']]\<rparr>"

lemma demo_shared_inv: "tracker_inv demo_shared"
  by (rule upload_file_inv [OF demo_tracker_inv demo_tracker_sel(1) demo_upload])

lemma reupload_keeps_hash_demo:
  "add_source ''f'' 0 (source_of demo_tracker 4 ''/d/f'' ''h1'') (pieces_of demo_shared ''f'') =
     pieces_of demo_shared ''f''"
  using reupload_keeps_hash [OF demo_shared_inv, where f = "''f''"
      and fi = "source_of demo_tracker 4 ''/d/f'' ''h1''"]
  by (simp add: source_of_def demo_tracker_sel file_info_set.find_iff file_info_less_def)

section \<open>Looking up and ending a share\<close>

text \<open>C26: a download command is answered with the recorded details and pieces of the file
  exactly when the group exists, lists the file and has the client's user among its members; a
  user who is not a member gets no answer at all.  The file's pieces do not change, and the file
  enters the user's history with the state C (complete) at once.\<close>

theorem download_answer:
  assumes "tracker_inv t" and "logmap t sock = Some u"
    and "handle_command order t sock [''download_file'', g, f, d] = Inr (t', out)"
  shows "out = (if group_owner t g = None then [line ''No such group exists'']
                else if u \<notin> set (members_of t g) then []
                else if f \<notin> set (files_of t g) then [line ''No such file in group'']
                else [peerdetails (mget (0, []) (filedetails t) f) (pieces_of t f)]) \<and>
         (\<forall>h. pieces_of t' h = pieces_of t h) \<and>
         (u \<in> set (members_of t g) \<and> f \<in> set (files_of t g) \<longrightarrow>
            group_owner t g \<noteq> None \<and> (f, ''C'', g) \<in> set (downloads_of t' u))"
proof -
  have g: "group_inv t" using assms(1) by (simp add: tracker_inv_def)
  have "member_command order t sock [''download_file'', g, f, d] = Inr (t', out)"
    using assms(2,3) by (simp add: handle_command_def)
  then have dl: "(case download_file [''download_file'', g, f, d] sock t of
      (t'', a, details) \<Rightarrow> (t'', download_file_reply a details)) = (t', out)"
    by (simp add: member_command_def split: prod.splits)
  consider "group_owner t g = None" | "group_owner t g \<noteq> None" "u \<notin> set (members_of t g)"
    | "group_owner t g \<noteq> None" "u \<in> set (members_of t g)" "f \<notin> set (files_of t g)"
    | "group_owner t g \<noteq> None" "u \<in> set (members_of t g)" "f \<in> set (files_of t g)" by blast
  then show ?thesis
    by cases (use dl assms(2) group_inv_no_members [OF g] in
        \<open>auto simp: download_file_def download_file_reply_def Let_def\<close>)
qed

theorem download_answer_witness:
  "\<exists>t'. handle_command [] demo_shared 4 [''download_file'', ''g'', ''f'', ''./'']
     = Inr (t', [peerdetails (0, []) (pieces_of demo_shared ''f'')])"
proof -
  obtain t' out where h: "handle_command [] demo_shared 4 [''download_file'', ''g'', ''f'', ''./''] = Inr (t', out)"
    by (cases "download_file [''download_file'', ''g'', ''f'', ''./''] 4 demo_shared")
      (simp add: handle_command_def member_command_def demo_tracker_sel)
  from download_answer [OF demo_shared_inv _ h, of "''alice''"] have "out = [peerdetails (0, []) (pieces_of demo_shared ''f'')]"
    by (simp add: demo_tracker_sel mget_def)
  with h show ?thesis by simp
qed

text \<open>C27: after a user stops sharing a listed file no source of the file is theirs; every other
  source stays, in its piece; if none is left the file's pieces are gone and the group no longer
  lists it, otherwise the group's list stays.\<close>

theorem stop_share_effect:
  assumes "logmap t sock = Some u" and "group_owner t g \<noteq> None" and "f \<in> set (files_of t g)"
    and "stop_share [c, g, f] sock t = (t', a)"
  shows "a = 0 \<and>
     (\<forall>p \<in> set (pieces_of t' f). \<forall>fi \<in> set (sources p). peername fi \<noteq> u) \<and>
     (if file_pieces t f \<noteq> None \<and> (\<forall>p \<in> set (pieces_of t f). \<forall>fi \<in> set (sources p). peername fi = u)
      then file_pieces t' f = None \<and> f \<notin> set (files_of t' g)
      else pieces_of t' f = map (drop_peer u) (pieces_of t f) \<and> files_of t' g = files_of t g) \<and>
     (\<forall>h. h \<noteq> f \<longrightarrow> pieces_of t' h = pieces_of t h)"
proof (cases "file_pieces t f")
  case None
  with assms show ?thesis by (auto simp: stop_share_def Let_def)
next
  case (Some ps)
  define b where "b \<longleftrightarrow> (\<forall>p \<in> set ps. \<forall>fi \<in> set (sources p). peername fi = u)"
  have "list_all (\<lambda>pc. sources pc = []) (map (drop_peer u) ps) = b"
    by (simp add: list_all_iff b_def filter_empty_conv)
  then have "a = 0" "t' = (if b
      then t\<lparr>group_file := (group_file t)(g \<mapsto> string_erase f (files_of t g)),
             file_pieces := (file_pieces t)(f := None)\<rparr>
      else t\<lparr>group_file := mtouch [] (group_file t) g,
             file_pieces := (file_pieces t)(f \<mapsto> map (drop_peer u) ps)\<rparr>)"
    using assms Some by (cases b; simp add: stop_share_def Let_def)+
  with Some show ?thesis by (cases b) (auto simp: b_def)
qed

theorem stop_share_effect_witness:
  "file_pieces (fst (stop_share [''stop_share'', ''g'', ''f''] 4 demo_shared)) ''f'' = None"
proof -
  obtain t' a where s: "stop_share [''stop_share'', ''g'', ''f''] 4 demo_shared = (t', a)"
    by (cases "stop_share [''stop_share'', ''g'', ''f''] 4 demo_shared")
  from stop_share_effect [OF _ _ _ s, of "''alice''"] s show ?thesis
    by (simp add: demo_tracker_sel)
qed

section \<open>Leaving a group\<close>

text \<open>C28: a member who leaves is no longer a member and the others stay; the owner's place goes
  to the least other member, and a group left by its only member ceases to exist.\<close>

theorem leave_group_effect:
  assumes "tracker_inv t" and "logmap t sock = Some u" and "leave_group [c, g] sock t = (t', 1)"
  shows "set (members_of t' g) = set (members_of t g) - {u} \<and>
         (if members_of t g = [u] then group_owner t' g = None \<and> group_members t' g = None
          else if group_owner t g = Some u
          then \<exists>q \<in> set (members_of t g) - {u}. group_owner t' g = Some q \<and>
                 (\<forall>r \<in> set (members_of t g) - {u}. q \<le> r)
          else group_owner t' g = group_owner t g)"
proof -
  have g: "group_inv t" using assms(1) by (simp add: tracker_inv_def)
  have least: "q \<le> r" if "new_owner u ms = Some q" "sorted_wrt (<) ms" "r \<in> set ms" "r \<noteq> u"
    for q r :: string and ms
    using that by (induction ms) (auto split: if_splits)
  have own: "members_of t g = [u] \<Longrightarrow> group_owner t g = Some p \<Longrightarrow> p = u" for p
    using group_inv_owner [OF g, of g p] by simp
  from leave_group_result [OF g assms(2,3)] show ?thesis
  proof (elim disjE exE conjE)
    fix g' p q
    assume i: "[c, g] = [[c, g] ! 0, g']" and p: "group_owner t g' = Some p" "p = u"
      and q: "new_owner u (members_of t g') = Some q"
      and t': "t' = t\<lparr>group_owner := (group_owner t)(g' \<mapsto> q),
          group_members := (group_members t)(g' \<mapsto> string_erase u (members_of t g'))\<rparr>"
    have "members_of t g \<noteq> [u]" using q i new_owner_None [of u "[u]"] by auto
    with i p t' new_owner_Some [OF q] least [OF q group_inv_members [OF g]] show ?thesis
      by (auto intro!: bexI [of _ q])
  qed (use own in auto)
qed

theorem leave_group_effect_witness:
  "group_owner (fst (leave_group [''leave_group'', ''g''] 4 demo_accepted)) ''g'' = Some ''bob''"
proof -
  have inv: "tracker_inv demo_accepted" by (rule handle_command_inv [OF demo_tracker_inv demo_accept])
  obtain t' where l: "leave_group [''leave_group'', ''g''] 4 demo_accepted = (t', 1)"
    by (simp add: leave_group_def demo_tracker_sel Let_def)
  have "mget [] [''g'' \<mapsto> [''alice'', ''bob'']] ''g'' = [''alice'', ''bob'']" by (simp add: mget_def)
  with leave_group_effect [OF inv _ l, of "''alice''"] l show ?thesis
    by (auto simp: demo_tracker_sel)
qed

section \<open>Faults and missing answers\<close>

lemma completed_loop_fault:
  "(\<exists>e. completed_loop f x ds rest = Inl e) \<longleftrightarrow>
     (\<exists>d \<in> set rest. fst d = f) \<or> rest \<noteq> [] \<and> hd rest < x \<and> x \<notin> set ds"
  if "fst x = f" "sorted_wrt (<) rest" "set rest \<subseteq> set ds"
proof (cases rest)
  case (Cons d r)
  have done_: "(\<exists>e. completed_loop f x ds' q = Inl e) \<longleftrightarrow> (\<exists>d \<in> set q. fst d = f)"
    if "x \<in> set ds'" for ds' q
    using that by (induction q) auto
  show ?thesis
  proof (cases "x \<in> set ds")
    case True
    then show ?thesis using done_ by simp
  next
    case False
    show ?thesis
      using Cons False that done_ [of "set_insert (<) x ds" "if d < x then set_insert (<) x r else r"]
      by auto
  qed
qed simp

text \<open>C29: the commands that end the tracker's process, for everyone: an empty command; from a
  logged-in client an upload, to a group it belongs to, whose piece number is not a number or
  does not fit an \<open>int\<close>; file details with too few words or such a size; and a report of a
  completed download with too few words or one whose loop erases the element it stands on.  No
  other command does.\<close>

theorem command_faults:
  "handle_command order t sock input = Inl e \<longleftrightarrow>
     input = [] \<and> e = BadIndex \<or>
     (\<exists>u. logmap t sock = Some u \<and>
        ((\<exists>path g num h. input = [''upload_file'', path, g, num, h] \<and> group_owner t g \<noteq> None \<and>
            u \<in> set (members_of t g) \<and> stoi num = Inl e) \<or>
         input \<noteq> [] \<and> input ! 0 = ''file_details'' \<and>
           (if length input < 4 then e = BadIndex else stoi (input ! 2) = Inl e) \<or>
         input \<noteq> [] \<and> input ! 0 = ''download_completed'' \<and>
           (if length input < 3 then e = BadIndex
            else completed_loop (input ! 2) (input ! 2, ''C'', input ! 1)
                   (downloads_of t u) (downloads_of t u) = Inl e)))"
proof -
  have up: "upload_file input sock t = Inl e \<longleftrightarrow>
      (\<exists>path g num h. input = [input ! 0, path, g, num, h] \<and> group_owner t g \<noteq> None \<and>
         u \<in> set (members_of t g) \<and> stoi num = Inl e)" if "logmap t sock = Some u" for u
  proof (cases "length input = 5")
    case True
    then obtain c path g num h where "input = [c, path, g, num, h]"
      by (auto simp: length_Suc_conv numeral_eq_Suc)
    with that show ?thesis by (auto simp: upload_file_def Let_def split: sum.splits)
  next
    case False
    then have "input \<noteq> [x, path, g, num, h]" for x path g num h by auto
    with False show ?thesis by (simp add: upload_file_def)
  qed
  have head: "input = [''upload_file'', path, g, num, h] \<longleftrightarrow>
      input = [input ! 0, path, g, num, h] \<and> input ! 0 = ''upload_file''" for path g num h
    by auto
  have member: "member_command order t sock input = Inl e \<longleftrightarrow>
      (input ! 0 = ''upload_file'' \<and> upload_file input sock t = Inl e) \<or>
      (input ! 0 = ''file_details'' \<and> file_details input t = Inl e) \<or>
      (input ! 0 = ''download_completed'' \<and> download_completed input sock t = Inl e)"
    unfolding member_command_def by (simp split: prod.splits sum.splits)
  have account: "input ! 0 = ''create_peer'' \<Longrightarrow> member_command order t sock input \<noteq> Inl e"
    "input ! 0 = ''login'' \<Longrightarrow> member_command order t sock input \<noteq> Inl e"
    by (simp_all add: member)
  have fd: "file_details input t = Inl e \<longleftrightarrow>
      (if length input < 4 then e = BadIndex else stoi (input ! 2) = Inl e)"
    by (auto simp: file_details_def split: sum.splits)
  have dc: "download_completed input sock t = Inl e \<longleftrightarrow>
      (if length input < 3 then e = BadIndex
       else completed_loop (input ! 2) (input ! 2, ''C'', input ! 1)
              (downloads_of t u) (downloads_of t u) = Inl e)" if "logmap t sock = Some u" for u
    using that by (auto simp: download_completed_def Let_def split: sum.splits)
  have h: "handle_command order t sock input = Inl e \<longleftrightarrow>
      input = [] \<and> e = BadIndex \<or> input \<noteq> [] \<and> logmap t sock \<noteq> None \<and>
        member_command order t sock input = Inl e"
    unfolding handle_command_def by (auto simp: account split: prod.splits)
  show ?thesis
  proof (cases "logmap t sock")
    case None
    then show ?thesis by (simp add: h)
  next
    case (Some u)
    show ?thesis unfolding h member up [OF Some] fd dc [OF Some] head using Some by auto
  qed
qed

lemma unanswered_command:
  assumes "handle_command order t sock input = Inr (t', out)" and "out = []"
  shows "\<exists>u. logmap t sock = Some u \<and>
     ((\<exists>g f d. input = [''download_file'', g, f, d] \<and> group_owner t g \<noteq> None \<and> u \<notin> set (members_of t g)) \<or>
      input = [''show_downloads''] \<and> downloads t u = Some [] \<or>
      input ! 0 = ''file_details'' \<or> input ! 0 = ''download_completed'')"
  using assms(1)
proof (cases rule: handle_command_cases)
  case (member u)
  have one: "input = [input ! 0]" if "length input = 1" using that by (cases input) auto
  have four: "\<exists>g f d. input = [input ! 0, g, f, d]" if "length input = 4"
    using that by (auto simp: length_Suc_conv numeral_eq_Suc)
  from member(3) assms(2) have
    "input ! 0 = ''download_file'' \<and> (\<exists>a d. download_file input sock t = (t', a, d) \<and> download_file_reply a d = []) \<or>
     input ! 0 = ''show_downloads'' \<and> (\<exists>a o'. show_downloads input sock t = (t', a, o') \<and> o' @ show_downloads_reply a = []) \<or>
     input ! 0 = ''file_details'' \<or> input ! 0 = ''download_completed'' \<or>
     input ! 0 = ''upload_file'' \<and> (\<exists>a. upload_file input sock t = Inr (t', a) \<and> upload_file_reply a = []) \<or>
     input ! 0 = ''stop_share'' \<and> (\<exists>a. stop_share input sock t = (t', a) \<and> stop_share_reply a = []) \<or>
     input ! 0 = ''list_files'' \<and> (\<exists>a o'. list_files input t = (t', a, o') \<and> o' @ list_files_reply a = []) \<or>
     input ! 0 = ''list_groups'' \<and> (\<exists>a o'. list_groups order input t = (t', a, o') \<and> o' @ list_groups_reply a = []) \<or>
     input ! 0 = ''list_requests'' \<and> (\<exists>a o'. list_requests input sock t = (t', a, o') \<and> o' @ list_requests_reply a = [])"
    unfolding member_command_def
    by (elim branchE)
      (simp_all add: create_group_reply_def join_group_reply_def leave_group_reply_def
        accept_request_reply_def logout_reply_def split: if_splits)
  then show ?thesis
  proof (elim disjE conjE exE)
    fix a d
    assume i: "input ! 0 = ''download_file''" and d: "download_file input sock t = (t', a, d)"
      "download_file_reply a d = []"
    have "length input = 4" "group_owner t (input ! 1) \<noteq> None" "u \<notin> set (members_of t (input ! 1))"
      using d member(2)
      by (auto simp: download_file_def download_file_reply_def Let_def split: if_splits)
    with four i member(2) show ?thesis by fastforce
  next
    fix a o'
    assume i: "input ! 0 = ''show_downloads''" and d: "show_downloads input sock t = (t', a, o')"
      "o' @ show_downloads_reply a = []"
    then show ?thesis
      using one member(2)
      by (auto simp: show_downloads_def show_downloads_reply_def Let_def split: if_splits option.splits)
  qed (use member(2) in \<open>auto simp: upload_file_def upload_file_reply_def stop_share_def
        stop_share_reply_def list_files_def list_files_reply_def list_groups_def
        list_groups_reply_def list_requests_def list_requests_reply_def Let_def
        split: if_splits option.splits sum.splits\<close>)
qed (use assms(2) in \<open>auto simp: create_peer_reply_def login_reply_def split: if_splits\<close>)

text \<open>C30: a command of a client that does not end the tracker is left without an answer exactly if
  it comes from a logged-in user and is a download from a group that exists and that the user is not a
  member of, a list of downloads where that list is present and empty, or one of the two reports the
  client expects no answer to.  Every other command is answered.\<close>

theorem commands_answered:
  assumes "handle_command order t sock input = Inr (t', out)"
  shows "out = [] \<longleftrightarrow>
     (\<exists>u. logmap t sock = Some u \<and>
        ((\<exists>g f d. input = [''download_file'', g, f, d] \<and> group_owner t g \<noteq> None \<and> u \<notin> set (members_of t g)) \<or>
         input = [''show_downloads''] \<and> downloads t u = Some [] \<or>
         input ! 0 = ''file_details'' \<or> input ! 0 = ''download_completed''))"
proof
  assume "out = []"
  with assms show "\<exists>u. logmap t sock = Some u \<and>
        ((\<exists>g f d. input = [''download_file'', g, f, d] \<and> group_owner t g \<noteq> None \<and> u \<notin> set (members_of t g)) \<or>
         input = [''show_downloads''] \<and> downloads t u = Some [] \<or>
         input ! 0 = ''file_details'' \<or> input ! 0 = ''download_completed'')"
    by (rule unanswered_command)
next
  assume "\<exists>u. logmap t sock = Some u \<and>
        ((\<exists>g f d. input = [''download_file'', g, f, d] \<and> group_owner t g \<noteq> None \<and> u \<notin> set (members_of t g)) \<or>
         input = [''show_downloads''] \<and> downloads t u = Some [] \<or>
         input ! 0 = ''file_details'' \<or> input ! 0 = ''download_completed'')"
  then obtain u where u: "logmap t sock = Some u" and
    "(\<exists>g f d. input = [''download_file'', g, f, d] \<and> group_owner t g \<noteq> None \<and> u \<notin> set (members_of t g)) \<or>
     input = [''show_downloads''] \<and> downloads t u = Some [] \<or>
     input ! 0 = ''file_details'' \<or> input ! 0 = ''download_completed''" by blast
  moreover have "input \<noteq> []" using assms by (auto simp: handle_command_def)
  ultimately show "out = []"
    using assms u
    by (auto simp: handle_command_def member_command_def download_file_def download_file_reply_def
        show_downloads_def show_downloads_reply_def Let_def split: if_splits sum.splits)
qed

theorem commands_answered_witness:
  "handle_command [] demo_shared 5 [''download_file'', ''g'', ''f'', ''./''] = Inr (demo_shared, []) \<and>
   ''bob'' \<notin> set (members_of demo_shared ''g'')"
proof -
  have h: "handle_command [] demo_shared 5 [''download_file'', ''g'', ''f'', ''./''] = Inr (demo_shared, [])"
    by (simp add: handle_command_def member_command_def demo_tracker_sel download_file_def
        download_file_reply_def Let_def)
  from commands_answered [OF h] h show ?thesis by (auto simp: demo_tracker_sel)
qed

section \<open>State that outlives its owner\<close>

text \<open>C38: closing a connection does not end its session.  The next client that is given the
  same descriptor is served as the user who left, from its own address, without a login, and
  until then that user's login is refused on every other descriptor.\<close>

theorem session_survives_disconnect:
  assumes "tracker_reach sv" and "down sv = None" and "running sv"
    and "conns sv sock = Some Serving" and "logmap (tstate sv) sock = Some u"
    and "hello bytes junk sock (tstate sv) = Inr t'"
    and "closed = sv\<lparr>conns := (conns sv)(sock := None)\<rparr>"
    and "reused = greet bytes junk sock (closed\<lparr>conns := (conns closed)(sock \<mapsto> AwaitHello)\<rparr>)"
  shows "tracker_reach closed \<and> tracker_reach reused \<and> conns reused sock = Some Serving \<and>
         logmap (tstate reused) sock = Some u \<and>
         (\<forall>s pw. logmap (tstate closed) s = None \<longrightarrow>
            snd (login [''login'', u, pw] s (tstate closed)) = 4)"
proof -
  have "session_inv (tstate sv)"
    using tracker_machine.reach_inv [OF assms(1)] by (simp add: tracker_inv_def)
  then have u: "loggedIn (tstate sv) u = Some True" using assms(5) by (rule session_inv_logged)
  have c: "tracker_reach closed"
    unfolding assms(7) by (rule reach_step [OF assms(1)]) (rule server_step.disconnect, fact+)
  let ?acc = "closed\<lparr>conns := (conns closed)(sock \<mapsto> AwaitHello)\<rparr>"
  have "tracker_reach ?acc"
    by (rule reach_step [OF c]) (rule server_step.accept, simp_all add: assms)
  then have "tracker_reach reused"
    unfolding assms(8) by (rule reach_step) (rule server_step.greeting, simp_all add: assms)
  moreover have "conns reused sock = Some Serving" "tstate reused = t'"
    using assms(6) by (simp_all add: assms(7,8) greet_def)
  moreover have "logmap t' = logmap (tstate sv)"
    using assms(6) by (auto simp: hello_def Let_def split: sum.splits)
  ultimately show ?thesis
    using c u assms(5) by (simp add: login_def Let_def assms(7))
qed

lemma demo_server_running: "running demo_server"
  by (simp add: demo_server_def demo_logins_def demo_accounts_def demo_greeted_eval serve_def
      server_init_def split: sum.splits prod.splits)

theorem session_survives_disconnect_witness:
  "\<exists>closed reused. tracker_reach closed \<and> tracker_reach reused \<and> conns closed 4 = None \<and>
     logmap (tstate reused) 4 = Some ''alice''"
proof -
  let ?closed = "demo_server\<lparr>conns := (conns demo_server)(4 := None)\<rparr>"
  obtain t' where h: "hello ''6.6.6.6:99'' [NUL] 4 (tstate demo_server) = Inr t'"
    by (simp add: hello_def c_str_def after_char_def stoi_def isspace_def isdigit_def digits_value_def Let_def)
  have d: "conns demo_server 4 = Some Serving" "logmap (tstate demo_server) 4 = Some ''alice''"
    by (simp_all add: demo_server_eval demo_tracker_sel)
  from session_survives_disconnect [OF demo_server_reach demo_server_eval(3) demo_server_running d h refl refl]
  show ?thesis
    by (intro exI [of _ ?closed] exI [of _ "greet ''6.6.6.6:99'' [NUL] 4
          (?closed\<lparr>conns := (conns ?closed)(4 \<mapsto> AwaitHello)\<rparr>)"]) simp
qed

text \<open>a group that its only member leaves and that someone creates again keeps the pending
  requests and the files of the group that ceased to exist; the creator, whoever it is, owns
  both.\<close>

lemma recreated_group_inherits:
  assumes "tracker_inv t" and "logmap t sock = Some u" and "members_of t g = [u]"
    and "leave_group [c, g] sock t = (t1, 1)"
    and "logmap t1 sock' = Some v" and "create_group [c', g] sock' t1 = (t2, 1)"
  shows "group_owner t2 g = Some v \<and> members_of t2 g = [v] \<and>
         pending_of t2 g = pending_of t g \<and> files_of t2 g = files_of t g"
proof -
  have g: "group_inv t" using assms(1) by (simp add: tracker_inv_def)
  have t1: "pending t1 = pending t" "group_file t1 = group_file t"
    using leave_group_result [OF g assms(2,4)] by auto
  have "group_inv t1" by (rule leave_group_inv [OF g assms(2,4)])
  from create_group_result [OF this assms(5,6)] t1 show ?thesis by auto
qed

lemma recreated_group_inherits_demo:
  "\<exists>t1 t2. leave_group [''leave_group'', ''g''] 4 demo_shared = (t1, 1) \<and>
     create_group [''create_group'', ''g''] 5 t1 = (t2, 1) \<and>
     pending_of t2 ''g'' = [''bob''] \<and> files_of t2 ''g'' = [''f'']"
proof -
  obtain t1 where l: "leave_group [''leave_group'', ''g''] 4 demo_shared = (t1, 1)"
    "logmap t1 5 = Some ''bob''" "group_owner t1 ''g'' = None"
    by (simp add: leave_group_def demo_tracker_sel Let_def)
  obtain t2 where c: "create_group [''create_group'', ''g''] 5 t1 = (t2, 1)"
    using l by (simp add: create_group_def Let_def)
  have "pending_of demo_shared ''g'' = [''bob'']" "files_of demo_shared ''g'' = [''f'']"
    "members_of demo_shared ''g'' = [''alice'']"
    by (simp_all add: demo_tracker_sel)
  with recreated_group_inherits [OF demo_shared_inv _ _ l(1,2) c, of "''alice''"] l(1) c show ?thesis
    by (simp add: demo_tracker_sel)
qed

text \<open>pieces are kept for each file name, not for each group.  Where two groups list a file,
  its last sharer ending the share in one group leaves the other group listing a file that has
  no pieces.\<close>

lemma stop_share_empties_other_group:
  assumes "logmap t sock = Some u" and "group_owner t g \<noteq> None" and "f \<in> set (files_of t g)"
    and "f \<in> set (files_of t g')" and "g' \<noteq> g" and "file_pieces t f \<noteq> None"
    and "\<forall>p \<in> set (pieces_of t f). \<forall>fi \<in> set (sources p). peername fi = u"
    and "stop_share [c, g, f] sock t = (t', a)"
  shows "f \<in> set (files_of t' g') \<and> pieces_of t' f = [] \<and> f \<notin> set (files_of t' g)"
proof -
  obtain ps y where ps: "file_pieces t f = Some ps" "group_owner t g = Some y"
    using assms(2,6) by blast
  have "list_all (\<lambda>pc. sources pc = []) (map (drop_peer u) ps)"
    using assms(7) ps by (simp add: list_all_iff filter_empty_conv)
  then have "t' = t\<lparr>group_file := (group_file t)(g \<mapsto> string_erase f (files_of t g)),
             file_pieces := (file_pieces t)(f := None)\<rparr>"
    using assms ps by (simp add: stop_share_def Let_def)
  with assms(4,5) show ?thesis by simp
qed

lemma stop_share_empties_other_group_demo:
  "\<exists>t t'. stop_share [''stop_share'', ''g'', ''f''] 4 t = (t', 0) \<and>
     ''f'' \<in> set (files_of t' ''h'') \<and> pieces_of t' ''f'' = []"
proof -
  let ?t = "demo_shared\<lparr>group_file := [''g'' \<mapsto> [''f''], ''h'' \<mapsto> [''f'']]\<rparr>"
  obtain t' where s: "stop_share [''stop_share'', ''g'', ''f''] 4 ?t = (t', 0)"
    by (simp add: stop_share_def demo_tracker_sel Let_def)
  from stop_share_empties_other_group [OF _ _ _ _ _ _ _ s, of "''alice''" "''h''"] s
  show ?thesis by (auto simp: demo_tracker_sel)
qed

end
