(* ===== verification/Peer_Sharing.thy ===== *)
theory Peer_Sharing
  imports Peer_Download Tracker_Behaviour
begin

text \<open>
  The tracker and the peers together: a file that a member of a group uploads is recorded by the
  tracker piece by piece, and another member who downloads it gets the file.
\<close>

section \<open>Fetching every piece\<close>

lemma parseable_nth:
  "parseable n ps \<Longrightarrow> j < length ps \<Longrightarrow>
     piecenumber (ps ! j) = n + int j \<and> sorted_wrt file_info_less (sources (ps ! j))"
proof (induction n ps arbitrary: j rule: parseable.induct)
  case (2 n p ps)
  then show ?case by (cases j) auto
qed simp

lemma keys_of_entries:
  assumes "parseable n ps" and "x \<in> set (concat (map entry ps))"
  shows "\<exists>j < length ps. x = (n + int j, map info (sources (ps ! j))) \<and> sources (ps ! j) \<noteq> []"
proof -
  from assms(2) obtain p where p: "p \<in> set ps" "x \<in> set (entry p)" by auto
  then obtain j where "j < length ps" "p = ps ! j" by (auto simp: in_set_conv_nth)
  with p parseable_nth [OF assms(1)] show ?thesis
    by (auto simp: entry_def split: if_splits intro!: exI [of _ j])
qed

lemma distinct_entries: "parseable n ps \<Longrightarrow> distinct (map fst (concat (map entry ps)))"
proof (induction n ps rule: parseable.induct)
  case (2 n p ps)
  have "n \<notin> fst ` set (concat (map entry ps))"
    using keys_of_entries [of "n + 1" ps] 2(2) by force
  with 2 show ?case by (auto simp: entry_def)
qed simp

lemma entry_mem:
  "parseable n ps \<Longrightarrow> j < length ps \<Longrightarrow> sources (ps ! j) \<noteq> [] \<Longrightarrow>
   (n + int j, map info (sources (ps ! j))) \<in> set (concat (map entry ps))"
proof -
  assume a: "parseable n ps" "j < length ps" "sources (ps ! j) \<noteq> []"
  then have "(n + int j, map info (sources (ps ! j))) \<in> set (entry (ps ! j))"
    using parseable_nth [of n ps j] by (simp add: entry_def)
  then show ?thesis using nth_mem [OF a(2)] by (simp, blast)
qed

lemma pm_sources_entries:
  assumes "parseable n ps" and "j < length ps" and "sources (ps ! j) \<noteq> []"
  shows "pm_sources (concat (map entry ps)) (n + int j) = map info (sources (ps ! j))"
  using map_of_is_SomeI [OF distinct_entries [OF assms(1)] entry_mem [OF assms]]
  by (simp add: pm_sources_def)

text \<open>The source answers requests for a piece with \<open>bs\<close>.\<close>

definition serves :: "download_env \<Rightarrow> piece_info \<Rightarrow> int \<Rightarrow> byte list \<Rightarrow> bool" where
  "serves net p n bs \<longleftrightarrow> inet_pton net (pi_ip p) \<and> answers net (pi_ip p, pi_port p, pi_path p, n) bs"

lemma download_pieces_writes:
  assumes "creatable net dstn"
    and "\<forall>(count, n) \<in> set rs. \<exists>m. n = int m \<and> int (m * PIECE_SIZE) \<le> INT_MAX \<and> pm_sources pm n \<noteq> [] \<and>
           (\<forall>p \<in> set (pm_sources pm n). serves net p n (piece m c))"
  shows "fs (c_str dstn) = Some f \<Longrightarrow> download_pieces E net rnd k dstn pm rs fs =
    Inr (fs(c_str dstn \<mapsto> fold (\<lambda>n. write_at (n * PIECE_SIZE) (piece n c)) (map (\<lambda>r. nat (snd r)) rs) f))"
  using assms(2)
proof (induction rs arbitrary: k fs f)
  case Nil
  then show ?case by (simp add: fun_upd_idem)
next
  case (Cons r rs)
  obtain count n where r: "r = (count, n)" by (cases r)
  from Cons.prems(2) r obtain m where m: "n = int m" "int (m * PIECE_SIZE) \<le> INT_MAX"
    "pm_sources pm n \<noteq> []" "\<forall>p \<in> set (pm_sources pm n). serves net p n (piece m c)" by auto
  define p where "p = pm_sources pm n ! (rnd k mod length (pm_sources pm n))"
  define fs' where "fs' = fs(c_str dstn \<mapsto> write_at (m * PIECE_SIZE) (piece m c) f)"
  have "p \<in> set (pm_sources pm n)" using m(3) by (simp add: p_def)
  then have s: "inet_pton net (pi_ip p)" "answers net (pi_ip p, pi_port p, pi_path p, int m) (piece m c)"
    using m(1,4) by (auto simp: serves_def)
  have "old_contents fs dstn = f" using Cons.prems(1) by (simp add: old_contents_def)
  then have "\<exists>ok. download E net n (pi_port p) (pi_ip p) (pi_path p) (pi_hash p) dstn fs = Inr (fs', ok)"
    using download_writes_piece_eq [OF s(1) assms(1) s(2) _ m(2), where E = E and h = "pi_hash p" and fs = fs]
    by (simp add: m(1) length_piece fs'_def Let_def)
  then obtain ok where d: "download E net n (pi_port p) (pi_ip p) (pi_path p) (pi_hash p) dstn fs = Inr (fs', ok)"
    by (elim exE) (rule that)
  have "download_pieces E net rnd (k + 1) dstn pm rs fs' =
      Inr (fs'(c_str dstn \<mapsto> fold (\<lambda>n. write_at (n * PIECE_SIZE) (piece n c)) (map (\<lambda>r. nat (snd r)) rs)
        (write_at (m * PIECE_SIZE) (piece m c) f)))"
    by (rule Cons.IH) (use Cons.prems(2) in \<open>simp_all add: fs'_def\<close>)
  moreover have "download_pieces E net rnd k dstn pm (r # rs) fs = download_pieces E net rnd (k + 1) dstn pm rs fs'"
    using d by (simp only: r download_pieces.simps Let_def p_def [symmetric]) simp
  moreover have "fs'(c_str dstn \<mapsto> x) = fs(c_str dstn \<mapsto> x)" for x by (simp add: fs'_def)
  moreover have "map (\<lambda>r. nat (snd r)) (r # rs) = m # map (\<lambda>r. nat (snd r)) rs" by (simp add: r m(1))
  ultimately show ?case by (simp only: fold_simps)
qed

section \<open>The whole download\<close>

text \<open>The pieces of a file with contents \<open>c\<close>, each with sources that serve it.\<close>

definition shared_by :: "download_env \<Rightarrow> byte list \<Rightarrow> filepiece list \<Rightarrow> bool" where
  "shared_by net c ps \<longleftrightarrow>
     parseable 0 ps \<and> length ps = num_pieces c \<and>
     (\<forall>j < length ps. sources (ps ! j) \<noteq> [] \<and>
        (\<forall>fi \<in> set (sources (ps ! j)). serves net (info fi) (int j) (piece j c)))"

lemma hex_digit_special: "d < 16 \<Longrightarrow> hex_digit d \<noteq> LF \<and> hex_digit d \<noteq> CHR '' '' \<and> hex_digit d \<noteq> NUL"
proof -
  assume d: "d < 16"
  have "(of_char (hex_digit d) :: nat) \<ge> 48" using d by (simp add: hex_digit_def)
  then show ?thesis by (auto simp: LF_def)
qed

lemma hex_bytes_chars: "x \<in> set (hex_bytes bs) \<Longrightarrow> x \<noteq> LF \<and> x \<noteq> CHR '' '' \<and> x \<noteq> NUL"
proof -
  have "(of_char b :: nat) < 256" for b :: char
    using mod_less_divisor [of 256 "of_char b :: nat"] by (simp only: of_char_mod_256)
  then have "(of_char b :: nat) div 16 < 16" for b :: char
    by (simp add: less_mult_imp_div_less)
  then show "x \<in> set (hex_bytes bs) \<Longrightarrow> ?thesis"
    using hex_digit_special by (auto simp: hex_bytes_def)
qed

lemma preallocate_length:
  assumes "c \<noteq> []" and "creatable net dstn" and "length (old_contents fs dstn) \<le> length c"
  shows "\<exists>f. preallocate net dstn (int (length c)) fs = fs(c_str dstn \<mapsto> f) \<and> length f = length c"
proof -
  have "length (write_at (length c - 1) [NUL] (old_contents fs dstn)) = length c"
    using assms(1,3) by (cases c) (auto simp: write_at_def min_def)
  moreover have "nat (int (length c) - 1) = length c - 1" by simp
  ultimately show ?thesis
    using assms(2) unfolding preallocate_def by (intro exI conjI) (simp_all only: if_True)
qed

lemma download_reply_completes:
  assumes "evp_computes E sha" and "c \<noteq> []" and "int (length c) \<le> INT_MAX"
    and "shared_by net c ps" and "creatable net dstn" and "length (old_contents fs dstn) \<le> length c"
  shows "download_reply E net rnd (peerdetails (int (length c), hex_bytes (sha c)) ps) dstn g fs =
    turn_of (fs(c_str dstn \<mapsto> c))
      \<lparr>t_sent := map (announcement sha (''upload_file '' @ dstn @ '' '' @ g) c) [0..<num_pieces c],
       t_out := [line ''download completed'']\<rparr>"
proof -
  let ?det = "(int (length c), hex_bytes (sha c))" and ?pm = "concat (map entry ps)"
  define msg where "msg = peerdetails ?det ps"
  define r1 where "r1 = next_line msg msg"
  define r2 where "r2 = next_line msg r1"
  define r4 where "r4 = next_line msg (next_line msg r2)"
  have ps: "parseable 0 ps" "length ps = num_pieces c"
    and src: "\<And>j. j < length ps \<Longrightarrow> sources (ps ! j) \<noteq> []"
    and srv: "\<And>j fi. j < length ps \<Longrightarrow> fi \<in> set (sources (ps ! j)) \<Longrightarrow> serves net (info fi) (int j) (piece j c)"
    using assms(4) by (auto simp: shared_by_def)
  have "0 < num_pieces c" using assms(2) less_num_pieces [of 0 c] by simp
  then have "ps \<noteq> []" using ps(2) by auto
  moreover have "INT_MIN \<le> fst ?det" by simp
  moreover have "fst ?det \<le> INT_MAX" using assms(3) by simp
  moreover have "LF \<notin> set (snd ?det)" using hex_bytes_chars by auto
  ultimately have reply: "let msg = peerdetails ?det ps; r1 = next_line msg msg; r2 = next_line msg r1;
             r3 = next_line msg r2; r4 = next_line msg r3
         in before_char LF msg = ''download'' \<and> stoi (before_char LF r1) = Inr (fst ?det) \<and>
            before_char LF r2 = snd ?det \<and>
            parse_loop r4 0 0 0 [] [] [] = Inr ?pm"
    by (intro parse_reply ps(1))
  then have parsed: "stoi (before_char LF r1) = Inr (int (length c))"
    "before_char LF r2 = hex_bytes (sha c)" "parse_loop r4 0 0 0 [] [] [] = Inr ?pm"
    unfolding Let_def fst_conv snd_conv msg_def [symmetric] r1_def [symmetric] r2_def [symmetric]
      r4_def [symmetric] by blast+
  obtain f where f: "preallocate net dstn (int (length c)) fs = fs(c_str dstn \<mapsto> f)" "length f = length c"
    using preallocate_length [OF assms(2,5,6)] by (elim exE conjE) (rule that, assumption+)
  define rs where "rs = piece_rarity ?pm"
  have rs: "set rs = (\<lambda>(n, ss). (int (length ss), n)) ` set ?pm" by (simp add: rs_def piece_rarity_def)
  have each: "\<forall>(count, n) \<in> set rs. \<exists>m. n = int m \<and> int (m * PIECE_SIZE) \<le> INT_MAX \<and> pm_sources ?pm n \<noteq> [] \<and>
           (\<forall>p \<in> set (pm_sources ?pm n). serves net p n (piece m c))"
  proof (intro ballI, clarify)
    fix count n assume "(count, n) \<in> set rs"
    then obtain ss where "(n, ss) \<in> set ?pm" by (auto simp: rs)
    from keys_of_entries [OF ps(1) this] obtain j where j: "j < length ps" "n = int j"
      by (elim exE conjE) (rule that, simp_all)
    have "j * PIECE_SIZE < length c" using j(1) ps(2) by (simp add: less_num_pieces)
    then have "int (j * PIECE_SIZE) \<le> INT_MAX" using assms(3) by linarith
    moreover have "pm_sources ?pm n = map info (sources (ps ! j))"
      using pm_sources_entries [OF ps(1) j(1) src [OF j(1)]] j(2) by simp
    ultimately show "\<exists>m. n = int m \<and> int (m * PIECE_SIZE) \<le> INT_MAX \<and> pm_sources ?pm n \<noteq> [] \<and>
           (\<forall>p \<in> set (pm_sources ?pm n). serves net p n (piece m c))"
      using j src [OF j(1)] srv [OF j(1)] by (intro exI [of _ j]) auto
  qed
  have "{..<num_pieces c} \<subseteq> set (map (\<lambda>r. nat (snd r)) rs)"
  proof
    fix j assume "j \<in> {..<num_pieces c}"
    then have "j < length ps" using ps(2) by simp
    from entry_mem [OF ps(1) this src [OF this]] have "(int (length (sources (ps ! j))), int j) \<in> set rs"
      unfolding rs by force
    then show "j \<in> set (map (\<lambda>r. nat (snd r)) rs)" by force
  qed
  then have whole: "fold (\<lambda>n. write_at (n * PIECE_SIZE) (piece n c)) (map (\<lambda>r. nat (snd r)) rs) f = c"
    by (rule fold_all_pieces [OF f(2)])
  have dl: "download_pieces E net rnd 0 dstn ?pm rs (fs(c_str dstn \<mapsto> f)) = Inr (fs(c_str dstn \<mapsto> c))"
    using download_pieces_writes [OF assms(5) each, of "fs(c_str dstn \<mapsto> f)" f E rnd 0] whole by simp
  have hash: "computeHash E (fs(c_str dstn \<mapsto> c)) dstn = hex_bytes (sha c)"
    using computeHash_sha [OF assms(1), of "fs(c_str dstn \<mapsto> c)" dstn c] by simp
  have pc: "piece_creation E (fs(c_str dstn \<mapsto> c)) dstn s = (map (announcement sha s c) [0..<num_pieces c], None)" for s
    using piece_creation_announces [where fs = "fs(c_str dstn \<mapsto> c)" and path = dstn, OF assms(1) _ assms(3)] by simp
  have big: "int (length c) \<noteq> INT_MIN" by simp
  show ?thesis
    unfolding download_reply_def msg_def [symmetric] Let_def r1_def [symmetric] r2_def [symmetric] r4_def [symmetric]
    using parsed f(1) dl hash pc big by (simp add: rs_def [symmetric] Let_def turn_of_def)
qed

section \<open>The tracker's side of an upload\<close>

text \<open>A session of the tracker that receives these messages separately: one call of \<open>recv\<close> takes at
  most \<open>RECEIVE_SIZE\<close> bytes, and what is left of a longer message is the next command.\<close>

function run_commands ::
    "string list \<Rightarrow> tracker \<Rightarrow> int \<Rightarrow> string list \<Rightarrow> fault + (tracker \<times> string list)" where
  "run_commands order t sock [] = Inr (t, [])"
| "run_commands order t sock (m # ms) =
     (if m = [] then run_commands order t sock ms
      else case handle_command order t sock (tokens (take RECEIVE_SIZE m)) of
        Inl e \<Rightarrow> Inl e
      | Inr (t', out) \<Rightarrow>
          (case run_commands order t' sock (drop RECEIVE_SIZE m # ms) of
             Inl e \<Rightarrow> Inl e
           | Inr (t'', out') \<Rightarrow> Inr (t'', out @ out')))"
  by pat_completeness auto
termination
  by (relation "measure (\<lambda>(order, t, sock, ms). sum_list (map length ms) + length ms)") (auto simp: neq_Nil_conv)

declare run_commands.simps(2) [simp del]

lemma run_commands_received:
  assumes "m \<noteq> []" and "length m \<le> RECEIVE_SIZE"
  shows "run_commands order t sock (m # ms) =
     (case handle_command order t sock (tokens m) of
        Inl e \<Rightarrow> Inl e
      | Inr (t', out) \<Rightarrow>
          (case run_commands order t' sock ms of
             Inl e \<Rightarrow> Inl e
           | Inr (t'', out') \<Rightarrow> Inr (t'', out @ out')))"
proof -
  have "take RECEIVE_SIZE m = m" "drop RECEIVE_SIZE m = []" using assms(2) by (simp_all del: RECEIVE_SIZE_def)
  moreover have "run_commands order t' sock ([] # ms) = run_commands order t' sock ms" for t'
    by (simp add: run_commands.simps(2) [of order t' sock "[]"])
  ultimately show ?thesis
    using assms(1) by (simp only: run_commands.simps(2) [of order t sock m] if_False)
qed

text \<open>A user of the group with a session that announced its address.\<close>

definition sharing :: "tracker \<Rightarrow> int \<Rightarrow> string \<Rightarrow> bool" where
  "sharing t sock g \<longleftrightarrow>
     (\<exists>u. logmap t sock = Some u \<and> u \<in> set (members_of t g)) \<and> group_owner t g \<noteq> None \<and>
     listenmap t sock \<noteq> None"

definition record_upload :: "string \<Rightarrow> string \<Rightarrow> int \<Rightarrow> file_info \<Rightarrow> tracker \<Rightarrow> tracker" where
  "record_upload f g n fi t =
     t\<lparr>file_pieces := (file_pieces t)(f \<mapsto> add_source f n fi (pieces_of t f)),
       file_list := (file_list t)(f \<mapsto> set_insert file_info_less fi (mget [] (file_list t) f)),
       group_file := (group_file t)(g \<mapsto> string_insert f (files_of t g))\<rparr>"

lemma upload_command:
  assumes "sharing t sock g" and "stoi num = Inr n"
  shows "handle_command order t sock [''upload_file'', path, g, num, h] =
    Inr (record_upload (base_name path) g n (source_of t sock path h) t, [line ''message sent for uploading''])"
proof -
  obtain u a ow where u: "logmap t sock = Some u" "u \<in> set (members_of t g)" "group_owner t g = Some ow"
    "listenmap t sock = Some a" using assms(1) by (auto simp: sharing_def)
  then obtain ms where ms: "group_members t g = Some ms" by (cases "group_members t g") auto
  show ?thesis
    using u ms assms(2)
    by (simp add: handle_command_def member_command_def upload_file_def upload_file_reply_def Let_def
        record_upload_def source_of_def)
qed

lemma record_upload_keeps [simp]:
  "sharing (record_upload f g n fi t) sock g' = sharing t sock g'"
  "source_of (record_upload f g n fi t) = source_of t"
  "filedetails (record_upload f g n fi t) = filedetails t"
  "f \<in> set (files_of (record_upload f g n fi t) g)"
  "pieces_of (record_upload f g n fi t) f = add_source f n fi (pieces_of t f)"
  by (auto simp: sharing_def record_upload_def source_of_def fun_eq_iff)

lemma add_source_new:
  "n \<notin> piecenumber ` set ps \<Longrightarrow> add_source f n fi ps = ps @ [\<lparr>file_name = f, piecenumber = n, sources = [fi]\<rparr>]"
  by (induction ps) auto

lemma add_source_old:
  assumes "\<forall>i < length ps. piecenumber (ps ! i) = int (k + i)" and "j < length ps"
  shows "add_source f (int (k + j)) fi ps =
           ps[j := (ps ! j)\<lparr>sources := set_insert file_info_less fi (sources (ps ! j))\<rparr>]"
  using assms
proof (induction ps arbitrary: j k)
  case (Cons p ps)
  have p: "piecenumber p = int k" using Cons.prems(1) by (metis add_0_right length_greater_0_conv list.distinct(1) nth_Cons_0)
  show ?case
  proof (cases j)
    case (Suc i)
    have "\<forall>l < length ps. piecenumber (ps ! l) = int (Suc k + l)" using Cons.prems(1) by auto
    from Cons.IH [OF this, of i] show ?thesis using Suc p Cons.prems(2) by simp
  qed (simp add: p)
qed simp

text \<open>Pieces numbered from 0, where the sources of the first \<open>j\<close> meet \<open>P\<close> and the others \<open>Q\<close>.\<close>

definition numbered ::
    "(nat \<Rightarrow> file_info list \<Rightarrow> bool) \<Rightarrow> (nat \<Rightarrow> file_info list \<Rightarrow> bool) \<Rightarrow> nat \<Rightarrow> filepiece list \<Rightarrow> bool" where
  "numbered P Q j ps \<longleftrightarrow>
     (\<forall>i < length ps. piecenumber (ps ! i) = int i \<and> (if i < j then P i else Q i) (sources (ps ! i)))"

lemma add_source_numbered:
  assumes "numbered P Q j ps" and "j \<le> length ps"
    and "\<And>xs. Q j xs \<Longrightarrow> P j (set_insert file_info_less fi xs)" and "P j [fi]"
  shows "numbered P Q (Suc j) (add_source f (int j) fi ps) \<and>
         length (add_source f (int j) fi ps) = max (length ps) (Suc j)"
proof (cases "j < length ps")
  case True
  have n: "\<forall>i < length ps. piecenumber (ps ! i) = int (0 + i)" using assms(1) by (simp add: numbered_def)
  have "Q j (sources (ps ! j))" using assms(1) True by (auto simp: numbered_def)
  moreover have "P i (sources (ps ! i))" if "i < j" for i
    using assms(1) that less_trans [OF that True] by (auto simp: numbered_def)
  moreover have "Q i (sources (ps ! i))" if "\<not> i < j" "i < length ps" for i
    using assms(1) that by (auto simp: numbered_def)
  ultimately show ?thesis
    using add_source_old [OF n True, of f fi] True n assms(3)
    by (auto simp: numbered_def nth_list_update less_Suc_eq)
next
  case False
  then have l: "length ps = j" using assms(2) by simp
  then have "int j \<notin> piecenumber ` set ps" using assms(1) by (auto simp: numbered_def in_set_conv_nth)
  from add_source_new [OF this] show ?thesis
    using l assms(1,4) by (auto simp: numbered_def nth_append less_Suc_eq)
qed

lemma hex_bytes_word: "bs \<noteq> [] \<Longrightarrow> is_word (hex_bytes bs)"
proof -
  assume "bs \<noteq> []"
  then have "hex_bytes bs \<noteq> []" by (cases bs) (simp_all add: hex_bytes_def)
  then show ?thesis using hex_bytes_chars [of _ bs] by (auto simp: is_word_def)
qed

lemma to_string_word: "is_word (to_string i)"
  using to_string_not_special by (simp add: is_word_def)

lemma stoi_to_string_nat: "int i \<le> INT_MAX \<Longrightarrow> stoi (to_string (int i)) = Inr (int i)"
  by (rule stoi_to_string) simp_all

lemma announcement_tokens:
  assumes "is_word path" and "is_word g" and "sha (piece i c) \<noteq> []"
  shows "tokens (announcement sha (unwords [''upload_file'', path, g]) c i) =
           [''upload_file'', path, g, to_string (int i), hex_bytes (sha (piece i c))]"
proof -
  have "announcement sha (unwords [''upload_file'', path, g]) c i =
      unwords [''upload_file'', path, g, to_string (int i), hex_bytes (sha (piece i c))]"
    by (simp add: announcement_def)
  moreover have "is_word ''upload_file''" by (simp add: is_word_def)
  then have "\<forall>w \<in> set [''upload_file'', path, g, to_string (int i), hex_bytes (sha (piece i c))]. is_word w"
    using assms to_string_word hex_bytes_word by simp
  ultimately show ?thesis by (simp only: tokens_unwords)
qed

lemma length_nat_to_string: "n < 10 ^ Suc k \<Longrightarrow> length (nat_to_string n) \<le> Suc k"
proof (induction k arbitrary: n)
  case 0
  then show ?case by (simp add: nat_to_string.simps [of n])
next
  case (Suc k)
  show ?case
  proof (cases "n < 10")
    case False
    have "n div 10 < 10 ^ Suc k" using Suc.prems by (simp add: div_less_iff_less_mult mult.commute)
    from Suc.IH [OF this] False show ?thesis by (simp add: nat_to_string.simps [of n])
  qed (simp add: nat_to_string.simps [of n])
qed

lemma length_to_string: "int n \<le> INT_MAX \<Longrightarrow> length (to_string (int n)) \<le> 10"
  using length_nat_to_string [of n 9] by (simp add: to_string_def)

lemma length_hex_bytes: "length (hex_bytes bs) = 2 * length bs"
  by (induction bs) (simp_all add: hex_bytes_def)

lemma piece_number_int: "j < num_pieces c \<Longrightarrow> int (length c) \<le> INT_MAX \<Longrightarrow> int j \<le> INT_MAX"
  using less_num_pieces [of j c] mult_le_mono2 [of 1 PIECE_SIZE j] sizes_pos(2) by linarith

lemma announcement_received:
  assumes "j < num_pieces c" and "int (length c) \<le> INT_MAX" and "\<And>x. length (sha x) = 32"
    and "length path + length g \<le> 900"
  shows "announcement sha (unwords [''upload_file'', path, g]) c j \<noteq> [] \<and>
         length (announcement sha (unwords [''upload_file'', path, g]) c j) \<le> RECEIVE_SIZE"
  using length_to_string [OF piece_number_int [OF assms(1,2)]] assms(3,4)
  by (simp add: announcement_def length_hex_bytes)

text \<open>Receiving the announcements from piece \<open>j\<close> on.\<close>

lemma run_announcements:
  assumes "is_word path" and "is_word g" and "\<And>x. length (sha x) = 32" and "int (length c) \<le> INT_MAX"
    and "length path + length g \<le> 900"
    and "\<And>i xs. i < num_pieces c \<Longrightarrow> Q i xs \<Longrightarrow> P i (set_insert file_info_less (src (hex_bytes (sha (piece i c)))) xs)"
    and "\<And>i. i < num_pieces c \<Longrightarrow> P i [src (hex_bytes (sha (piece i c)))]"
  shows "sharing t sock g \<Longrightarrow> source_of t sock path = src \<Longrightarrow> j \<le> num_pieces c \<Longrightarrow>
    numbered P Q j (pieces_of t (base_name path)) \<Longrightarrow> j \<le> length (pieces_of t (base_name path)) \<Longrightarrow>
    length (pieces_of t (base_name path)) \<le> num_pieces c \<Longrightarrow>
    \<exists>t'. run_commands order t sock
            (map (announcement sha (unwords [''upload_file'', path, g]) c) [j..<num_pieces c]) =
          Inr (t', replicate (num_pieces c - j) (line ''message sent for uploading'')) \<and>
        numbered P Q (num_pieces c) (pieces_of t' (base_name path)) \<and>
        length (pieces_of t' (base_name path)) = num_pieces c \<and>
        filedetails t' = filedetails t \<and> (\<forall>k h. sharing t' k h = sharing t k h) \<and>
        (j < num_pieces c \<or> base_name path \<in> set (files_of t g) \<longrightarrow> base_name path \<in> set (files_of t' g))"
proof (induction "num_pieces c - j" arbitrary: t j)
  case 0
  then show ?case by (intro exI [of _ t]) simp
next
  case (Suc m)
  let ?f = "base_name path"
  define h where "h = hex_bytes (sha (piece j c))"
  define t1 where "t1 = record_upload ?f g (int j) (src h) t"
  have j: "j < num_pieces c" using Suc.hyps(2) by simp
  have ne: "sha x \<noteq> []" for x using assms(3) [of x] by auto
  have num: "stoi (to_string (int j)) = Inr (int j)"
    by (rule stoi_to_string_nat [OF piece_number_int [OF j assms(4)]])
  have cmd: "handle_command order t sock (tokens (announcement sha (unwords [''upload_file'', path, g]) c j)) =
      Inr (t1, [line ''message sent for uploading''])"
    unfolding announcement_tokens [where sha = sha, OF assms(1,2) ne] t1_def h_def Suc.prems(2) [symmetric]
    by (rule upload_command [OF Suc.prems(1) num])
  have ps: "numbered P Q (Suc j) (pieces_of t1 ?f) \<and> length (pieces_of t1 ?f) = max (length (pieces_of t ?f)) (Suc j)"
    unfolding t1_def record_upload_keeps
    by (rule add_source_numbered [OF Suc.prems(4,5)]) (use assms(6,7) [OF j] in \<open>simp_all add: h_def\<close>)
  have src1: "source_of t1 sock path = src" using Suc.prems(2) by (simp add: t1_def)
  have "\<exists>t'. run_commands order t1 sock
            (map (announcement sha (unwords [''upload_file'', path, g]) c) [Suc j..<num_pieces c]) =
          Inr (t', replicate (num_pieces c - Suc j) (line ''message sent for uploading'')) \<and>
        numbered P Q (num_pieces c) (pieces_of t' ?f) \<and> length (pieces_of t' ?f) = num_pieces c \<and>
        filedetails t' = filedetails t1 \<and> (\<forall>k h. sharing t' k h = sharing t1 k h) \<and>
        (Suc j < num_pieces c \<or> ?f \<in> set (files_of t1 g) \<longrightarrow> ?f \<in> set (files_of t' g))"
    by (rule Suc.hyps(1)) (use Suc.hyps(2) Suc.prems j ps src1 in \<open>simp_all add: t1_def\<close>)
  then obtain t' where t': "run_commands order t1 sock
            (map (announcement sha (unwords [''upload_file'', path, g]) c) [Suc j..<num_pieces c]) =
          Inr (t', replicate (num_pieces c - Suc j) (line ''message sent for uploading''))"
    "numbered P Q (num_pieces c) (pieces_of t' ?f)" "length (pieces_of t' ?f) = num_pieces c"
    "filedetails t' = filedetails t1" "\<forall>k h. sharing t' k h = sharing t1 k h"
    "Suc j < num_pieces c \<or> ?f \<in> set (files_of t1 g) \<longrightarrow> ?f \<in> set (files_of t' g)"
    by (elim exE conjE) (rule that, assumption+)
  have split: "[j..<num_pieces c] = j # [Suc j..<num_pieces c]" "num_pieces c - j = Suc (num_pieces c - Suc j)"
    using j by (simp_all add: upt_conv_Cons)
  have fits: "announcement sha (unwords [''upload_file'', path, g]) c j \<noteq> []"
    "length (announcement sha (unwords [''upload_file'', path, g]) c j) \<le> RECEIVE_SIZE"
    using announcement_received [where sha = sha, OF j assms(4,3,5)] by blast+
  have "run_commands order t sock
      (map (announcement sha (unwords [''upload_file'', path, g]) c) [j..<num_pieces c]) =
      Inr (t', replicate (num_pieces c - j) (line ''message sent for uploading''))"
    unfolding split list.map run_commands_received [OF fits] cmd sum.case prod.case t'(1) by simp
  moreover have "filedetails t' = filedetails t" "\<forall>k h. sharing t' k h = sharing t k h"
    "?f \<in> set (files_of t1 g)" using t'(4,5) by (simp_all add: t1_def)
  ultimately show ?case using t'(2,3,6) by (intro exI [of _ t'] conjI impI) simp_all
qed

end
