(* ===== verification/Peer_Behaviour.thy ===== *)
theory Peer_Behaviour
  imports Peer_Sharing
begin

text \<open>
  The properties of the peers with the tracker: a file shared by one member of a group reaches
  another, and the ways in which this fails.
\<close>

section \<open>Words of the commands\<close>

lemma before_char_none: "d \<notin> set s \<Longrightarrow> before_char d s = s"
  by (auto simp: before_char_def takeWhile_eq_all_conv)

lemma second_word_unwords:
  "CHR '' '' \<notin> set a \<Longrightarrow> CHR '' '' \<notin> set b \<Longrightarrow> second_word (unwords (a # b # c # ws)) = b"
  by (simp add: second_word_def)



section \<open>Sources the parser can tell from piece numbers\<close>






section \<open>Sharing a file\<close>





lemma int_length_eq: "int (length c) \<le> INT_MAX \<Longrightarrow> int_length c = int (length c)"
proof -
  assume len: "int (length c) \<le> INT_MAX"
  then have "take_bit 32 (length c) = length c" by (intro take_bit_nat_eq_self) simp
  moreover have "signed_take_bit 31 (int (length c)) = int (length c)"
    by (rule signed_take_bit_int_eq_self) (use len in simp_all)
  ultimately show ?thesis by (simp add: int_length_def sint_uint unsigned_of_nat)
qed

text \<open>What an upload command sends.\<close>

lemma upload_turn_sends:
  assumes "evp_computes E sha" and "is_word path" and "is_word g" and "fs path = Some c"
    and "int (length c) \<le> INT_MAX"
  shows "upload_turn E net (unwords [''upload_file'', path, g]) fs =
    turn_of fs\<lparr>t_sent :=
      unwords [''file_details'', path, to_string (int (length c)), hex_bytes (sha c)] #
      map (announcement sha (unwords [''upload_file'', path, g]) c) [0..<num_pieces c]\<rparr>"
proof -
  have w: "second_word (unwords [''upload_file'', path, g]) = path"
    by (rule second_word_unwords) (use assms(2) in \<open>simp_all add: is_word_def\<close>)
  have cs: "c_str path = path" using assms(2) by (intro c_str_NUL_free) (simp add: is_word_def)
  then have o: "open_file fs path = Some c" using assms(4) by simp
  have h: "computeHash E fs path = hex_bytes (sha c)"
    by (rule computeHash_sha [where fs = fs and path = path, OF assms(1) o])
  have pc: "piece_creation E fs path s = (map (announcement sha s c) [0..<num_pieces c], None)" for s
    by (rule piece_creation_announces [where fs = fs and path = path, OF assms(1) o assms(5)])
  show ?thesis
    unfolding upload_turn_def Let_def w
    using o h pc int_length_eq [OF assms(5)] by (simp add: turn_of_def)
qed

















definition demo_group :: tracker where
  "demo_group = demo_tracker\<lparr>group_members := [''g'' \<mapsto> [''alice'', ''bob'']]\<rparr>"

definition demo_files :: files where
  "demo_files = [''/d/f.txt'' \<mapsto> ''hello'']"




section \<open>How sharing fails\<close>

text \<open>C39: The upload sends the file's details and the announcement of its first piece without
  waiting in between and without a separator.  Where the tracker receives both at once, the word
  \<open>upload_file\<close> becomes the end of the recorded hash, the first piece is not recorded, and there
  is no reply, for which the client waits before it sends the next piece.\<close>

theorem coalesced_upload_loses_piece:
  assumes "evp_computes E sha" and "\<forall>x. sha x \<noteq> []"
    and "fs path = Some c" and "c \<noteq> []" and "int (length c) \<le> INT_MAX"
    and "is_word path" and "is_word g" and "logmap t sock \<noteq> None"
  shows "let ms = t_sent (upload_turn E net (unwords [''upload_file'', path, g]) fs)
    in 2 \<le> length ms \<and>
       handle_command order t sock (tokens (ms ! 0 @ ms ! 1)) =
         Inr (t\<lparr>filedetails := (filedetails t)
                (base_name path \<mapsto> (int (length c), hex_bytes (sha c) @ ''upload_file''))\<rparr>, [])"
proof -
  define ws where "ws = [''file_details'', path, to_string (int (length c)), hex_bytes (sha c) @ ''upload_file'',
    path, g, to_string (int 0), hex_bytes (sha (piece 0 c))]"
  have "0 < num_pieces c" using assms(4) less_num_pieces [of 0 c] by simp
  then have up: "[0..<num_pieces c] = 0 # [Suc 0..<num_pieces c]" by (simp add: upt_conv_Cons)
  define ms where "ms = t_sent (upload_turn E net (unwords [''upload_file'', path, g]) fs)"
  have ms: "ms = unwords [''file_details'', path, to_string (int (length c)), hex_bytes (sha c)] #
      announcement sha (unwords [''upload_file'', path, g]) c 0 #
      map (announcement sha (unwords [''upload_file'', path, g]) c) [Suc 0..<num_pieces c]"
    unfolding ms_def upload_turn_sends [where fs = fs and path = path, OF assms(1,6,7,3,5)] up by simp
  have joined: "ms ! 0 @ ms ! 1 = unwords ws" by (simp add: ms ws_def announcement_def)
  have "is_word (hex_bytes (sha c) @ ''upload_file'')"
    using hex_bytes_word [of "sha c"] assms(2) by (simp add: is_word_def)
  moreover have "is_word ''file_details''" by (simp add: is_word_def)
  ultimately have "\<forall>w \<in> set ws. is_word w"
    using assms(2,6,7) to_string_word hex_bytes_word by (simp add: ws_def)
  then have "tokens (ms ! 0 @ ms ! 1) = ws" unfolding joined by (rule tokens_unwords)
  moreover have "stoi (to_string (int (length c))) = Inr (int (length c))"
    using assms(5) by (rule stoi_to_string_nat)
  ultimately have "handle_command order t sock (tokens (ms ! 0 @ ms ! 1)) =
      Inr (t\<lparr>filedetails := (filedetails t)
             (base_name path \<mapsto> (int (length c), hex_bytes (sha c) @ ''upload_file''))\<rparr>, [])"
    using assms(8) by (simp add: ws_def handle_command_def member_command_def file_details_def)
  moreover have "2 \<le> length ms" by (simp add: ms)
  ultimately show ?thesis unfolding Let_def ms_def [symmetric] by blast
qed

theorem coalesced_upload_loses_piece_witness:
  "let ms = t_sent (upload_turn demo_evp (demo_net []) (unwords [''upload_file'', ''/d/f.txt'', ''g'']) demo_files)
   in snd (projr (handle_command [] demo_group 4 (tokens (ms ! 0 @ ms ! 1)))) = [] \<and>
      pieces_of (fst (projr (handle_command [] demo_group 4 (tokens (ms ! 0 @ ms ! 1))))) ''f.txt'' = []"
proof -
  have "\<forall>x. demo_sha x \<noteq> []" by (auto simp: demo_sha_def)
  then show ?thesis
    using coalesced_upload_loses_piece [of demo_evp demo_sha demo_files "''/d/f.txt''" "''hello''" "''g''"
        demo_group 4 "demo_net []" "[]"] demo_evp_computes
    by (simp add: Let_def demo_files_def is_word_def demo_group_def demo_tracker_sel)
qed

text \<open>Where the first file of a group is called \<open>download\<close>, the tracker's answer to
  \<open>list_files\<close> begins with the line that marks the reply to a download command, and the client that
  reads it ends with an uncaught exception.\<close>

lemma listing_named_download_crashes:
  assumes "logmap t sock \<noteq> None" and "group_owner t g \<noteq> None" and "group_file t g = Some (''download'' # fs)"
    and "is_word g"
  shows "\<exists>out. handle_command order t sock [''list_files'', g] = Inr (t, out) \<and> out \<noteq> [] \<and>
           t_fault (client_turn E net rnd (hd out) (unwords [''list_files'', g]) files) = Some InvalidArgument"
proof -
  have out: "handle_command order t sock [''list_files'', g] = Inr (t, line ''download'' # map line fs)"
    using assms(1-3) by (auto simp: handle_command_def member_command_def list_files_def list_files_reply_def)
  have cs: "c_str (line ''download'') = line ''download''"
    by (rule c_str_NUL_free) (simp add: line_def LF_def)
  have cmd: "before_char (CHR '' '') (unwords [''list_files'', g]) = ''list_files''"
    by (simp add: before_char_def)
  have first: "before_char LF (line ''download'') = ''download''"
    unfolding line_def by (rule before_char_append) (simp add: LF_def)
  have rest: "next_line (line ''download'') (line ''download'') = []"
    unfolding line_def by (rule next_line_append) (simp add: LF_def)
  have ne: "line ''download'' \<noteq> []" "take REPLY_SIZE (line ''download'') = line ''download''"
    by (simp_all add: line_def REPLY_SIZE_def)
  have num: "stoi (before_char LF []) = Inl InvalidArgument"
    by (simp add: before_char_def stoi_def)
  have "t_fault (client_turn E net rnd (line ''download'') (unwords [''list_files'', g]) files) = Some InvalidArgument"
    unfolding client_turn_def cmd
    by (simp add: Let_def cs first ne download_reply_def rest num)
  with out show ?thesis by (intro exI [of _ "line ''download'' # map line fs"]) simp
qed

lemma listing_named_download_crashes_demo:
  "\<exists>out. handle_command [] (demo_group\<lparr>group_file := [''g'' \<mapsto> [''download'']]\<rparr>) 5 [''list_files'', ''g''] =
      Inr (demo_group\<lparr>group_file := [''g'' \<mapsto> [''download'']]\<rparr>, out) \<and> out \<noteq> [] \<and>
     t_fault (client_turn demo_evp (demo_net []) (\<lambda>k. k) (hd out) (unwords [''list_files'', ''g'']) Map.empty) = Some InvalidArgument"
  by (rule listing_named_download_crashes) (simp_all add: demo_group_def demo_tracker_sel is_word_def)

text \<open>The parser takes the port line of a source for the number of the next piece where they
  are equal; then the address is read as the port, and if this is the last source of the reply it is
  lost.\<close>

lemma port_taken_for_piece_number:
  assumes "client_port fi = i + 1" and "stoi (client_ip fi) = Inr a" and "4 dvd ln"
    and "LF \<notin> set (client_ip fi)" and "LF \<notin> set (file_path fi)" and "LF \<notin> set (hash fi)"
    and "client_ip fi \<noteq> to_string (i + 2)" and "file_path fi \<noteq> to_string (i + 2)" and "hash fi \<noteq> to_string (i + 2)"
  shows "parse_loop (concat (map line (source_lines fi))) i ln port ip path pm = Inr pm"
proof -
  have m: "Suc ln mod 4 = 1" "Suc (Suc ln) mod 4 = 2" using assms(3) by presburger+
  have two: "i + 1 + 1 = i + 2" by simp
  show ?thesis
    using assms m by (simp add: source_lines_def line_def parse_line parse_end two del: line_append)
qed

lemma port_taken_demo:
  "parse_loop (concat (map line (source_lines
     \<lparr>peername = ''alice'', client_port = 7001, client_ip = ''10.0.0.1'', file_path = ''/d/f'', hash = ''ab''\<rparr>)))
     7000 0 0 [] [] [] = Inr []"
proof -
  have "stoi ''10.0.0.1'' = Inr 10" by (simp add: stoi_def isspace_def isdigit_def digits_value_def)
  moreover have "to_string 7002 = ''7002''"
    by (simp add: to_string_def nat_to_string.simps digit_char_def) code_simp
  ultimately show ?thesis
    by (intro port_taken_for_piece_number [where a = 10]) (simp_all add: LF_def)
qed

text \<open>The tracker records for a client the address and the port on which the client serves
  its pieces, as the client took them from its own argument, if the tracker's buffer is zero behind
  the greeting.\<close>

theorem peer_address_registered:
  assumes "peer_start arg = Inr (port, ip, msg)" and "NUL \<notin> set arg"
  shows "hello msg (NUL # junk) sock t = Inr (t\<lparr>listenmap := (listenmap t)(sock \<mapsto> (port, ip))\<rparr>)"
proof -
  have msg: "msg = arg" "stoi (after_char (CHR '':'') arg) = Inr port" "before_char (CHR '':'') arg = ip"
    using assms(1) by (auto simp: peer_start_def split: sum.splits)
  have "c_str (arg @ NUL # junk) = arg" by (rule c_str_terminated [OF assms(2)])
  then show ?thesis using msg by (simp add: hello_def Let_def)
qed

theorem peer_address_registered_witness:
  "hello ''10.0.0.1:7001'' (NUL # junk) 4 t = Inr (t\<lparr>listenmap := (listenmap t)(4 \<mapsto> (7001, ''10.0.0.1''))\<rparr>)"
proof (rule peer_address_registered [of "''10.0.0.1:7001''"])
  show "peer_start ''10.0.0.1:7001'' = Inr (7001, ''10.0.0.1'', ''10.0.0.1:7001'')"
    by (simp add: peer_start_def after_char_def before_char_def stoi_def isspace_def isdigit_def digits_value_def)
qed simp

end
