(* ===== verification/Peer_Serving.thy ===== *)
theory Peer_Serving
  imports Peer_Transfer Machine
begin

text \<open>
  The thread of a peer that serves pieces (the loop of \<open>send_file\<close> in \<open>src/helper_peer.cpp\<close>): it
  accepts connections and gives each a thread that runs \<open>handle_peer\<close>.  The threads run in any order;
  what one of them reads from the disk it reads at once, and the rest of the peer, which downloads
  files, may change the disk between two of them.
\<close>

section \<open>The loop of send\_file\<close>

text \<open>The connections with a thread are listed by descriptor, with what arrives on them.
  \<open>closed\<close> lists the connections that ended: the disk at that time, what had arrived and what was sent.
  \<open>halted\<close> is how the process ended.\<close>

record serving =
  disk :: files
  workers :: "int \<rightharpoonup> stream"
  closed :: "(files \<times> stream \<times> byte list) list"
  halted :: "service option"

definition serving_start :: "serving \<Rightarrow> bool" where
  "serving_start S \<longleftrightarrow> workers S = Map.empty \<and> closed S = [] \<and> halted S = None"

text \<open>One turn of the loop, with the result of \<open>accept\<close>, which does not wait.\<close>

definition accept_turn :: "int \<Rightarrow> stream \<Rightarrow> serving \<Rightarrow> serving" where
  "accept_turn client_socket st S =
     (if client_socket \<ge> 0 then S\<lparr>workers := (workers S)(client_socket \<mapsto> st)\<rparr> else S)"

text \<open>The thread of a connection: \<open>exit\<close> and an uncaught exception end the whole process.\<close>

definition worker_turn :: "int list \<Rightarrow> byte list \<Rightarrow> byte list \<Rightarrow> int \<Rightarrow> stream \<Rightarrow> serving \<Rightarrow> serving" where
  "worker_turn rs junk junk' client_socket st S =
     (case handle_peer (disk S) rs junk junk' st of
        Served bs \<Rightarrow> S\<lparr>workers := (workers S)(client_socket := None), closed := closed S @ [(disk S, st, bs)]\<rparr>
      | e \<Rightarrow> S\<lparr>halted := Some e\<rparr>)"

text \<open>The kernel gives a descriptor that is not open.\<close>

inductive serving_step :: "serving \<Rightarrow> serving \<Rightarrow> bool" where
  turn_accept: "halted S = None \<Longrightarrow> workers S client_socket = None \<Longrightarrow>
     serving_step S (accept_turn client_socket st S)"
| turn_worker: "halted S = None \<Longrightarrow> workers S client_socket = Some st \<Longrightarrow>
     serving_step S (worker_turn rs junk junk' client_socket st S)"
| turn_disk: "halted S = None \<Longrightarrow> serving_step S (S\<lparr>disk := fs\<rparr>)"

inductive_cases serving_stepE: "serving_step S S'"

section \<open>What is sent\<close>

text \<open>\<open>bs\<close> answers what arrived: nothing, or a beginning of the piece that was asked for.\<close>

definition answers_request :: "files \<Rightarrow> stream \<Rightarrow> byte list \<Rightarrow> bool" where
  "answers_request fs st bs \<longleftrightarrow>
     bs = [] \<or>
     (\<exists>junk junk' path st1 number st2 n c k.
        recv_string junk st = (path, st1) \<and> recv_string junk' st1 = (number, st2) \<and>
        stoi number = Inr (int n) \<and> open_file fs path = Some c \<and> bs = take k (piece n c))"

lemma serve_loop_take: "\<exists>k. serve_loop rs 0 rest = take k (take PIECE_SIZE rest)"
  using serve_loop_prefix [of rs 0 rest] by (metis diff_zero)

lemma handle_peer_answers:
  assumes "handle_peer fs rs junk junk' st = Served bs"
  shows "answers_request fs st bs"
proof (rule ccontr)
  assume no: "\<not> answers_request fs st bs"
  then have "bs \<noteq> []" by (simp add: answers_request_def)
  obtain path st1 number st2 where r: "recv_string junk st = (path, st1)" "recv_string junk' st1 = (number, st2)"
    by (cases "recv_string junk st"; cases "recv_string junk' (snd (recv_string junk st))") auto
  from assms \<open>bs \<noteq> []\<close> obtain i c off where
    o: "stoi number = Inr i" "open_file fs path = Some c" "piece_offset i = Inr off" "0 \<le> off"
      "bs = serve_loop rs 0 (drop (nat off) c)"
    unfolding handle_peer_def r Let_def
    by (auto simp: r not_less split: if_splits sum.splits option.splits)
  from o(3,4) have "0 \<le> i" and "nat off = nat i * PIECE_SIZE"
    by (auto simp: piece_offset_def Let_def zero_le_mult_iff nat_mult_distrib split: if_splits)
  moreover obtain k where "bs = take k (take PIECE_SIZE (drop (nat off) c))"
    using serve_loop_take o(5) by metis
  ultimately have "bs = take k (piece (nat i) c)" and "i = int (nat i)" by (simp_all add: piece_def)
  with no r o(1,2) show False unfolding answers_request_def by metis
qed

section \<open>The invariant\<close>

definition serving_inv :: "serving \<Rightarrow> bool" where
  "serving_inv S \<longleftrightarrow>
     (\<forall>(fs, st, bs) \<in> set (closed S). answers_request fs st bs) \<and> (\<forall>fd \<in> dom (workers S). 0 \<le> fd) \<and>
     (\<forall>e. halted S = Some e \<longrightarrow>
        (\<exists>fd st rs junk junk'. workers S fd = Some st \<and> handle_peer (disk S) rs junk junk' st = e \<and>
           (\<forall>bs. e \<noteq> Served bs)))"

lemma serving_inv_step: "serving_inv S \<Longrightarrow> serving_step S S' \<Longrightarrow> serving_inv S'"
proof (erule serving_stepE, goal_cases)
  case (1 fd st)
  then show ?case by (auto simp: serving_inv_def accept_turn_def)
next
  case (2 fd st rs junk junk')
  then show ?case
    by (cases "handle_peer (disk S) rs junk junk' st")
      (fastforce simp: serving_inv_def worker_turn_def dest: handle_peer_answers)+
next
  case (3 fs)
  then show ?case by (auto simp: serving_inv_def)
qed

interpretation serving_machine: invariant_machine serving_start serving_step serving_inv
  by unfold_locales (simp add: serving_start_def serving_inv_def, rule serving_inv_step)

lemma halted_stops: "halted S = Some e \<Longrightarrow> \<not> serving_step S S'"
  by (auto elim: serving_stepE)

section \<open>One thread among others\<close>

text \<open>A request as \<open>download\<close> sends it, cut by the network outside the lengths.\<close>

definition requests_piece :: "string \<Rightarrow> nat \<Rightarrow> stream \<Rightarrow> bool" where
  "requests_piece path n st \<longleftrightarrow>
     stream_ok st \<and> concat st = send_string path @ send_string (to_string (int n)) \<and>
     path \<noteq> [] \<and> NUL \<notin> set path \<and> length path < 2 ^ 32 \<and> int n \<le> INT_MAX \<and>
     length (to_string (int n)) < 2 ^ 32 \<and> \<not> splits_at 0 st \<and> \<not> splits_at (4 + length path) st"

text \<open>What such a request does: the whole piece is sent, or the process ends.\<close>

definition piece_answered :: "string \<Rightarrow> nat \<Rightarrow> int \<Rightarrow> stream \<Rightarrow> serving \<Rightarrow> serving" where
  "piece_answered path n fd st S =
     (case disk S path of
        None \<Rightarrow> S\<lparr>halted := Some ProcessExit\<rparr>
      | Some c \<Rightarrow>
          if int (n * PIECE_SIZE) \<le> INT_MAX
          then S\<lparr>workers := (workers S)(fd := None), closed := closed S @ [(disk S, st, piece n c)]\<rparr>
          else S\<lparr>halted := Some (ServiceFault SignedOverflow)\<rparr>)"

lemma worker_turn_request:
  assumes "requests_piece path n st" and "length junk = 4" and "length junk' = 4"
  shows "worker_turn [] junk junk' fd st S = piece_answered path n fd st S"
  using handle_peer_served [of st path n junk junk' "disk S"] assms
  by (simp add: requests_piece_def piece_answered_def worker_turn_def split: option.splits)

text \<open>C8: Whatever the order of the connections and their threads, and however the disk changes meanwhile: every
  connection that has ended was sent nothing or a beginning of the piece it asked for, as the disk then was.  A
  request for a piece that is there can be answered in full whatever the others do.  The
  process ends only by a request that is still open; a request for a file that is not there, or for a
  piece whose offset is no \<open>int\<close>, ends it, and the open connections are never answered.\<close>

theorem serving_peer_answers:
  assumes "reach serving_start serving_step S"
  shows "(\<forall>(fs, st', bs) \<in> set (closed S). answers_request fs st' bs) \<and>
         (halted S = None \<and> workers S fd = Some st \<and> requests_piece path n st \<longrightarrow>
            serving_step S (piece_answered path n fd st S)) \<and>
         (\<forall>e. halted S = Some e \<longrightarrow>
            (\<forall>S'. \<not> serving_step S S') \<and>
            (\<exists>fd' st' rs junk junk'. workers S fd' = Some st' \<and> handle_peer (disk S) rs junk junk' st' = e \<and>
               (\<forall>bs. e \<noteq> Served bs)))"
proof -
  have inv: "serving_inv S" using assms(1) by (rule serving_machine.reach_inv)
  have turn: "worker_turn [] (replicate 4 NUL) (replicate 4 NUL) fd st S = piece_answered path n fd st S"
    if "requests_piece path n st" using that by (rule worker_turn_request) simp_all
  have "serving_step S (worker_turn [] (replicate 4 NUL) (replicate 4 NUL) fd st S)"
    if "halted S = None" "workers S fd = Some st" using that by (rule turn_worker)
  with turn have "serving_step S (piece_answered path n fd st S)"
    if "halted S = None" "workers S fd = Some st" "requests_piece path n st" using that by metis
  moreover have "halted S = Some e \<longrightarrow> (\<forall>S'. \<not> serving_step S S')" for e using halted_stops by blast
  ultimately show ?thesis using inv unfolding serving_inv_def by blast
qed

text \<open>Two connections: the first asks for a file that is not there.\<close>

definition demo_serving :: serving where
  "demo_serving = \<lparr>disk = Map.empty, workers = [4 \<mapsto> demo_stream, 5 \<mapsto> []], closed = [], halted = None\<rparr>"

theorem serving_peer_answers_witness:
  "serving_step demo_serving (demo_serving\<lparr>halted := Some ProcessExit\<rparr>)"
proof -
  have "reach serving_start serving_step
      \<lparr>disk = Map.empty, workers = Map.empty, closed = [], halted = None\<rparr>" (is "reach _ _ ?S0")
    by (rule reach_init) (simp add: serving_start_def)
  moreover have "serving_step ?S0 (accept_turn 4 demo_stream ?S0)" by (rule turn_accept) simp_all
  ultimately have "reach serving_start serving_step (accept_turn 4 demo_stream ?S0)" by (rule reach_step)
  moreover have "serving_step (accept_turn 4 demo_stream ?S0) (accept_turn 5 [] (accept_turn 4 demo_stream ?S0))"
    by (rule turn_accept) (simp_all add: accept_turn_def)
  ultimately have "reach serving_start serving_step (accept_turn 5 [] (accept_turn 4 demo_stream ?S0))" by (rule reach_step)
  then have r: "reach serving_start serving_step demo_serving"
    by (simp add: accept_turn_def demo_serving_def fun_upd_twist)
  have "to_string 7 = ''7''"
    by (simp add: to_string_def nat_to_string.simps digit_char_def) code_simp
  then show ?thesis
    using serving_peer_answers [OF r, of 4 demo_stream "''a.t''" 7] demo_stream_facts
    by (simp add: demo_serving_def requests_piece_def piece_answered_def)
qed

end
