(* ===== verification/Store.thy ===== *)
theory Store
  imports Prelude
begin

text \<open>
  Singly linked lists in memory: a store maps addresses to cells with a content and a
  \<open>next\<close> pointer (\<open>None\<close> is \<open>nullptr\<close>).  \<open>new\<close> takes the next unused address;
  reading, writing or deleting a cell that is not allocated is a fault.  \<open>chain h p as q\<close>
  says that following \<open>next\<close> from \<open>p\<close> visits the addresses \<open>as\<close> and ends at \<open>q\<close>.
\<close>

section \<open>Memory\<close>

record 'a cell =
  content :: 'a
  link :: "nat option"

record 'a store =
  cells :: "nat \<rightharpoonup> 'a cell"
  brk :: nat

definition empty_store :: "'a store" where
  "empty_store = \<lparr>cells = Map.empty, brk = 0\<rparr>"

definition store_wf :: "'a store \<Rightarrow> bool" where
  "store_wf st \<longleftrightarrow> (\<forall>a c. cells st a = Some c \<longrightarrow> a < brk st)"

definition new_cell :: "'a \<Rightarrow> nat option \<Rightarrow> 'a store \<Rightarrow> nat \<times> 'a store" where
  "new_cell x nx st =
     (brk st, st\<lparr>cells := (cells st)(brk st \<mapsto> \<lparr>content = x, link = nx\<rparr>), brk := Suc (brk st)\<rparr>)"

definition read_cell :: "'a store \<Rightarrow> nat \<Rightarrow> fault + 'a cell" where
  "read_cell st a = (case cells st a of None \<Rightarrow> Inl UseAfterFree | Some c \<Rightarrow> Inr c)"

definition set_link :: "nat \<Rightarrow> nat option \<Rightarrow> 'a store \<Rightarrow> fault + 'a store" where
  "set_link a nx st =
     (case cells st a of
        None \<Rightarrow> Inl UseAfterFree
      | Some c \<Rightarrow> Inr (st\<lparr>cells := (cells st)(a \<mapsto> c\<lparr>link := nx\<rparr>)\<rparr>))"

definition delete_cell :: "nat \<Rightarrow> 'a store \<Rightarrow> fault + 'a store" where
  "delete_cell a st =
     (case cells st a of
        None \<Rightarrow> Inl UseAfterFree
      | Some _ \<Rightarrow> Inr (st\<lparr>cells := (cells st)(a := None)\<rparr>))"

lemma store_wf_simps [simp]:
  "store_wf empty_store" "store_wf st \<Longrightarrow> store_wf (snd (new_cell x nx st))"
  by (auto simp: store_wf_def empty_store_def new_cell_def less_Suc_eq)

lemma store_wf_fresh: "store_wf st \<Longrightarrow> cells st (brk st) = None"
  unfolding store_wf_def by (metis less_irrefl not_None_eq)

lemma set_link_wf: "set_link a nx st = Inr st' \<Longrightarrow> store_wf st \<Longrightarrow> store_wf st'"
  by (auto simp: set_link_def store_wf_def split: option.splits if_splits)

lemma delete_cell_wf: "delete_cell a st = Inr st' \<Longrightarrow> store_wf st \<Longrightarrow> store_wf st'"
  by (auto simp: delete_cell_def store_wf_def split: option.splits if_splits)

section \<open>Chains\<close>

fun chain :: "(nat \<rightharpoonup> 'a cell) \<Rightarrow> nat option \<Rightarrow> nat list \<Rightarrow> nat option \<Rightarrow> bool" where
  "chain h p [] q \<longleftrightarrow> p = q"
| "chain h p (a # as) q \<longleftrightarrow> p = Some a \<and> (\<exists>c. h a = Some c \<and> chain h (link c) as q)"

definition contents :: "(nat \<rightharpoonup> 'a cell) \<Rightarrow> nat list \<Rightarrow> 'a list" where
  "contents h as = map (\<lambda>a. content (the (h a))) as"

definition list_at :: "'a store \<Rightarrow> nat option \<Rightarrow> nat list \<Rightarrow> 'a list \<Rightarrow> bool" where
  "list_at st p as xs \<longleftrightarrow> chain (cells st) p as None \<and> distinct as \<and> xs = contents (cells st) as"

lemma contents_simps [simp]:
  "contents h [] = []" "contents h (a # as) = content (the (h a)) # contents h as"
  "contents h (as @ bs) = contents h as @ contents h bs" "length (contents h as) = length as"
  by (simp_all add: contents_def)

lemma chain_append: "chain h p (as @ bs) q \<longleftrightarrow> (\<exists>r. chain h p as r \<and> chain h r bs q)"
  by (induction as arbitrary: p) auto

lemma chain_cong: "(\<And>a. a \<in> set as \<Longrightarrow> h' a = h a) \<Longrightarrow> chain h' p as q = chain h p as q"
  by (induction as arbitrary: p) auto

lemma contents_cong: "(\<And>a. a \<in> set as \<Longrightarrow> h' a = h a) \<Longrightarrow> contents h' as = contents h as"
  by (auto simp: contents_def)

lemma chain_allocated: "chain h p as q \<Longrightarrow> a \<in> set as \<Longrightarrow> h a \<noteq> None"
  by (induction as arbitrary: p) auto

lemma chain_upd_other [simp]: "a \<notin> set as \<Longrightarrow> chain (h(a := c)) p as q = chain h p as q"
  by (rule chain_cong) auto

lemma contents_upd_other [simp]: "a \<notin> set as \<Longrightarrow> contents (h(a := c)) as = contents h as"
  by (rule contents_cong) auto

lemma chain_None: "chain h None as q \<longleftrightarrow> as = [] \<and> q = None"
  by (cases as) auto

lemma list_at_Nil [simp]: "list_at st p [] xs \<longleftrightarrow> p = None \<and> xs = []"
  by (auto simp: list_at_def)

lemma list_at_Null [simp]: "list_at st None as xs \<longleftrightarrow> as = [] \<and> xs = []"
  by (auto simp: list_at_def chain_None)

lemma list_at_unique: "list_at st p as xs \<Longrightarrow> list_at st p bs ys \<Longrightarrow> as = bs \<and> xs = ys"
proof -
  have "chain h p as None \<Longrightarrow> chain h p bs None \<Longrightarrow> as = bs" for h :: "nat \<rightharpoonup> 'a cell"
  proof (induction as arbitrary: p bs)
    case Nil
    then show ?case by (simp add: chain_None)
  next
    case (Cons a as)
    then show ?case by (cases bs) auto
  qed
  then show "list_at st p as xs \<Longrightarrow> list_at st p bs ys \<Longrightarrow> as = bs \<and> xs = ys"
    by (auto simp: list_at_def)
qed

lemma list_at_new_front:
  assumes "store_wf st" and "list_at st p as xs"
  shows "list_at (snd (new_cell x p st)) (Some (fst (new_cell x p st))) (brk st # as) (x # xs)"
proof -
  have "brk st \<notin> set as"
    using assms chain_allocated [of "cells st" p as None "brk st"] store_wf_fresh [OF assms(1)]
    by (auto simp: list_at_def)
  with assms show ?thesis by (simp add: list_at_def new_cell_def)
qed

text \<open>Unlinking a cell: what \<open>prev->next = cur->next; delete cur\<close> leaves.\<close>

lemma chain_unlink:
  assumes "chain h p (as @ [b] @ a # bs) None" and "distinct (as @ [b] @ a # bs)"
    and "h a = Some c" and "h b = Some d"
  shows "chain (h(b \<mapsto> d\<lparr>link := link c\<rparr>, a := None)) p (as @ b # bs) None"
    and "contents (h(b \<mapsto> d\<lparr>link := link c\<rparr>, a := None)) (as @ b # bs) =
           contents h (as @ b # bs)"
  using assms by (auto simp: chain_append)

section \<open>Searching a list\<close>

text \<open>The loop every search of a list runs: follow \<open>next\<close> until the predicate holds, with
  the previous cell at hand.  It need not end on a cyclic list, so it is partial.\<close>

datatype found = NotFound | Found "nat option" nat | Dangling

partial_function (option) scan ::
    "('a \<Rightarrow> bool) \<Rightarrow> 'a store \<Rightarrow> nat option \<Rightarrow> nat option \<Rightarrow> found option" where
  "scan P st prev cur =
     (case cur of
        None \<Rightarrow> Some NotFound
      | Some a \<Rightarrow>
          (case cells st a of
             None \<Rightarrow> Some Dangling
           | Some c \<Rightarrow> if P (content c) then Some (Found prev a) else scan P st (Some a) (link c)))"

lemma scan_None [simp]: "scan P st prev None = Some NotFound"
  by (simp add: scan.simps)

lemma scan_Some:
  "cells st a = Some c \<Longrightarrow>
   scan P st prev (Some a) = (if P (content c) then Some (Found prev a) else scan P st (Some a) (link c))"
  by (simp add: scan.simps)

definition last_addr :: "nat option \<Rightarrow> nat list \<Rightarrow> nat option" where
  "last_addr prev as = (if as = [] then prev else Some (last as))"

lemma scan_not_found:
  "chain (cells st) cur as None \<Longrightarrow> \<forall>x \<in> set (contents (cells st) as). \<not> P x \<Longrightarrow>
   scan P st prev cur = Some NotFound"
  by (induction as arbitrary: prev cur) (auto simp: scan_Some)

lemma scan_found:
  "chain (cells st) cur (as @ a # bs) None \<Longrightarrow> \<forall>x \<in> set (contents (cells st) as). \<not> P x \<Longrightarrow>
   P (content (the (cells st a))) \<Longrightarrow>
   scan P st prev cur = Some (Found (last_addr prev as) a)"
proof (induction as arbitrary: prev cur)
  case (Cons b as)
  then show ?case by (auto simp: scan_Some last_addr_def)
qed (auto simp: scan_Some last_addr_def)

text \<open>The first element that satisfies the predicate splits the list of addresses.\<close>

lemma first_match:
  assumes "\<exists>x \<in> set (contents h as). P x"
  obtains bs a cs where "as = bs @ a # cs" and "\<forall>x \<in> set (contents h bs). \<not> P x"
    and "P (content (the (h a)))"
proof -
  from assms have "\<exists>a \<in> set as. P (content (the (h a)))"
    by (auto simp: contents_def)
  then obtain bs a cs where "as = bs @ a # cs" "P (content (the (h a)))"
    "\<forall>b \<in> set bs. \<not> P (content (the (h b)))"
    by (auto dest!: split_list_first_prop)
  then show ?thesis using that by (auto simp: contents_def)
qed

text \<open>On a list that ends, the loop ends: it finds the first match or nothing.\<close>

lemma scan_total:
  assumes "list_at st p as xs"
  shows "(\<forall>x \<in> set xs. \<not> P x) \<and> scan P st None p = Some NotFound \<or>
         (\<exists>bs a cs. as = bs @ a # cs \<and> (\<forall>x \<in> set (contents (cells st) bs). \<not> P x) \<and>
            P (content (the (cells st a))) \<and> scan P st None p = Some (Found (last_addr None bs) a))"
proof (cases "\<exists>x \<in> set (contents (cells st) as). P x")
  case True
  then obtain bs a cs where "as = bs @ a # cs" "\<forall>x \<in> set (contents (cells st) bs). \<not> P x"
    "P (content (the (cells st a)))" by (rule first_match)
  with assms scan_found [of st p bs a cs P None] show ?thesis by (auto simp: list_at_def)
next
  case False
  with assms scan_not_found [of st p as P None] show ?thesis by (auto simp: list_at_def)
qed

section \<open>Removing the element a search found\<close>

definition remove_found :: "nat option \<Rightarrow> nat \<Rightarrow> nat option \<Rightarrow> 'a store \<Rightarrow> fault + (nat option \<times> 'a store)" where
  "remove_found prev a hd_ptr st =
     (case read_cell st a of
        Inl e \<Rightarrow> Inl e
      | Inr c \<Rightarrow>
          (case prev of
             None \<Rightarrow> (case delete_cell a st of Inl e \<Rightarrow> Inl e | Inr st' \<Rightarrow> Inr (link c, st'))
           | Some b \<Rightarrow>
               (case set_link b (link c) st of
                  Inl e \<Rightarrow> Inl e
                | Inr st1 \<Rightarrow> (case delete_cell a st1 of Inl e \<Rightarrow> Inl e | Inr st2 \<Rightarrow> Inr (hd_ptr, st2)))))"

lemma remove_found_list:
  assumes "list_at st p (bs @ a # cs) xs" and "store_wf st"
  obtains p' st' where "remove_found (last_addr None bs) a p st = Inr (p', st')"
    and "list_at st' p' (bs @ cs) (contents (cells st) bs @ contents (cells st) cs)"
    and "store_wf st'" and "brk st' = brk st"
    and "\<And>x. x \<notin> set (bs @ a # cs) \<Longrightarrow> cells st' x = cells st x"
proof -
  have ch: "chain (cells st) p (bs @ a # cs) None" and d: "distinct (bs @ a # cs)"
    using assms(1) by (simp_all add: list_at_def)
  obtain c where c: "cells st a = Some c" using chain_allocated [OF ch, of a] by auto
  show ?thesis
  proof (cases bs rule: rev_cases)
    case Nil
    let ?st = "st\<lparr>cells := (cells st)(a := None)\<rparr>"
    show ?thesis
    proof (rule that [of "link c" ?st])
      show "list_at ?st (link c) (bs @ cs) (contents (cells st) bs @ contents (cells st) cs)"
        using ch d c Nil by (auto simp: list_at_def)
      show "store_wf ?st" using assms(2) by (auto simp: store_wf_def)
    qed (use c Nil in \<open>auto simp: remove_found_def read_cell_def delete_cell_def last_addr_def\<close>)
  next
    case (snoc ys b)
    obtain e where e: "cells st b = Some e" using chain_allocated [OF ch, of b] snoc by auto
    let ?st = "st\<lparr>cells := (cells st)(b \<mapsto> e\<lparr>link := link c\<rparr>, a := None)\<rparr>"
    have ch': "chain (cells st) p (ys @ [b] @ a # cs) None" "distinct (ys @ [b] @ a # cs)"
      using ch d snoc by simp_all
    show ?thesis
    proof (rule that [of p ?st])
      show "list_at ?st p (bs @ cs) (contents (cells st) bs @ contents (cells st) cs)"
        using chain_unlink [OF ch' c e] d snoc by (simp add: list_at_def)
      show "store_wf ?st" using assms(2) c e by (auto simp: store_wf_def)
    qed (use c e d snoc in \<open>auto simp: remove_found_def read_cell_def set_link_def delete_cell_def last_addr_def\<close>)
  qed
qed

end
