(* ===== verification/Chord_Id.thy ===== *)
theory Chord_Id
  imports Prelude
begin

text \<open>
  The identifier space of the Chord ring: \<open>memcmp\<close> on 20-byte identifiers,
  \<open>is_in_interval\<close> and \<open>should_transfer_file\<close> of \<open>src/utils.cpp\<close>, and what they
  mean for the identifiers read as numbers below \<open>2 ^ 160\<close>, placed on a circle.
\<close>

section \<open>Comparing identifiers\<close>

definition HASH_SIZE :: nat where "HASH_SIZE = 20"

text \<open>The first \<open>n\<close> bytes, compared as unsigned; only the sign of the result matters.\<close>

fun memcmp :: "byte list \<Rightarrow> byte list \<Rightarrow> nat \<Rightarrow> int" where
  "memcmp (x # xs) (y # ys) (Suc n) = (if x < y then -1 else if y < x then 1 else memcmp xs ys n)"
| "memcmp xs ys n = 0"

definition is_in_interval :: "byte list \<Rightarrow> byte list \<Rightarrow> byte list \<Rightarrow> bool" where
  "is_in_interval i a b =
     (if memcmp a b HASH_SIZE < 0 then memcmp i a HASH_SIZE > 0 \<and> memcmp i b HASH_SIZE < 0
      else memcmp i a HASH_SIZE > 0 \<or> memcmp i b HASH_SIZE < 0)"

definition should_transfer_file :: "byte list \<Rightarrow> byte list \<Rightarrow> byte list \<Rightarrow> bool" where
  "should_transfer_file file_id new_node_id current_node_id \<longleftrightarrow>
     memcmp file_id new_node_id HASH_SIZE > 0 \<and> memcmp file_id current_node_id HASH_SIZE \<le> 0"

section \<open>Identifiers as numbers\<close>

definition is_id :: "byte list \<Rightarrow> bool" where
  "is_id i \<longleftrightarrow> length i = HASH_SIZE"

fun be_val :: "byte list \<Rightarrow> nat" where
  "be_val [] = 0"
| "be_val (b # bs) = of_char b * 256 ^ length bs + be_val bs"

definition id_num :: "byte list \<Rightarrow> int" where
  "id_num i = int (be_val i)"

definition ring_size :: int where
  "ring_size = 2 ^ 160"

lemma of_char_less_256 [simp]: "(of_char c :: nat) < 256"
  using mod_less_divisor [of 256 "of_char c :: nat"] by (simp del: mod_less_divisor)

lemma be_val_less: "be_val bs < 256 ^ length bs"
proof (induction bs)
  case (Cons b bs)
  have "Suc (of_char b) \<le> (256 :: nat)" by (rule Suc_leI) (rule of_char_less_256)
  then have "Suc (of_char b) * 256 ^ length bs \<le> (256 :: nat) * 256 ^ length bs"
    by (rule mult_le_mono1)
  then have "256 ^ length bs + of_char b * 256 ^ length bs \<le> (256 :: nat) * 256 ^ length bs"
    by (simp only: mult_Suc)
  with Cons have "of_char b * 256 ^ length bs + be_val bs < (256 :: nat) * 256 ^ length bs"
    by linarith
  then show ?case by simp
qed simp

lemma memcmp_be_val:
  assumes "length a = n" and "length b = n"
  shows "memcmp a b n = (if be_val a < be_val b then -1 else if be_val b < be_val a then 1 else 0)"
  using assms
proof (induction a b n rule: memcmp.induct)
  case (1 x xs y ys n)
  have less: "of_char u * 256 ^ n + be_val us < of_char v * 256 ^ n + be_val vs"
    if "u < v" "length us = n" "length vs = n" for u v :: byte and us vs
  proof -
    have "Suc (of_char u) \<le> (of_char v :: nat)" using that(1) by (simp add: less_char_def Suc_leI)
    then have "Suc (of_char u) * 256 ^ n \<le> (of_char v :: nat) * 256 ^ n" by (rule mult_le_mono1)
    with be_val_less [of us] that(2) show ?thesis by simp
  qed
  show ?case
  proof (cases "x = y")
    case True
    with 1 show ?thesis by simp
  next
    case False
    then consider "x < y" | "y < x" by fastforce
    then show ?thesis
    proof cases
      case 1
      with "1.prems" less [OF 1, of xs ys] show ?thesis by simp
    next
      case 2
      with "1.prems" less [OF 2, of ys xs] show ?thesis by (simp add: not_less_iff_gr_or_eq)
    qed
  qed
qed auto

lemma memcmp_id_num:
  assumes "is_id a" and "is_id b"
  shows "memcmp a b HASH_SIZE < 0 \<longleftrightarrow> id_num a < id_num b"
    and "memcmp a b HASH_SIZE > 0 \<longleftrightarrow> id_num b < id_num a"
    and "memcmp a b HASH_SIZE = 0 \<longleftrightarrow> id_num a = id_num b"
    and "memcmp a b HASH_SIZE \<le> 0 \<longleftrightarrow> id_num a \<le> id_num b"
  using assms memcmp_be_val [of a HASH_SIZE b] by (auto simp: is_id_def id_num_def)

lemma memcmp_eq_0: "length a = n \<Longrightarrow> length b = n \<Longrightarrow> memcmp a b n = 0 \<longleftrightarrow> a = b"
proof (induction a b n rule: memcmp.induct)
  case (1 x xs y ys n)
  then show ?case by (auto simp: not_less_iff_gr_or_eq)
qed auto

lemma memcmp_self [simp]: "memcmp a a n = 0"
proof (induction n arbitrary: a)
  case (Suc n)
  then show ?case by (cases a) simp_all
qed simp

lemma id_num_inject: "is_id a \<Longrightarrow> is_id b \<Longrightarrow> id_num a = id_num b \<longleftrightarrow> a = b"
  using memcmp_id_num(3) memcmp_eq_0 [of a HASH_SIZE b] by (auto simp: is_id_def)

lemma id_num_bounds:
  assumes "is_id a"
  shows "0 \<le> id_num a" and "id_num a < ring_size"
proof -
  have "be_val a < 256 ^ 20" using be_val_less [of a] assms by (simp add: is_id_def HASH_SIZE_def)
  then show "0 \<le> id_num a" "id_num a < ring_size"
    by (simp_all add: id_num_def ring_size_def)
qed

section \<open>The circle\<close>

text \<open>How far \<open>b\<close> lies clockwise from \<open>a\<close>; the open arc from \<open>a\<close> to \<open>b\<close>, which is
  the whole circle but \<open>a\<close> where the ends coincide; the one of two nodes that a key
  meets first going clockwise.\<close>

definition clockwise :: "int \<Rightarrow> int \<Rightarrow> int" where
  "clockwise a b = (b - a) mod ring_size"

definition in_arc :: "int \<Rightarrow> int \<Rightarrow> int \<Rightarrow> bool" where
  "in_arc i a b \<longleftrightarrow>
     0 < clockwise a i \<and> clockwise a i < (if a = b then ring_size else clockwise a b)"

definition responsible :: "int set \<Rightarrow> int \<Rightarrow> int \<Rightarrow> bool" where
  "responsible ns k m \<longleftrightarrow> m \<in> ns \<and> (\<forall>x \<in> ns. clockwise k m \<le> clockwise k x)"

lemma clockwise_cases:
  assumes "0 \<le> a" "a < ring_size" "0 \<le> b" "b < ring_size"
  shows "clockwise a b = (if a \<le> b then b - a else b - a + ring_size)"
proof (cases "a \<le> b")
  case True
  with assms show ?thesis by (simp add: clockwise_def)
next
  case False
  have "(b - a) mod ring_size = (b - a + ring_size) mod ring_size" by simp
  also have "\<dots> = b - a + ring_size" using assms False by (intro mod_pos_pos_trivial) auto
  finally show ?thesis using False by (simp add: clockwise_def)
qed

lemma is_in_interval_iff:
  assumes "is_id i" and "is_id a" and "is_id b"
  shows "is_in_interval i a b \<longleftrightarrow> in_arc (id_num i) (id_num a) (id_num b)"
  using assms id_num_bounds [of i] id_num_bounds [of a] id_num_bounds [of b]
  by (auto simp: is_in_interval_def in_arc_def clockwise_cases memcmp_id_num)

lemma not_in_interval_from_self: "\<not> is_in_interval a a b"
  by (auto simp: is_in_interval_def)

text \<open>C23: on 20-byte identifiers \<open>is_in_interval\<close> decides whether the identifier lies on the
  open arc of the ring that runs clockwise from \<open>a\<close> to \<open>b\<close>, across zero or not; the arc from
  a node to itself is the rest of the ring.\<close>

theorem is_in_interval_arc:
  assumes "is_id i" and "is_id a" and "is_id b"
  shows "is_in_interval i a b \<longleftrightarrow> in_arc (id_num i) (id_num a) (id_num b)"
  by (rule is_in_interval_iff [OF assms])

definition small_id :: "nat \<Rightarrow> byte list" where
  "small_id n = replicate 19 NUL @ [char_of n]"

lemma small_id_is_id: "is_id (small_id n)"
  by (simp add: small_id_def is_id_def HASH_SIZE_def)

lemma be_val_replicate: "be_val (replicate k NUL @ bs) = be_val bs"
  by (induction k) auto

lemma small_id_num: "n < 256 \<Longrightarrow> id_num (small_id n) = int n"
  by (simp add: small_id_def id_num_def be_val_replicate)

theorem is_in_interval_arc_witness:
  "is_in_interval (small_id 3) (small_id 200) (small_id 7) \<and> in_arc 3 200 7"
proof -
  have "in_arc 3 200 7" by (simp add: in_arc_def clockwise_def ring_size_def)
  with is_in_interval_arc [OF small_id_is_id small_id_is_id small_id_is_id, of 3 200 7] show ?thesis
    by (simp add: small_id_num)
qed

text \<open>\<open>should_transfer_file\<close> never holds where the new node's identifier is above the
  current node's, that is where the arc between them crosses zero; elsewhere it holds on
  exactly that arc, its upper end included.\<close>

theorem should_transfer_file_arc:
  assumes "is_id f" and "is_id nw" and "is_id cur"
  shows "should_transfer_file f nw cur \<longleftrightarrow>
           id_num nw < id_num cur \<and> (in_arc (id_num f) (id_num nw) (id_num cur) \<or> f = cur)"
  using assms id_num_bounds [of f] id_num_bounds [of nw] id_num_bounds [of cur]
  by (auto simp: should_transfer_file_def in_arc_def clockwise_cases memcmp_id_num id_num_inject [symmetric])

theorem should_transfer_file_arc_witness:
  "should_transfer_file (small_id 5) (small_id 3) (small_id 9) \<and>
   \<not> should_transfer_file (small_id 5) (small_id 200) (small_id 9)"
  using should_transfer_file_arc [OF small_id_is_id small_id_is_id small_id_is_id, of 5 3 9]
    should_transfer_file_arc [OF small_id_is_id small_id_is_id small_id_is_id, of 5 200 9]
  by (simp add: small_id_num in_arc_def clockwise_def ring_size_def)

text \<open>C34: a file that the current node hands to a joining node is one the current node stays
  responsible for: of the two, the current node is the first clockwise from the file's
  identifier.  So the files transferred are none of those the new node becomes responsible
  for.\<close>

theorem transferred_files_stay_responsible:
  assumes "is_id f" and "is_id nw" and "is_id cur" and "should_transfer_file f nw cur"
  shows "responsible {id_num nw, id_num cur} (id_num f) (id_num cur) \<and>
         \<not> responsible {id_num nw, id_num cur} (id_num f) (id_num nw)"
  using assms id_num_bounds [of f] id_num_bounds [of nw] id_num_bounds [of cur]
  by (auto simp: should_transfer_file_def responsible_def clockwise_cases memcmp_id_num)

theorem transferred_files_stay_responsible_witness:
  "should_transfer_file (small_id 5) (small_id 3) (small_id 9) \<and> responsible {3, 9} 5 9"
proof -
  have "should_transfer_file (small_id 5) (small_id 3) (small_id 9)"
    by (simp add: should_transfer_file_def memcmp_id_num small_id_is_id small_id_num)
  with transferred_files_stay_responsible [OF small_id_is_id small_id_is_id small_id_is_id this]
  show ?thesis by (simp add: small_id_num)
qed

end
