(* ===== verification/File_Store.thy ===== *)
theory File_Store
  imports Store C_Arrays Chord_Id
begin

text \<open>
  The lists of file entries a node keeps (\<open>include/file_entry.hpp\<close>,
  \<open>src/file_entry.cpp\<close>, \<open>src/utils.cpp\<close>), on the linked list in memory: each operation
  takes and returns the head pointer and the store.  The SHA-1 function of \<open>sh1.cpp\<close> is the
  argument \<open>H\<close>; \<open>junk\<close> is what freshly allocated memory holds.
\<close>

section \<open>Entries\<close>

definition MAX_FILENAME :: nat where "MAX_FILENAME = 256"
definition MAX_FILEPATH :: nat where "MAX_FILEPATH = 4096"
definition IP_SIZE :: nat where "IP_SIZE = 16"

lemmas size_defs = MAX_FILENAME_def MAX_FILEPATH_def IP_SIZE_def HASH_SIZE_def

text \<open>\<open>FileEntry\<close>; its \<open>next\<close> pointer is the \<open>link\<close> of the cell.\<close>

record file_entry =
  fid :: "byte list"
  ffilename :: "byte list"
  ffilepath :: "byte list"
  fowner_ip :: "byte list"
  fowner_port :: int

type_synonym file_heap = "file_entry store"

definition entry_wf :: "file_entry \<Rightarrow> bool" where
  "entry_wf e \<longleftrightarrow> length (fid e) = HASH_SIZE \<and> length (ffilename e) = MAX_FILENAME \<and>
     length (ffilepath e) = MAX_FILEPATH \<and> length (fowner_ip e) = IP_SIZE \<and>
     INT_MIN \<le> fowner_port e \<and> fowner_port e \<le> INT_MAX"

text \<open>The part of a path after its last slash (\<open>strrchr\<close>).\<close>

definition file_name_of :: "string \<Rightarrow> string" where
  "file_name_of p = rev (takeWhile (\<lambda>c. c \<noteq> CHR ''/'') (rev p))"

section \<open>Adding an entry\<close>

definition fill_entry ::
    "file_entry \<Rightarrow> byte list \<Rightarrow> string \<Rightarrow> string \<Rightarrow> string \<Rightarrow> int \<Rightarrow> fault + file_entry" where
  "fill_entry junk i filename filepath ip port =
     (case strncpy_term (ffilename junk) filename MAX_FILENAME of
        Inl e \<Rightarrow> Inl e
      | Inr fname \<Rightarrow>
          (case strncpy_term (ffilepath junk) filepath MAX_FILEPATH of
             Inl e \<Rightarrow> Inl e
           | Inr fpath \<Rightarrow>
               (case strcpy (fowner_ip junk) ip of
                  Inl e \<Rightarrow> Inl e
                | Inr oip \<Rightarrow> Inr \<lparr>fid = i, ffilename = fname, ffilepath = fpath, fowner_ip = oip,
                                fowner_port = port\<rparr>)))"

definition internal_store_file ::
    "file_entry \<Rightarrow> string \<Rightarrow> string \<Rightarrow> byte list \<Rightarrow> string \<Rightarrow> int \<Rightarrow> nat option \<Rightarrow> file_heap \<Rightarrow>
     fault + (nat option \<times> file_heap)" where
  "internal_store_file junk filename filepath file_id ip port files st =
     (case fill_entry junk file_id filename filepath ip port of
        Inl e \<Rightarrow> Inl e
      | Inr new_entry \<Rightarrow> let (a, st') = new_cell new_entry files st in Inr (Some a, st'))"

definition confirm_file_stored ::
    "(string \<Rightarrow> byte list) \<Rightarrow> file_entry \<Rightarrow> string \<Rightarrow> string \<Rightarrow> int \<Rightarrow> nat option \<Rightarrow> file_heap \<Rightarrow>
     fault + (nat option \<times> file_heap)" where
  "confirm_file_stored H junk filepath node_ip node_port uploaded st =
     (let filename = file_name_of filepath in
      case fill_entry junk (H filename) filename filepath node_ip node_port of
        Inl e \<Rightarrow> Inl e
      | Inr new_entry \<Rightarrow> let (a, st') = new_cell new_entry uploaded st in Inr (Some a, st'))"

section \<open>Looking up and removing entries\<close>

text \<open>The loop of \<open>find_file\<close> over the node's own files: the address of the entry.\<close>

definition lookup_file :: "byte list \<Rightarrow> nat option \<Rightarrow> file_heap \<Rightarrow> (fault + nat option) option" where
  "lookup_file i files st =
     (case scan (\<lambda>e. memcmp (fid e) i HASH_SIZE = 0) st None files of
        None \<Rightarrow> None
      | Some NotFound \<Rightarrow> Some (Inr None)
      | Some Dangling \<Rightarrow> Some (Inl UseAfterFree)
      | Some (Found prev a) \<Rightarrow> Some (Inr (Some a)))"

definition find_uploaded_file :: "string \<Rightarrow> nat option \<Rightarrow> file_heap \<Rightarrow> (fault + nat option) option" where
  "find_uploaded_file filepath uploaded st =
     (case scan (\<lambda>e. c_str (ffilepath e) = filepath) st None uploaded of
        None \<Rightarrow> None
      | Some NotFound \<Rightarrow> Some (Inr None)
      | Some Dangling \<Rightarrow> Some (Inl UseAfterFree)
      | Some (Found prev a) \<Rightarrow> Some (Inr (Some a)))"

text \<open>The result is the return value, the head pointer and the store.\<close>

definition delete_file_entry ::
    "nat option \<Rightarrow> byte list \<Rightarrow> file_heap \<Rightarrow> (fault + (int \<times> nat option \<times> file_heap)) option" where
  "delete_file_entry pFiles i st =
     (case scan (\<lambda>e. memcmp (fid e) i HASH_SIZE = 0) st None pFiles of
        None \<Rightarrow> None
      | Some NotFound \<Rightarrow> Some (Inr (-1, pFiles, st))
      | Some Dangling \<Rightarrow> Some (Inl UseAfterFree)
      | Some (Found prev a) \<Rightarrow>
          (case remove_found prev a pFiles st of
             Inl e \<Rightarrow> Some (Inl e)
           | Inr (p, st') \<Rightarrow> Some (Inr (0, p, st'))))"

partial_function (option) delete_transferred_loop ::
    "byte list \<Rightarrow> byte list \<Rightarrow> nat option \<Rightarrow> nat option \<Rightarrow> nat option \<Rightarrow> file_heap \<Rightarrow>
     (fault + (nat option \<times> file_heap)) option" where
  "delete_transferred_loop new_id cur_id prev entry pFiles st =
     (case entry of
        None \<Rightarrow> Some (Inr (pFiles, st))
      | Some a \<Rightarrow>
          (case read_cell st a of
             Inl e \<Rightarrow> Some (Inl e)
           | Inr c \<Rightarrow>
               if should_transfer_file (fid (content c)) new_id cur_id then
                 (case remove_found prev a pFiles st of
                    Inl e \<Rightarrow> Some (Inl e)
                  | Inr (p, st') \<Rightarrow> delete_transferred_loop new_id cur_id prev (link c) p st')
               else delete_transferred_loop new_id cur_id (Some a) (link c) pFiles st))"

definition delete_transferred_files ::
    "nat option \<Rightarrow> byte list \<Rightarrow> byte list \<Rightarrow> file_heap \<Rightarrow> (fault + (nat option \<times> file_heap)) option" where
  "delete_transferred_files pFiles new_id cur_id st =
     delete_transferred_loop new_id cur_id None pFiles pFiles st"

text \<open>\<open>cleanup_node\<close> frees a list without touching the pointer to it.\<close>

partial_function (option) free_files :: "nat option \<Rightarrow> file_heap \<Rightarrow> (fault + file_heap) option" where
  "free_files file st =
     (case file of
        None \<Rightarrow> Some (Inr st)
      | Some a \<Rightarrow>
          (case read_cell st a of
             Inl e \<Rightarrow> Some (Inl e)
           | Inr c \<Rightarrow> (case delete_cell a st of Inl e \<Rightarrow> Some (Inl e) | Inr st' \<Rightarrow> free_files (link c) st')))"

section \<open>Two disjoint lists in one memory\<close>

definition files_at :: "file_heap \<Rightarrow> nat option \<Rightarrow> nat option \<Rightarrow> file_entry list \<Rightarrow> file_entry list \<Rightarrow> bool" where
  "files_at st fp up xs ys \<longleftrightarrow>
     (\<exists>as bs. list_at st fp as xs \<and> list_at st up bs ys \<and> set as \<inter> set bs = {} \<and> store_wf st)"

lemma files_at_empty [simp]: "files_at empty_store None None [] []"
  by (simp add: files_at_def)

lemma files_at_swap: "files_at st fp up xs ys \<Longrightarrow> files_at st up fp ys xs"
  unfolding files_at_def by (metis Int_commute)

lemma list_at_frame:
  "list_at st p as xs \<Longrightarrow> (\<And>a. a \<in> set as \<Longrightarrow> cells st' a = cells st a) \<Longrightarrow> list_at st' p as xs"
  unfolding list_at_def using chain_cong contents_cong by metis

lemma list_at_less: "list_at st p as xs \<Longrightarrow> store_wf st \<Longrightarrow> a \<in> set as \<Longrightarrow> a < brk st"
  unfolding list_at_def store_wf_def using chain_allocated by fastforce

lemma files_at_new:
  assumes "files_at st fp up xs ys" and "new_cell x fp st = (a, st')"
  shows "files_at st' (Some a) up (x # xs) ys"
proof -
  from assms(1) obtain as bs where at: "list_at st fp as xs" "list_at st up bs ys"
    "set as \<inter> set bs = {}" "store_wf st" by (auto simp: files_at_def)
  have a: "a = brk st" and st': "st' = snd (new_cell x fp st)"
    using assms(2) by (auto simp: new_cell_def)
  have "list_at st' (Some a) (a # as) (x # xs)"
    using list_at_new_front [OF at(4,1), of x] assms(2) by (simp add: a)
  moreover have nb: "a \<notin> set bs" using list_at_less [OF at(2,4), of a] by (auto simp: a)
  have "list_at st' up bs ys"
    by (rule list_at_frame [OF at(2)]) (use nb in \<open>auto simp: st' new_cell_def a\<close>)
  moreover have "store_wf st'" using at(4) by (simp add: st')
  ultimately show ?thesis using at(3) nb unfolding files_at_def by (metis Int_insert_left_if0 list.simps(15))
qed

section \<open>Each operation on the list it holds\<close>

lemma fill_entry_ok:
  assumes "entry_wf junk" and "length i = HASH_SIZE" and "length ip < IP_SIZE" and "NUL \<notin> set ip"
    and "INT_MIN \<le> port" and "port \<le> INT_MAX"
  obtains e where "fill_entry junk i filename filepath ip port = Inr e" and "entry_wf e"
    and "fid e = i" and "c_str (ffilename e) = take (MAX_FILENAME - 1) (c_str filename)"
    and "c_str (ffilepath e) = take (MAX_FILEPATH - 1) (c_str filepath)"
    and "c_str (fowner_ip e) = ip" and "fowner_port e = port"
proof -
  have len: "length (ffilename junk) = MAX_FILENAME" "length (ffilepath junk) = MAX_FILEPATH"
    "length (fowner_ip junk) = IP_SIZE" using assms(1) by (simp_all add: entry_wf_def)
  have pos: "0 < MAX_FILENAME" "0 < MAX_FILEPATH" by (simp_all add: size_defs)
  obtain d1 where d1: "strncpy_term (ffilename junk) filename MAX_FILENAME = Inr d1"
    "length d1 = MAX_FILENAME" "c_str d1 = take (MAX_FILENAME - 1) (c_str filename)"
    by (rule strncpy_term_ok [OF len(1) pos(1)])
  obtain d2 where d2: "strncpy_term (ffilepath junk) filepath MAX_FILEPATH = Inr d2"
    "length d2 = MAX_FILEPATH" "c_str d2 = take (MAX_FILEPATH - 1) (c_str filepath)"
    by (rule strncpy_term_ok [OF len(2) pos(2)])
  obtain d3 where d3: "strcpy (fowner_ip junk) ip = Inr d3" "length d3 = length (fowner_ip junk)"
    "c_str d3 = ip" using strcpy_ok [of ip "fowner_ip junk"] assms(3,4) len(3) by auto
  show ?thesis
    by (rule that [of "\<lparr>fid = i, ffilename = d1, ffilepath = d2, fowner_ip = d3, fowner_port = port\<rparr>"])
      (use d1 d2 d3 len assms in \<open>simp_all add: fill_entry_def entry_wf_def\<close>)
qed

text \<open>A search finds the first match among the addresses and their contents.\<close>

lemma scan_zip:
  assumes "list_at st p as xs"
  shows "case find (\<lambda>(a, x). P x) (zip as xs) of
           None \<Rightarrow> scan P st None p = Some NotFound
         | Some (a, x) \<Rightarrow> \<exists>prev. scan P st None p = Some (Found prev a)"
proof -
  have xs: "xs = contents (cells st) as" using assms by (simp add: list_at_def)
  have none: "find (\<lambda>(a, x). P x) (zip as (contents h as)) = None"
    if "\<forall>x \<in> set (contents h as). \<not> P x" for as and h :: "nat \<rightharpoonup> 'a cell"
    using that by (induction as) auto
  have some: "find (\<lambda>(a, x). P x) (zip (bs @ a # cs) (contents h (bs @ a # cs))) = Some (a, content (the (h a)))"
    if "\<forall>x \<in> set (contents h bs). \<not> P x" "P (content (the (h a)))"
    for bs a cs and h :: "nat \<rightharpoonup> 'a cell"
    using that by (induction bs) auto
  show ?thesis
    using scan_total [OF assms, of P] none [of "cells st" as] some [of "cells st"]
    by (elim disjE exE conjE) (simp_all add: xs)
qed

lemma lookup_file_zip:
  assumes "list_at st p as xs"
  shows "lookup_file i p st =
           Some (Inr (map_option fst (find (\<lambda>(a, e). memcmp (fid e) i HASH_SIZE = 0) (zip as xs))))"
  using scan_zip [OF assms, of "\<lambda>e. memcmp (fid e) i HASH_SIZE = 0"]
  by (auto simp: lookup_file_def split: option.splits)

lemma find_uploaded_file_zip:
  assumes "list_at st p as xs"
  shows "find_uploaded_file s p st =
           Some (Inr (map_option fst (find (\<lambda>(a, e). c_str (ffilepath e) = s) (zip as xs))))"
  using scan_zip [OF assms, of "\<lambda>e. c_str (ffilepath e) = s"]
  by (auto simp: find_uploaded_file_def split: option.splits)

text \<open>Remove the first element that satisfies a predicate.\<close>

fun remove_first :: "('a \<Rightarrow> bool) \<Rightarrow> 'a list \<Rightarrow> 'a list" where
  "remove_first P [] = []"
| "remove_first P (x # xs) = (if P x then xs else x # remove_first P xs)"

lemma remove_first_append:
  "\<forall>y \<in> set ys. \<not> P y \<Longrightarrow> P x \<Longrightarrow> remove_first P (ys @ x # zs) = ys @ zs"
  by (induction ys) auto

lemma remove_first_none: "\<forall>x \<in> set xs. \<not> P x \<Longrightarrow> remove_first P xs = xs"
  by (induction xs) auto

lemma remove_found_files:
  assumes "list_at st fp (bs @ a # cs) xs" and "list_at st up ds ys" and "set (bs @ a # cs) \<inter> set ds = {}"
    and "store_wf st"
  obtains p' st' where "remove_found (last_addr None bs) a fp st = Inr (p', st')"
    and "list_at st' p' (bs @ cs) (contents (cells st) bs @ contents (cells st) cs)"
    and "list_at st' up ds ys" and "store_wf st'"
proof -
  obtain p' st' where r: "remove_found (last_addr None bs) a fp st = Inr (p', st')"
    "list_at st' p' (bs @ cs) (contents (cells st) bs @ contents (cells st) cs)" "store_wf st'"
    and fr: "\<And>x. x \<notin> set (bs @ a # cs) \<Longrightarrow> cells st' x = cells st x"
    by (rule remove_found_list [OF assms(1,4)]) blast
  have "list_at st' up ds ys"
    by (rule list_at_frame [OF assms(2)]) (use assms(3) fr in blast)
  with r show ?thesis by (intro that)
qed

lemma delete_file_entry_list:
  assumes "files_at st fp up xs ys"
  shows "\<exists>p' st'. delete_file_entry fp i st =
           Some (Inr (if \<exists>x \<in> set xs. memcmp (fid x) i HASH_SIZE = 0 then 0 else -1, p', st')) \<and>
         files_at st' p' up (remove_first (\<lambda>x. memcmp (fid x) i HASH_SIZE = 0) xs) ys"
proof -
  let ?P = "\<lambda>x. memcmp (fid x) i HASH_SIZE = 0"
  from assms obtain as ds where at: "list_at st fp as xs" "list_at st up ds ys"
    "set as \<inter> set ds = {}" "store_wf st" by (auto simp: files_at_def)
  from scan_total [OF at(1), of ?P] show ?thesis
  proof (elim disjE exE conjE)
    assume "\<forall>x \<in> set xs. \<not> ?P x" "scan ?P st None fp = Some NotFound"
    with assms show ?thesis by (auto simp: delete_file_entry_def remove_first_none)
  next
    fix bs a cs
    assume as: "as = bs @ a # cs" and bs: "\<forall>x \<in> set (contents (cells st) bs). \<not> ?P x"
      and a: "?P (content (the (cells st a)))"
      and s: "scan ?P st None fp = Some (Found (last_addr None bs) a)"
    obtain p' st' where r: "remove_found (last_addr None bs) a fp st = Inr (p', st')"
      "list_at st' p' (bs @ cs) (contents (cells st) bs @ contents (cells st) cs)"
      "list_at st' up ds ys" "store_wf st'"
      using remove_found_files [OF at(1) [unfolded as] at(2) at(3) [unfolded as] at(4)] by blast
    have xs: "xs = contents (cells st) bs @ content (the (cells st a)) # contents (cells st) cs"
      using at(1) as by (simp add: list_at_def)
    have ex: "\<exists>x \<in> set xs. ?P x" using xs a by auto
    have "remove_first ?P xs = contents (cells st) bs @ contents (cells st) cs"
      using remove_first_append [of _ ?P, OF bs a] xs by simp
    moreover have "set (bs @ cs) \<inter> set ds = {}" using at(3) as by auto
    ultimately have "files_at st' p' up (remove_first ?P xs) ys"
      using r(2,3,4) unfolding files_at_def by metis
    with s r(1) ex show ?thesis by (simp add: delete_file_entry_def)
  qed
qed

text \<open>The loop of \<open>delete_transferred_files\<close>: the entries behind \<open>entry\<close> have been
  kept, \<open>prev\<close> is the last of them.\<close>

definition first_addr :: "nat list \<Rightarrow> nat option" where
  "first_addr as = (case as of [] \<Rightarrow> None | a # _ \<Rightarrow> Some a)"

lemma chain_first: "chain h p as None \<Longrightarrow> p = first_addr as"
  by (cases as) (auto simp: first_addr_def)

lemma delete_transferred_loop_list:
  assumes "list_at st p (bs @ cs) (xs @ zs)" and "length xs = length bs" and "store_wf st"
    and "list_at st up ds ys" and "set (bs @ cs) \<inter> set ds = {}"
  shows "\<exists>p' st' as. delete_transferred_loop new cur (last_addr None bs) (first_addr cs) p st =
           Some (Inr (p', st')) \<and>
         list_at st' p' as (xs @ filter (\<lambda>x. \<not> should_transfer_file (fid x) new cur) zs) \<and>
         store_wf st' \<and> list_at st' up ds ys \<and> set as \<inter> set ds = {}"
  using assms
proof (induction cs arbitrary: st p bs xs zs)
  case Nil
  have "length (xs @ zs) = length bs" using Nil.prems(1) by (simp add: list_at_def)
  with Nil.prems(2) have "zs = []" by simp
  with Nil show ?case
    by (auto simp: delete_transferred_loop.simps [of new cur _ None] first_addr_def)
next
  case (Cons a cs)
  have ch: "chain (cells st) p (bs @ a # cs) None" and xz: "xs @ zs = contents (cells st) (bs @ a # cs)"
    using Cons.prems(1) by (simp_all add: list_at_def)
  obtain c where c: "cells st a = Some c" using chain_allocated [OF ch, of a] by auto
  have xs: "xs = contents (cells st) bs" and zs: "zs = content c # contents (cells st) cs"
    using xz Cons.prems(2) c by (simp_all add: append_eq_append_conv)
  have lk: "link c = first_addr cs"
    using ch c chain_first [of "cells st" "link c" cs] by (auto simp: chain_append)
  note step = delete_transferred_loop.simps [of new cur "last_addr None bs" "first_addr (a # cs)" p st]
  show ?case
  proof (cases "should_transfer_file (fid (content c)) new cur")
    case True
    obtain p' st' where r: "remove_found (last_addr None bs) a p st = Inr (p', st')"
      "list_at st' p' (bs @ cs) (contents (cells st) bs @ contents (cells st) cs)"
      "list_at st' up ds ys" "store_wf st'"
      using remove_found_files [OF Cons.prems(1,4,5,3)] by blast
    have d: "set (bs @ cs) \<inter> set ds = {}" using Cons.prems(5) by auto
    from Cons.IH [OF _ Cons.prems(2) r(4,3) d, of p' "contents (cells st) cs"] r(2) xs
    show ?thesis using True c r(1) lk zs
      by (simp add: step) (simp add: first_addr_def read_cell_def)
  next
    case False
    have eq: "last_addr None (bs @ [a]) = Some a" by (simp add: last_addr_def)
    from Cons.IH [of st p "bs @ [a]" "xs @ [content c]" "contents (cells st) cs"] Cons.prems zs
    show ?thesis using False c lk
      by (simp add: step eq) (simp add: first_addr_def read_cell_def)
  qed
qed

lemma delete_transferred_list:
  assumes "files_at st fp up xs ys"
  shows "\<exists>p' st'. delete_transferred_files fp new cur st = Some (Inr (p', st')) \<and>
     files_at st' p' up (filter (\<lambda>x. \<not> should_transfer_file (fid x) new cur) xs) ys"
proof -
  from assms obtain as ds where at: "list_at st fp as xs" "list_at st up ds ys"
    "set as \<inter> set ds = {}" "store_wf st" by (auto simp: files_at_def)
  have fp: "fp = first_addr as" using at(1) chain_first by (auto simp: list_at_def)
  show ?thesis
    using delete_transferred_loop_list [of st fp "[]" as "[]" xs up ds ys new cur] at
    unfolding delete_transferred_files_def files_at_def
    by (simp add: last_addr_def flip: fp) blast
qed

text \<open>Freeing a list leaves no cell of it allocated, and its head pointer as it was.\<close>

lemma free_files_list:
  assumes "list_at st p as xs" and "store_wf st"
  shows "\<exists>st'. free_files p st = Some (Inr st') \<and> store_wf st' \<and>
           cells st' = (\<lambda>a. if a \<in> set as then None else cells st a)"
  using assms
proof (induction as arbitrary: st p xs)
  case Nil
  then show ?case by (simp add: free_files.simps)
next
  case (Cons a as)
  obtain c where c: "cells st a = Some c" "p = Some a" "chain (cells st) (link c) as None" "a \<notin> set as" "distinct as"
    using Cons.prems(1) by (auto simp: list_at_def)
  let ?st = "st\<lparr>cells := (cells st)(a := None)\<rparr>"
  have "list_at ?st (link c) as (contents (cells st) as)" using c by (simp add: list_at_def)
  moreover have "store_wf ?st" using Cons.prems(2) by (auto simp: store_wf_def)
  ultimately obtain st' where st': "free_files (link c) ?st = Some (Inr st')" "store_wf st'"
    "cells st' = (\<lambda>x. if x \<in> set as then None else cells ?st x)"
    using Cons.IH by blast
  show ?case using c st' by (auto simp: free_files.simps [of "Some a" st] read_cell_def delete_cell_def)
qed

lemma free_both_lists:
  assumes "list_at st fp as xs" and "list_at st up bs ys" and "set as \<inter> set bs = {}" and "store_wf st"
  obtains st' st'' where "free_files fp st = Some (Inr st')" and "free_files up st' = Some (Inr st'')"
    and "cells st'' = (\<lambda>a. if a \<in> set as \<union> set bs then None else cells st a)"
proof -
  from free_files_list [OF assms(1,4)] obtain st' where f: "free_files fp st = Some (Inr st')" "store_wf st'"
    "cells st' = (\<lambda>a. if a \<in> set as then None else cells st a)" by blast
  have "list_at st' up bs ys"
    by (rule list_at_frame [OF assms(2)]) (use assms(3) f(3) in auto)
  from free_files_list [OF this f(2)] obtain st'' where "free_files up st' = Some (Inr st'')"
    "cells st'' = (\<lambda>a. if a \<in> set bs then None else cells st' a)" by blast
  moreover from this(2) have "cells st'' = (\<lambda>a. if a \<in> set as \<union> set bs then None else cells st a)"
    using f(3) by auto
  ultimately show thesis using that f(1) by blast
qed

section \<open>Properties\<close>

definition demo_id :: "nat \<Rightarrow> byte list" where
  "demo_id n = replicate 19 NUL @ [char_of n]"

definition demo_entry :: "nat \<Rightarrow> file_entry" where
  "demo_entry n = \<lparr>fid = demo_id n, ffilename = replicate MAX_FILENAME NUL,
     ffilepath = replicate MAX_FILEPATH NUL, fowner_ip = replicate IP_SIZE NUL, fowner_port = 5000\<rparr>"

definition demo_files :: "nat option \<times> file_heap" where
  "demo_files =
     (let (a, st1) = new_cell (demo_entry 9) None empty_store;
          (b, st2) = new_cell (demo_entry 5) (Some a) st1;
          (c, st3) = new_cell (demo_entry 3) (Some b) st2 in (Some c, st3))"

lemma demo_files_at: "files_at (snd demo_files) (fst demo_files) None [demo_entry 3, demo_entry 5, demo_entry 9] []"
proof -
  obtain a st1 where 1: "new_cell (demo_entry 9) None empty_store = (a, st1)" by fastforce
  obtain b st2 where 2: "new_cell (demo_entry 5) (Some a) st1 = (b, st2)" by fastforce
  obtain c st3 where 3: "new_cell (demo_entry 3) (Some b) st2 = (c, st3)" by fastforce
  have "files_at st1 (Some a) None [demo_entry 9] []" by (rule files_at_new [OF files_at_empty 1])
  then have "files_at st2 (Some b) None [demo_entry 5, demo_entry 9] []" by (rule files_at_new [OF _ 2])
  then have "files_at st3 (Some c) None [demo_entry 3, demo_entry 5, demo_entry 9] []"
    by (rule files_at_new [OF _ 3])
  then show ?thesis using 1 2 3 by (simp add: demo_files_def)
qed

lemma demo_entry_simps [simp]: "fid (demo_entry n) = demo_id n" "entry_wf (demo_entry n)"
  by (simp_all add: demo_entry_def entry_wf_def size_defs demo_id_def)

text \<open>C31: a file stored with \<open>internal_store_file\<close> is found: the operation touches no freed
  memory and stays within its arrays, a look-up of its identifier returns its entry with the
  name, path and owner it was stored with (cut to the sizes of the arrays), and a look-up of any
  other identifier gives what it gave before.  The other list of the node is unchanged.\<close>

theorem stored_file_is_found:
  assumes "files_at st files uploaded xs ys" and "entry_wf junk" and "is_id i"
    and "length ip < IP_SIZE" and "NUL \<notin> set ip" and "INT_MIN \<le> port" and "port \<le> INT_MAX"
  shows "\<exists>a st' e. internal_store_file junk filename filepath i ip port files st = Inr (Some a, st') \<and>
           files_at st' (Some a) uploaded (e # xs) ys \<and>
           lookup_file i (Some a) st' = Some (Inr (Some a)) \<and>
           map_option content (cells st' a) = Some e \<and>
           c_str (ffilename e) = take 255 (c_str filename) \<and>
           c_str (ffilepath e) = take 4095 (c_str filepath) \<and>
           c_str (fowner_ip e) = ip \<and> fowner_port e = port \<and>
           (\<forall>j. is_id j \<and> j \<noteq> i \<longrightarrow> lookup_file j (Some a) st' = lookup_file j files st)"
proof -
  obtain e where e: "fill_entry junk i filename filepath ip port = Inr e" "entry_wf e" "fid e = i"
    "c_str (ffilename e) = take (MAX_FILENAME - 1) (c_str filename)"
    "c_str (ffilepath e) = take (MAX_FILEPATH - 1) (c_str filepath)"
    "c_str (fowner_ip e) = ip" "fowner_port e = port"
    using fill_entry_ok [of junk i ip port filename filepath] assms(2-) by (auto simp: is_id_def)
  obtain a st' where n: "new_cell e files st = (a, st')" by fastforce
  have at: "files_at st' (Some a) uploaded (e # xs) ys" by (rule files_at_new [OF assms(1) n])
  have cell: "map_option content (cells st' a) = Some e"
    using n by (auto simp: new_cell_def)
  obtain as where l: "list_at st files as xs" "store_wf st"
    using assms(1) by (auto simp: files_at_def)
  have l': "list_at st' (Some a) (a # as) (e # xs)"
    using list_at_new_front [OF l(2,1), of e] n by (auto simp: new_cell_def)
  have "lookup_file j (Some a) st' = lookup_file j files st" if "is_id j" "j \<noteq> i" for j
    using lookup_file_zip [OF l', of j] lookup_file_zip [OF l(1), of j] that e(3) assms(3)
    by (simp add: memcmp_eq_0 is_id_def)
  moreover have "lookup_file i (Some a) st' = Some (Inr (Some a))"
    using lookup_file_zip [OF l', of i] e(3) by simp
  moreover have "internal_store_file junk filename filepath i ip port files st = Inr (Some a, st')"
    using e(1) n by (simp add: internal_store_file_def)
  ultimately show ?thesis
    using at cell e(4-7) by (auto simp: size_defs)
qed

theorem stored_file_is_found_witness:
  "\<exists>a st'. internal_store_file (demo_entry 0) ''f'' ''/d/f'' (demo_id 7) ''10.0.0.1'' 5000
             (fst demo_files) (snd demo_files) = Inr (Some a, st') \<and>
           lookup_file (demo_id 7) (Some a) st' = Some (Inr (Some a))"
proof -
  have "is_id (demo_id 7)" by (simp add: is_id_def demo_id_def HASH_SIZE_def)
  from stored_file_is_found [OF demo_files_at demo_entry_simps(2) this, of "''10.0.0.1''" 5000 0 "''f''" "''/d/f''"]
  show ?thesis by (auto simp: IP_SIZE_def)
qed

text \<open>After \<open>confirm_file_stored\<close> a path shorter than the array is found among the
  uploaded files with the identifier of its file name; the files the node is responsible for are
  unchanged.\<close>

theorem confirmed_file_is_found:
  assumes "files_at st files uploaded xs ys" and "entry_wf junk" and "\<And>s. length (H s) = HASH_SIZE"
    and "length ip < IP_SIZE" and "NUL \<notin> set ip" and "INT_MIN \<le> port" and "port \<le> INT_MAX"
    and "length path < MAX_FILEPATH" and "NUL \<notin> set path"
  shows "\<exists>a st' e. confirm_file_stored H junk path ip port uploaded st = Inr (Some a, st') \<and>
           files_at st' files (Some a) xs (e # ys) \<and> fid e = H (file_name_of path) \<and>
           find_uploaded_file path (Some a) st' = Some (Inr (Some a))"
proof -
  obtain e where e: "fill_entry junk (H (file_name_of path)) (file_name_of path) path ip port = Inr e"
    "fid e = H (file_name_of path)" "c_str (ffilepath e) = take (MAX_FILEPATH - 1) (c_str path)"
    using fill_entry_ok [of junk "H (file_name_of path)" ip port "file_name_of path" path] assms(2-7) by auto
  have path: "c_str (ffilepath e) = path"
    using e(3) assms(8,9) by (simp add: c_str_NUL_free)
  obtain a st' where n: "new_cell e uploaded st = (a, st')" by fastforce
  have at: "files_at st' files (Some a) xs (e # ys)"
    using files_at_new [OF files_at_swap [OF assms(1)] n] by (rule files_at_swap)
  obtain bs where l: "list_at st uploaded bs ys" "store_wf st"
    using assms(1) by (auto simp: files_at_def)
  have l': "list_at st' (Some a) (a # bs) (e # ys)"
    using list_at_new_front [OF l(2,1), of e] n by (auto simp: new_cell_def)
  have "find_uploaded_file path (Some a) st' = Some (Inr (Some a))"
    using find_uploaded_file_zip [OF l', of path] path by simp
  then show ?thesis using at e n by (auto simp: confirm_file_stored_def Let_def)
qed

theorem confirmed_file_is_found_witness:
  "\<exists>a st'. confirm_file_stored (\<lambda>s. demo_id (length s)) (demo_entry 0) ''/d/file'' ''10.0.0.1'' 5000 None
             (snd demo_files) = Inr (Some a, st') \<and>
           find_uploaded_file ''/d/file'' (Some a) st' = Some (Inr (Some a))"
proof -
  have "length (demo_id (length s)) = HASH_SIZE" for s :: string
    by (simp add: demo_id_def HASH_SIZE_def)
  from confirmed_file_is_found [where H = "\<lambda>s. demo_id (length s)", OF demo_files_at demo_entry_simps(2) this,
      of "''10.0.0.1''" 5000 "''/d/file''" 0]
  show ?thesis by (auto simp: IP_SIZE_def MAX_FILEPATH_def)
qed

text \<open>C32: \<open>delete_file_entry\<close> ends, touches no freed memory, removes the first entry with
  the identifier and nothing else, and returns 0 exactly where there was one; the list behind the
  other pointer of the node is unchanged.\<close>

theorem delete_file_entry_removes:
  assumes "files_at st files uploaded xs ys" and "\<forall>x \<in> set xs. is_id (fid x)" and "is_id i"
  shows "\<exists>p st'. delete_file_entry files i st = Some (Inr (if i \<in> fid ` set xs then 0 else -1, p, st')) \<and>
           files_at st' p uploaded (remove_first (\<lambda>x. fid x = i) xs) ys"
proof -
  have eq: "memcmp (fid x) i HASH_SIZE = 0 \<longleftrightarrow> fid x = i" if "x \<in> set xs" for x
    using that assms(2,3) by (simp add: memcmp_eq_0 is_id_def)
  have "remove_first (\<lambda>x. memcmp (fid x) i HASH_SIZE = 0) xs = remove_first (\<lambda>x. fid x = i) xs"
    using eq by (induction xs) auto
  moreover have "(\<exists>x \<in> set xs. memcmp (fid x) i HASH_SIZE = 0) \<longleftrightarrow> i \<in> fid ` set xs"
    using eq by auto
  ultimately show ?thesis using delete_file_entry_list [OF assms(1), of i] by simp
qed

theorem delete_file_entry_removes_witness:
  "\<exists>p st'. delete_file_entry (fst demo_files) (demo_id 5) (snd demo_files) = Some (Inr (0, p, st')) \<and>
     files_at st' p None [demo_entry 3, demo_entry 9] []"
proof -
  have "is_id (demo_id n)" for n by (simp add: is_id_def demo_id_def HASH_SIZE_def)
  moreover have "demo_id 3 \<noteq> demo_id 5" by (simp add: demo_id_def)
  ultimately show ?thesis
    using delete_file_entry_removes [OF demo_files_at, of "demo_id 5"] by auto
qed

end
