(* ===== verification/Message_Queue.thy ===== *)
theory Message_Queue
  imports Store
begin

text \<open>
  Protocol messages and the queues replies wait in (\<open>include/protocol.hpp\<close> and
  \<open>src/protocol.cpp\<close>).  \<open>push_message\<close> and \<open>pop_message\<close> are modelled on the linked
  list in memory with its \<open>head\<close> and \<open>tail\<close> pointers; each holds the queue's mutex, so a
  push and one search of a pop are atomic.  The locale \<open>reply_queue\<close> is what callers rely
  on; the linked queue and the plain list both meet it.
\<close>

section \<open>Messages\<close>

record message =
  mtype :: string
  mid :: "byte list"
  mip :: string
  mport :: int
  request_id :: "32 word"
  segment_index :: "16 word"
  total_segments :: "16 word"
  data_len :: nat
  mdata :: "byte list"

definition MSG_JOIN :: string where "MSG_JOIN = ''JOIN''"
definition MSG_NOTIFY :: string where "MSG_NOTIFY = ''NOTIFY''"
definition MSG_FIND_SUCCESSOR :: string where "MSG_FIND_SUCCESSOR = ''FIND_SUCCESSOR''"
definition MSG_STABILIZE :: string where "MSG_STABILIZE = ''STABILIZE''"
definition MSG_HEARTBEAT :: string where "MSG_HEARTBEAT = ''HEARTBEAT''"
definition MSG_STORE_FILE :: string where "MSG_STORE_FILE = ''STORE_FILE''"
definition MSG_REPLY :: string where "MSG_REPLY = ''REPLY''"
definition MSG_FIND_FILE :: string where "MSG_FIND_FILE = ''FIND_FILE''"
definition MSG_FILE_DATA :: string where "MSG_FILE_DATA = ''FILE_DATA''"
definition MSG_FILE_END :: string where "MSG_FILE_END = ''FILE_END''"
definition MSG_GET_FILES :: string where "MSG_GET_FILES = ''GET_FILES''"

lemmas msg_types = MSG_JOIN_def MSG_NOTIFY_def MSG_FIND_SUCCESSOR_def MSG_STABILIZE_def
  MSG_HEARTBEAT_def MSG_STORE_FILE_def MSG_REPLY_def MSG_FIND_FILE_def MSG_FILE_DATA_def
  MSG_FILE_END_def MSG_GET_FILES_def

text \<open>The size of the data array: \<open>MSG_SIZE\<close> less the other fields of the struct.\<close>

definition MSG_SIZE :: nat where "MSG_SIZE = 1400"

definition DATA_SIZE :: nat where
  "DATA_SIZE = MSG_SIZE - 16 - 20 - 16 - 4 - 4 - 8 - 2 - 2"

section \<open>What callers rely on\<close>

locale reply_queue =
  fixes qinv :: "'q \<Rightarrow> bool" and messages :: "'q \<Rightarrow> message list"
    and push :: "message \<Rightarrow> 'q \<Rightarrow> 'q" and pop :: "32 word \<Rightarrow> 'q \<Rightarrow> (message \<times> 'q) option"
  assumes push_inv: "qinv q \<Longrightarrow> qinv (push m q)"
    and push_messages: "qinv q \<Longrightarrow> messages (push m q) = messages q @ [m]"
    and pop_None: "qinv q \<Longrightarrow> pop r q = None \<longleftrightarrow> (\<forall>m \<in> set (messages q). request_id m \<noteq> r)"
    and pop_inv: "qinv q \<Longrightarrow> pop r q = Some (m, q') \<Longrightarrow> qinv q'"
    and pop_messages: "qinv q \<Longrightarrow> pop r q = Some (m, q') \<Longrightarrow>
      \<exists>xs ys. messages q = xs @ m # ys \<and> messages q' = xs @ ys \<and> request_id m = r \<and>
              (\<forall>x \<in> set xs. request_id x \<noteq> r)"
begin

definition push_all :: "message list \<Rightarrow> 'q \<Rightarrow> 'q" where
  "push_all ms q = foldl (\<lambda>q m. push m q) q ms"

lemma push_all_inv: "qinv q \<Longrightarrow> qinv (push_all ms q)"
  unfolding push_all_def by (induction ms arbitrary: q) (simp_all add: push_inv)

lemma push_all_messages: "qinv q \<Longrightarrow> messages (push_all ms q) = messages q @ ms"
  unfolding push_all_def
  by (induction ms arbitrary: q) (simp_all add: push_inv push_messages)

text \<open>The first message with the number, in arrival order, is the one delivered, and the
  rest keep their order.\<close>

lemma pop_filter:
  assumes "qinv q" and "pop r q = Some (m, q')"
  shows "filter (\<lambda>x. request_id x = r) (messages q) =
           m # filter (\<lambda>x. request_id x = r) (messages q')"
    and "filter (\<lambda>x. request_id x \<noteq> r) (messages q') = filter (\<lambda>x. request_id x \<noteq> r) (messages q)"
proof -
  from pop_messages [OF assms] obtain xs ys where
    "messages q = xs @ m # ys" "messages q' = xs @ ys" "request_id m = r" "\<forall>x \<in> set xs. request_id x \<noteq> r"
    by blast
  then show "filter (\<lambda>x. request_id x = r) (messages q) =
           m # filter (\<lambda>x. request_id x = r) (messages q')"
    "filter (\<lambda>x. request_id x \<noteq> r) (messages q') = filter (\<lambda>x. request_id x \<noteq> r) (messages q)"
    by (simp_all add: filter_empty_conv)
qed

lemma pop_arrived:
  assumes "qinv q" and "m \<in> set ms" and "request_id m = r"
  shows "\<exists>m' q'. pop r (push_all ms q) = Some (m', q') \<and> request_id m' = r"
proof (cases "pop r (push_all ms q)")
  case None
  then show ?thesis
    using pop_None [OF push_all_inv [OF assms(1)]] push_all_messages [OF assms(1)] assms(2,3) by auto
next
  case (Some p)
  then show ?thesis
    using pop_messages [OF push_all_inv [OF assms(1)]] by (cases p) blast
qed

lemma pop_set: "qinv q \<Longrightarrow> pop r q = Some (m, q') \<Longrightarrow> set (messages q') \<subseteq> set (messages q) \<and>
    m \<in> set (messages q) \<and> request_id m = r"
  using pop_messages by fastforce

end

section \<open>The linked queue\<close>

record mqueue =
  qhead :: "nat option"
  qtail :: "nat option"
  qmem :: "message store"

definition init_queue :: mqueue where
  "init_queue = \<lparr>qhead = None, qtail = None, qmem = empty_store\<rparr>"

definition push_message :: "message \<Rightarrow> mqueue \<Rightarrow> fault + mqueue" where
  "push_message msg q =
     (let (nd, mem) = new_cell msg None (qmem q)
      in case qtail q of
           None \<Rightarrow> Inr (q\<lparr>qhead := Some nd, qtail := Some nd, qmem := mem\<rparr>)
         | Some t \<Rightarrow>
             (case set_link t (Some nd) mem of
                Inl e \<Rightarrow> Inl e
              | Inr mem' \<Rightarrow> Inr (q\<lparr>qtail := Some nd, qmem := mem'\<rparr>)))"

text \<open>
  One search of \<open>pop_message\<close>, from taking the mutex to returning the message or waiting
  on the condition variable.  \<open>None\<close>: the search does not end.  \<open>Some (Inr None)\<close>:
  nothing with this number; the thread waits.
\<close>

definition pop_search :: "32 word \<Rightarrow> mqueue \<Rightarrow> (fault + (message \<times> mqueue) option) option" where
  "pop_search r q =
     (case scan (\<lambda>m. request_id m = r) (qmem q) None (qhead q) of
        None \<Rightarrow> None
      | Some NotFound \<Rightarrow> Some (Inr None)
      | Some Dangling \<Rightarrow> Some (Inl UseAfterFree)
      | Some (Found prev a) \<Rightarrow>
          (case read_cell (qmem q) a of
             Inl e \<Rightarrow> Some (Inl e)
           | Inr c \<Rightarrow>
               (case remove_found prev a (qhead q) (qmem q) of
                  Inl e \<Rightarrow> Some (Inl e)
                | Inr (hd', mem) \<Rightarrow>
                    Some (Inr (Some (content c,
                      \<lparr>qhead = hd', qtail = (if Some a = qtail q then prev else qtail q), qmem = mem\<rparr>))))))"

text \<open>The whole of \<open>pop_message\<close>: search, and while nothing is found wait and search again.
  \<open>wakeups\<close> lists, for each wait, the messages pushed before the thread runs again; with
  none left the thread is still waiting.\<close>

fun push_each :: "message list \<Rightarrow> mqueue \<Rightarrow> fault + mqueue" where
  "push_each [] q = Inr q"
| "push_each (m # ms) q = (case push_message m q of Inl e \<Rightarrow> Inl e | Inr q' \<Rightarrow> push_each ms q')"

fun pop_message ::
    "32 word \<Rightarrow> mqueue \<Rightarrow> message list list \<Rightarrow> (fault + (message \<times> mqueue \<times> message list list) option) option" where
  "pop_message r q wakeups =
     (case pop_search r q of
        None \<Rightarrow> None
      | Some (Inl e) \<Rightarrow> Some (Inl e)
      | Some (Inr (Some (m, q'))) \<Rightarrow> Some (Inr (Some (m, q', wakeups)))
      | Some (Inr None) \<Rightarrow>
          (case wakeups of
             [] \<Rightarrow> Some (Inr None)
           | w # ws \<Rightarrow>
               (case push_each w q of Inl e \<Rightarrow> Some (Inl e) | Inr q' \<Rightarrow> pop_message r q' ws)))"

section \<open>The linked queue is a queue\<close>

definition queue_at :: "mqueue \<Rightarrow> nat list \<Rightarrow> message list \<Rightarrow> bool" where
  "queue_at q as ms \<longleftrightarrow>
     list_at (qmem q) (qhead q) as ms \<and> qtail q = last_addr None as \<and> store_wf (qmem q)"

lemma init_queue_at: "queue_at init_queue [] []"
  by (simp add: queue_at_def init_queue_def last_addr_def)

lemma push_message_at:
  assumes "queue_at q as ms"
  obtains q' where "push_message m q = Inr q'" and "queue_at q' (as @ [brk (qmem q)]) (ms @ [m])"
proof -
  let ?n = "brk (qmem q)" and ?h = "cells (qmem q)"
  have wf: "store_wf (qmem q)" and l: "list_at (qmem q) (qhead q) as ms" and t: "qtail q = last_addr None as"
    using assms by (simp_all add: queue_at_def)
  have ch: "chain ?h (qhead q) as None" "distinct as" "ms = contents ?h as"
    using l by (simp_all add: list_at_def)
  have fresh: "?n \<notin> set as"
    using chain_allocated [OF ch(1), of ?n] store_wf_fresh [OF wf] by auto
  show ?thesis
  proof (cases as rule: rev_cases)
    case Nil
    have "store_wf (snd (new_cell m None (qmem q)))" using wf by simp
    with Nil ch t show ?thesis
      by (intro that) (auto simp: push_message_def new_cell_def queue_at_def list_at_def last_addr_def Let_def)
  next
    case (snoc bs b)
    obtain c where c: "?h b = Some c" using chain_allocated [OF ch(1), of b] snoc by auto
    let ?m = "(qmem q)\<lparr>cells := ?h(?n \<mapsto> \<lparr>content = m, link = None\<rparr>, b \<mapsto> c\<lparr>link := Some ?n\<rparr>), brk := Suc ?n\<rparr>"
    have p: "push_message m q = Inr (q\<lparr>qtail := Some ?n, qmem := ?m\<rparr>)"
      using t snoc c fresh
      by (auto simp: push_message_def new_cell_def set_link_def last_addr_def Let_def split: option.splits)
    have "store_wf ?m" using wf c by (auto simp: store_wf_def less_Suc_eq split: if_splits)
    then have "queue_at (q\<lparr>qtail := Some ?n, qmem := ?m\<rparr>) (as @ [?n]) (ms @ [m])"
      using ch c snoc fresh by (auto simp: queue_at_def list_at_def last_addr_def chain_append)
    with p show ?thesis by (rule that)
  qed
qed

lemma pop_search_at:
  assumes "queue_at q as ms"
  shows "(\<forall>m \<in> set ms. request_id m \<noteq> r) \<and> pop_search r q = Some (Inr None) \<or>
         (\<exists>xs m ys q' as'. ms = xs @ m # ys \<and> request_id m = r \<and> (\<forall>x \<in> set xs. request_id x \<noteq> r) \<and>
            pop_search r q = Some (Inr (Some (m, q'))) \<and> queue_at q' as' (xs @ ys))"
proof -
  let ?P = "\<lambda>m. request_id m = r" and ?h = "cells (qmem q)"
  have wf: "store_wf (qmem q)" and l: "list_at (qmem q) (qhead q) as ms" and t: "qtail q = last_addr None as"
    using assms by (simp_all add: queue_at_def)
  from scan_total [OF l, of ?P] show ?thesis
  proof (elim disjE exE conjE)
    assume "\<forall>x \<in> set ms. \<not> ?P x" "scan ?P (qmem q) None (qhead q) = Some NotFound"
    then show ?thesis by (simp add: pop_search_def)
  next
    fix bs a cs
    assume as: "as = bs @ a # cs" and bs: "\<forall>x \<in> set (contents ?h bs). \<not> ?P x"
      and a: "?P (content (the (?h a)))"
      and s: "scan ?P (qmem q) None (qhead q) = Some (Found (last_addr None bs) a)"
    obtain c where c: "?h a = Some c"
      using l as chain_allocated [of ?h "qhead q" as None a] by (auto simp: list_at_def)
    from remove_found_list [OF l [unfolded as] wf] obtain p' st' where
      rm: "remove_found (last_addr None bs) a (qhead q) (qmem q) = Inr (p', st')"
      and l': "list_at st' p' (bs @ cs) (contents ?h bs @ contents ?h cs)" and wf': "store_wf st'"
      by blast
    have d: "distinct (bs @ a # cs)" and ms: "ms = contents ?h bs @ content c # contents ?h cs"
      using l as c by (simp_all add: list_at_def)
    have tail: "(if Some a = qtail q then last_addr None bs else qtail q) = last_addr None (bs @ cs)"
      using t d as by (cases cs) (auto simp: last_addr_def)
    let ?q = "\<lparr>qhead = p', qtail = last_addr None (bs @ cs), qmem = st'\<rparr>"
    have "pop_search r q = Some (Inr (Some (content c, ?q)))"
      using s rm c tail by (simp add: pop_search_def read_cell_def)
    moreover have "queue_at ?q (bs @ cs) (contents ?h bs @ contents ?h cs)"
      using l' wf' by (simp add: queue_at_def)
    ultimately show ?thesis using ms a bs c by auto
  qed
qed

text \<open>The linked queue as an instance of the interface.  The state is a queue in memory that
  holds a list; the functions are total where it does.\<close>

definition queue_ok :: "mqueue \<Rightarrow> bool" where
  "queue_ok q \<longleftrightarrow> (\<exists>as ms. queue_at q as ms)"

fun follow :: "nat \<Rightarrow> message store \<Rightarrow> nat option \<Rightarrow> message list" where
  "follow 0 st p = []"
| "follow (Suc n) st p =
     (case p of None \<Rightarrow> [] | Some a \<Rightarrow>
        (case cells st a of None \<Rightarrow> [] | Some c \<Rightarrow> content c # follow n st (link c)))"

definition queue_messages :: "mqueue \<Rightarrow> message list" where
  "queue_messages q = follow (brk (qmem q)) (qmem q) (qhead q)"

definition linked_push :: "message \<Rightarrow> mqueue \<Rightarrow> mqueue" where
  "linked_push m q = (case push_message m q of Inl _ \<Rightarrow> q | Inr q' \<Rightarrow> q')"

definition linked_pop :: "32 word \<Rightarrow> mqueue \<Rightarrow> (message \<times> mqueue) option" where
  "linked_pop r q = (case pop_search r q of Some (Inr (Some mq)) \<Rightarrow> Some mq | _ \<Rightarrow> None)"

lemma follow_chain:
  "chain (cells st) p as None \<Longrightarrow> length as \<le> n \<Longrightarrow> follow n st p = contents (cells st) as"
proof (induction as arbitrary: p n)
  case Nil
  then show ?case by (cases n) auto
next
  case (Cons a as)
  then show ?case by (cases n) auto
qed

lemma chain_length_brk:
  assumes "store_wf st" and "chain (cells st) p as None" and "distinct as"
  shows "length as \<le> brk st"
proof -
  have "set as \<subseteq> {..<brk st}"
    using chain_allocated [OF assms(2)] assms(1) unfolding store_wf_def by fastforce
  then have "card (set as) \<le> brk st" using card_mono [of "{..<brk st}" "set as"] by simp
  with assms(3) show ?thesis by (simp add: distinct_card)
qed

lemma queue_messages_at: "queue_at q as ms \<Longrightarrow> queue_messages q = ms"
  unfolding queue_messages_def queue_at_def list_at_def
  using follow_chain chain_length_brk by metis

lemma queue_okE:
  assumes "queue_ok q" obtains as where "queue_at q as (queue_messages q)"
  using assms queue_messages_at unfolding queue_ok_def by blast

interpretation linked: reply_queue queue_ok queue_messages linked_push linked_pop
proof unfold_locales
  fix q m assume "queue_ok q"
  then obtain as where q: "queue_at q as (queue_messages q)" by (rule queue_okE)
  from push_message_at [OF q, of m] obtain q' where
    p: "push_message m q = Inr q'" "queue_at q' (as @ [brk (qmem q)]) (queue_messages q @ [m])" by blast
  then show "queue_ok (linked_push m q)" "queue_messages (linked_push m q) = queue_messages q @ [m]"
    using queue_messages_at by (auto simp: linked_push_def queue_ok_def)
next
  fix q r assume "queue_ok q"
  then obtain as where q: "queue_at q as (queue_messages q)" by (rule queue_okE)
  note cases = pop_search_at [OF q, of r]
  show "linked_pop r q = None \<longleftrightarrow> (\<forall>m \<in> set (queue_messages q). request_id m \<noteq> r)"
    using cases by (elim disjE exE conjE) (auto simp: linked_pop_def)
  fix m q' assume "linked_pop r q = Some (m, q')"
  then have pop: "pop_search r q = Some (Inr (Some (m, q')))"
    by (auto simp: linked_pop_def split: option.splits sum.splits)
  with cases obtain xs ys as' where r: "queue_messages q = xs @ m # ys" "request_id m = r"
    "\<forall>x \<in> set xs. request_id x \<noteq> r" "queue_at q' as' (xs @ ys)" by auto
  then show "queue_ok q'" unfolding queue_ok_def by blast
  show "\<exists>xs ys. queue_messages q = xs @ m # ys \<and> queue_messages q' = xs @ ys \<and> request_id m = r \<and>
          (\<forall>x \<in> set xs. request_id x \<noteq> r)"
    using r queue_messages_at [OF r(4)] by blast
qed

section \<open>The same interface on lists\<close>

fun list_pop :: "32 word \<Rightarrow> message list \<Rightarrow> (message \<times> message list) option" where
  "list_pop r [] = None"
| "list_pop r (m # ms) =
     (if request_id m = r then Some (m, ms)
      else case list_pop r ms of None \<Rightarrow> None | Some (x, ms') \<Rightarrow> Some (x, m # ms'))"

lemma list_pop_None: "list_pop r ms = None \<longleftrightarrow> (\<forall>m \<in> set ms. request_id m \<noteq> r)"
  by (induction ms) (auto split: option.splits)

lemma list_pop_Some:
  "list_pop r ms = Some (m, ms') \<Longrightarrow>
   \<exists>xs ys. ms = xs @ m # ys \<and> ms' = xs @ ys \<and> request_id m = r \<and> (\<forall>x \<in> set xs. request_id x \<noteq> r)"
proof (induction ms arbitrary: ms')
  case (Cons a ms)
  show ?case
  proof (cases "request_id a = r")
    case True
    with Cons.prems show ?thesis by (intro exI [of _ "[]"] exI [of _ ms]) auto
  next
    case False
    with Cons.prems obtain ms'' where "list_pop r ms = Some (m, ms'')" "ms' = a # ms''"
      by (auto split: option.splits)
    with Cons.IH [of ms''] False show ?thesis by (metis append_Cons set_ConsD)
  qed
qed simp

interpretation lists: reply_queue "\<lambda>_. True" "\<lambda>ms. ms" "\<lambda>m ms. ms @ [m]" list_pop
  by unfold_locales (simp_all add: list_pop_None list_pop_Some)

lemma list_pop_append:
  "list_pop r (ms @ ns) =
     (case list_pop r ms of
        None \<Rightarrow> map_option (\<lambda>(x, ns'). (x, ms @ ns')) (list_pop r ns)
      | Some (x, ms') \<Rightarrow> Some (x, ms' @ ns))"
  by (induction ms) (auto simp: option.map_id split: option.splits)

lemma list_pop_first:
  "\<forall>x \<in> set xs. request_id x \<noteq> r \<Longrightarrow> request_id m = r \<Longrightarrow> list_pop r (xs @ m # ys) = Some (m, xs @ ys)"
  by (induction xs) auto

section \<open>Correctness of push and pop\<close>

lemma push_message_list:
  assumes "queue_ok q"
  obtains q' where "push_message m q = Inr q'" and "queue_ok q'"
    and "queue_messages q' = queue_messages q @ [m]"
proof -
  from assms obtain as where q: "queue_at q as (queue_messages q)" by (rule queue_okE)
  from push_message_at [OF q, of m] obtain q' where
    "push_message m q = Inr q'" "queue_at q' (as @ [brk (qmem q)]) (queue_messages q @ [m])" .
  then show ?thesis using that queue_messages_at unfolding queue_ok_def by metis
qed

lemma pop_search_list:
  assumes "queue_ok q"
  shows "case list_pop r (queue_messages q) of
           None \<Rightarrow> pop_search r q = Some (Inr None)
         | Some (m, rest) \<Rightarrow>
             \<exists>q'. pop_search r q = Some (Inr (Some (m, q'))) \<and> queue_ok q' \<and> queue_messages q' = rest"
proof -
  from assms obtain as where q: "queue_at q as (queue_messages q)" by (rule queue_okE)
  show ?thesis
    using pop_search_at [OF q, of r]
  proof (elim disjE exE conjE)
    assume "\<forall>m \<in> set (queue_messages q). request_id m \<noteq> r" "pop_search r q = Some (Inr None)"
    then show ?thesis by (simp add: iffD2 [OF list_pop_None])
  next
    fix xs m ys q' as'
    assume m: "queue_messages q = xs @ m # ys" "request_id m = r" "\<forall>x \<in> set xs. request_id x \<noteq> r"
      and p: "pop_search r q = Some (Inr (Some (m, q')))" and q': "queue_at q' as' (xs @ ys)"
    have "queue_ok q'" "queue_messages q' = xs @ ys"
      using q' queue_messages_at unfolding queue_ok_def by blast+
    then show ?thesis using m p list_pop_first [of xs r m ys] by simp
  qed
qed

lemma push_each_list:
  "queue_ok q \<Longrightarrow> \<exists>q'. push_each ms q = Inr q' \<and> queue_ok q' \<and> queue_messages q' = queue_messages q @ ms"
proof (induction ms arbitrary: q)
  case (Cons m ms)
  from push_message_list [OF Cons.prems, of m] obtain q1 where
    "push_message m q = Inr q1" "queue_ok q1" "queue_messages q1 = queue_messages q @ [m]" .
  with Cons.IH [of q1] show ?case by simp
qed simp

declare pop_message.simps [simp del]

lemma pop_message_list:
  "queue_ok q \<Longrightarrow>
   case list_pop r (queue_messages q @ concat ws) of
     None \<Rightarrow> pop_message r q ws = Some (Inr None)
   | Some (m, rest) \<Rightarrow>
       \<exists>q' ws'. pop_message r q ws = Some (Inr (Some (m, q', ws'))) \<and> queue_ok q' \<and>
               queue_messages q' @ concat ws' = rest"
proof (induction ws arbitrary: q)
  case Nil
  with pop_search_list [of q r] show ?case
    by (cases "list_pop r (queue_messages q)") (auto simp: pop_message.simps [of r q "[]"])
next
  case (Cons w ws)
  show ?case
  proof (cases "list_pop r (queue_messages q)")
    case None
    with pop_search_list [OF Cons.prems, of r] have p: "pop_search r q = Some (Inr None)" by simp
    from push_each_list [OF Cons.prems, of w] obtain q1 where
      q1: "push_each w q = Inr q1" "queue_ok q1" "queue_messages q1 = queue_messages q @ w" by blast
    have "pop_message r q (w # ws) = pop_message r q1 ws"
      using p q1(1) by (simp add: pop_message.simps [of r q "w # ws"])
    with Cons.IH [OF q1(2)] q1(3) show ?thesis by (simp only: append_assoc concat.simps)
  next
    case (Some p)
    obtain m rest where "p = (m, rest)" by (cases p)
    with Some pop_search_list [OF Cons.prems, of r] obtain q' where
      q': "pop_search r q = Some (Inr (Some (m, q')))" "queue_ok q'" "queue_messages q' = rest" by auto
    then have "pop_message r q (w # ws) = Some (Inr (Some (m, q', w # ws)))"
      by (simp add: pop_message.simps [of r q "w # ws"])
    then show ?thesis
      using q' Some \<open>p = (m, rest)\<close> by (auto simp: list_pop_append)
  qed
qed

lemma init_queue_ok [simp]: "queue_ok init_queue" "queue_messages init_queue = []"
  using init_queue_at queue_messages_at unfolding queue_ok_def by blast+

section \<open>Properties\<close>

text \<open>A queue with two replies in memory, the second with the number waited for.\<close>

definition demo_message :: "32 word \<Rightarrow> message" where
  "demo_message r = \<lparr>mtype = MSG_REPLY, mid = replicate 20 NUL, mip = ''10.0.0.1'', mport = 5000,
     request_id = r, segment_index = 0, total_segments = 0, data_len = 0, mdata = []\<rparr>"

definition demo_queue :: mqueue where
  "demo_queue = linked_push (demo_message 8) (linked_push (demo_message 7) init_queue)"

lemma demo_queue_ok: "queue_ok demo_queue" "queue_messages demo_queue = [demo_message 7, demo_message 8]"
  by (simp_all add: demo_queue_def linked.push_inv linked.push_messages)

text \<open>\<open>push_message\<close> on a valid queue never touches freed memory and appends the
  message at the end; the queue stays valid.\<close>

theorem push_message_appends:
  assumes "queue_ok q"
  shows "\<exists>q'. push_message m q = Inr q' \<and> queue_ok q' \<and> queue_messages q' = queue_messages q @ [m]"
  using push_message_list [OF assms] by metis

theorem push_message_appends_witness:
  "\<exists>q'. push_message (demo_message 9) demo_queue = Inr q' \<and>
     queue_messages q' = [demo_message 7, demo_message 8, demo_message 9]"
  using push_message_appends [OF demo_queue_ok(1), of "demo_message 9"] by (auto simp: demo_queue_ok(2))

text \<open>C15: \<open>pop_message\<close> on a valid queue, whatever is pushed while it waits: every search
  ends and touches no freed memory.  Where a message with the number is in the queue or is pushed
  later, it returns the first one in arrival order, and all the others keep their order.  Where
  none is, it waits.\<close>

theorem pop_message_delivers:
  assumes "queue_ok q"
  shows "case find (\<lambda>m. request_id m = r) (queue_messages q @ concat wakeups) of
           None \<Rightarrow> pop_message r q wakeups = Some (Inr None)
         | Some m \<Rightarrow>
             \<exists>q' ws. pop_message r q wakeups = Some (Inr (Some (m, q', ws))) \<and> queue_ok q' \<and>
               (\<exists>xs ys. queue_messages q @ concat wakeups = xs @ m # ys \<and> m \<notin> set xs \<and>
                        queue_messages q' @ concat ws = xs @ ys)"
proof (cases "list_pop r (queue_messages q @ concat wakeups)")
  case None
  then have "find (\<lambda>m. request_id m = r) (queue_messages q @ concat wakeups) = None"
    by (auto simp: list_pop_None find_None_iff)
  then show ?thesis using pop_message_list [OF assms, of r wakeups] None by simp
next
  case (Some p)
  obtain m rest where p: "p = (m, rest)" by (cases p)
  from list_pop_Some [OF Some [unfolded p]] obtain xs ys where
    m: "queue_messages q @ concat wakeups = xs @ m # ys" "rest = xs @ ys" "request_id m = r"
    "\<forall>x \<in> set xs. request_id x \<noteq> r" by blast
  then have "m \<notin> set xs" by auto
  moreover have "find (\<lambda>m. request_id m = r) (xs @ m # ys) = Some m"
    using m(3,4) by (induction xs) auto
  moreover note pop_message_list [OF assms, of r wakeups]
  ultimately show ?thesis
    using Some p m(1,2) by (auto simp: m(1))
qed

theorem pop_message_delivers_witness:
  "pop_message 9 demo_queue [] = Some (Inr None) \<and>
   (\<exists>q' ws. pop_message 9 demo_queue [[demo_message 5], [demo_message 9]] =
              Some (Inr (Some (demo_message 9, q', ws))))"
  using pop_message_delivers [OF demo_queue_ok(1), of 9 "[]"]
    pop_message_delivers [OF demo_queue_ok(1), of 9 "[[demo_message 5], [demo_message 9]]"]
  by (auto simp: demo_queue_ok(2) demo_message_def)

end
