(* ===== verification/File_Transfer.thy ===== *)
theory File_Transfer
  imports File_Store Message_Queue
begin

text \<open>
  Handing file entries to a node that joins: \<open>serialize_file_entries\<close> and
  \<open>deserialize_file_entries\<close> (\<open>src/utils.cpp\<close>), the segments a GET_FILES request is
  answered with (\<open>handle_requests\<close>) and the loop of \<open>join_ring\<close> that reassembles them.
  A \<open>FileEntry\<close> is copied as the bytes it has in memory: the arrays, the port as four
  little-endian bytes and the \<open>next\<close> pointer, whose eight bytes are the argument \<open>pb\<close>.
  \<open>junk\<close> is the value of a byte that \<open>malloc\<close> or \<open>realloc\<close> does not initialise; an
  allocation never fails here.
\<close>

section \<open>The bytes of an entry\<close>

definition POINTER_SIZE :: nat where "POINTER_SIZE = 8"

definition ENTRY_SIZE :: nat where
  "ENTRY_SIZE = HASH_SIZE + MAX_FILENAME + MAX_FILEPATH + IP_SIZE + 4 + POINTER_SIZE"

lemma ENTRY_SIZE_val: "ENTRY_SIZE = 4400"
  by (simp add: ENTRY_SIZE_def POINTER_SIZE_def size_defs)

lemma DATA_SIZE_val: "DATA_SIZE = 1328"
  by (simp add: DATA_SIZE_def MSG_SIZE_def)

definition entry_bytes :: "(nat option \<Rightarrow> byte list) \<Rightarrow> file_entry \<Rightarrow> nat option \<Rightarrow> byte list" where
  "entry_bytes pb e nx =
     fid e @ ffilename e @ ffilepath e @ fowner_ip e @ int_bytes (fowner_port e) @ pb nx"

definition read_bytes :: "byte list \<Rightarrow> nat \<Rightarrow> nat \<Rightarrow> fault + byte list" where
  "read_bytes buf off n = (if off + n \<le> length buf then Inr (take n (drop off buf)) else Inl BufferOverflow)"

definition entry_of_bytes :: "byte list \<Rightarrow> file_entry" where
  "entry_of_bytes bs =
     (let b1 = drop HASH_SIZE bs; b2 = drop MAX_FILENAME b1; b3 = drop MAX_FILEPATH b2; b4 = drop IP_SIZE b3
      in \<lparr>fid = take HASH_SIZE bs, ffilename = take MAX_FILENAME b1, ffilepath = take MAX_FILEPATH b2,
          fowner_ip = take IP_SIZE b3, fowner_port = bytes_int (take 4 b4)\<rparr>)"

lemma entry_of_entry_bytes:
  "entry_wf e \<Longrightarrow> entry_of_bytes (entry_bytes pb e nx) = e"
  by (simp add: entry_of_bytes_def entry_bytes_def entry_wf_def bytes_int_bytes)

lemma length_entry_bytes:
  "entry_wf e \<Longrightarrow> length (pb nx) = POINTER_SIZE \<Longrightarrow> length (entry_bytes pb e nx) = ENTRY_SIZE"
  by (simp add: entry_bytes_def entry_wf_def ENTRY_SIZE_def)

section \<open>Serialising\<close>

text \<open>The two serialisers run the same loop; \<open>sel\<close> is the test the first one makes.\<close>

partial_function (option) serialize_loop ::
    "(byte list \<Rightarrow> bool) \<Rightarrow> (nat option \<Rightarrow> byte list) \<Rightarrow> byte \<Rightarrow> file_heap \<Rightarrow> nat option \<Rightarrow>
     byte list \<Rightarrow> nat \<Rightarrow> nat \<Rightarrow> (fault + (byte list \<times> nat)) option" where
  "serialize_loop sel pb junk st entry buf buf_size offset =
     (case entry of
        None \<Rightarrow> Some (Inr (buf, offset))
      | Some a \<Rightarrow>
          (case read_cell st a of
             Inl e \<Rightarrow> Some (Inl e)
           | Inr c \<Rightarrow>
               if sel (fid (content c)) then
                 (let grow = offset + ENTRY_SIZE > buf_size;
                      size1 = (if grow then buf_size * 2 else buf_size);
                      buf1 = (if grow then resize junk size1 buf else buf)
                  in case memcpy_at offset (entry_bytes pb (content c) (link c)) buf1 of
                       Inl e \<Rightarrow> Some (Inl e)
                     | Inr buf2 \<Rightarrow>
                         serialize_loop sel pb junk st (link c) buf2 size1 (offset + ENTRY_SIZE))
               else serialize_loop sel pb junk st (link c) buf buf_size offset))"

definition serialize_file_entries ::
    "(nat option \<Rightarrow> byte list) \<Rightarrow> byte \<Rightarrow> byte list \<Rightarrow> nat \<Rightarrow> nat option \<Rightarrow> byte list \<Rightarrow> byte list \<Rightarrow> file_heap \<Rightarrow>
     (fault + (byte list \<times> nat)) option" where
  "serialize_file_entries pb junk buf buf_size files new_id cur_id st =
     serialize_loop (\<lambda>i. should_transfer_file i new_id cur_id) pb junk st files buf buf_size 0"

definition serialize_all_file_entries ::
    "(nat option \<Rightarrow> byte list) \<Rightarrow> byte \<Rightarrow> byte list \<Rightarrow> nat \<Rightarrow> nat option \<Rightarrow> file_heap \<Rightarrow>
     (fault + (byte list \<times> nat)) option" where
  "serialize_all_file_entries pb junk buf buf_size files st =
     serialize_loop (\<lambda>i. True) pb junk st files buf buf_size 0"

section \<open>Deserialising\<close>

function deserialize_loop ::
    "byte list \<Rightarrow> nat \<Rightarrow> nat \<Rightarrow> nat option \<Rightarrow> file_heap \<Rightarrow> fault + (nat option \<times> file_heap)" where
  "deserialize_loop buf buf_size offset files st =
     (if offset < buf_size then
        (case read_bytes buf offset ENTRY_SIZE of
           Inl e \<Rightarrow> Inl e
         | Inr bs \<Rightarrow>
             (let (a, st') = new_cell (entry_of_bytes bs) files st
              in deserialize_loop buf buf_size (offset + ENTRY_SIZE) (Some a) st'))
      else Inr (files, st))"
  by pat_completeness auto
termination
  by (relation "measure (\<lambda>(buf, buf_size, offset, files, st). buf_size - offset)")
    (auto simp: ENTRY_SIZE_val)

declare deserialize_loop.simps [simp del]

definition deserialize_file_entries ::
    "byte list \<Rightarrow> nat \<Rightarrow> nat option \<Rightarrow> file_heap \<Rightarrow> fault + (nat option \<times> file_heap)" where
  "deserialize_file_entries buf buf_size files st = deserialize_loop buf buf_size 0 files st"

section \<open>The answer to GET_FILES\<close>

text \<open>The loop over the chunks: one \<open>response\<close> object is reused, so the bytes of its data
  array behind a short segment are those of the segment before.\<close>

fun send_segments ::
    "byte list \<Rightarrow> nat \<Rightarrow> nat \<Rightarrow> nat \<Rightarrow> nat \<Rightarrow> message \<Rightarrow> fault + (message list \<times> message)" where
  "send_segments buf data_size chunks i 0 response = Inr ([], response)"
| "send_segments buf data_size chunks i (Suc k) response =
     (let start_index = i * DATA_SIZE;
          end_index = (if start_index + DATA_SIZE > data_size then data_size else start_index + DATA_SIZE);
          segment_size = end_index - start_index
      in case read_bytes buf start_index segment_size of
           Inl e \<Rightarrow> Inl e
         | Inr bs \<Rightarrow>
             (case memcpy_at 0 bs (mdata response) of
                Inl e \<Rightarrow> Inl e
              | Inr d \<Rightarrow>
                  (let response1 = response\<lparr>segment_index := of_nat i, total_segments := of_nat chunks,
                                           mdata := d, data_len := segment_size\<rparr>
                   in case send_segments buf data_size chunks (Suc i) k response1 of
                        Inl e \<Rightarrow> Inl e
                      | Inr (ms, r) \<Rightarrow> Inr (response1 # ms, r))))"

definition file_segments ::
    "message \<Rightarrow> 32 word \<Rightarrow> byte list \<Rightarrow> byte list \<Rightarrow> nat \<Rightarrow> fault + message list" where
  "file_segments junk_msg rid node_id buf data_size =
     (let total_chunks = (data_size + DATA_SIZE - 1) div DATA_SIZE;
          response = junk_msg\<lparr>request_id := rid, mid := node_id, mtype := MSG_FILE_DATA\<rparr>
      in case send_segments buf data_size total_chunks 0 total_chunks response of
           Inl e \<Rightarrow> Inl e
         | Inr (ms, r) \<Rightarrow>
             (case strcpy (mdata r) [] of
                Inl e \<Rightarrow> Inl e
              | Inr d \<Rightarrow> Inr (ms @ [r\<lparr>mtype := MSG_FILE_END, mdata := d, data_len := 0\<rparr>])))"

section \<open>The joining node\<close>

text \<open>One iteration of the receiving loop; the state is the buffer and \<open>file_data_size\<close>.\<close>

definition receive_segment :: "byte \<Rightarrow> message \<Rightarrow> byte list \<Rightarrow> nat \<Rightarrow> fault + (byte list \<times> nat)" where
  "receive_segment junk m buf fsize =
     (let segment_start = unat (segment_index m) * DATA_SIZE;
          segment_end = (segment_start + data_len m) mod 2 ^ 64;
          buf1 = (if segment_end > length buf then resize junk segment_end buf else buf)
      in case read_bytes (mdata m) 0 (data_len m) of
           Inl e \<Rightarrow> Inl e
         | Inr bs \<Rightarrow>
             (case memcpy_at segment_start bs buf1 of
                Inl e \<Rightarrow> Inl e
              | Inr buf2 \<Rightarrow>
                  Inr (buf2, if unat (segment_index m) + 1 = unat (total_segments m) then segment_end
                             else fsize)))"

text \<open>The messages in the order the loop pops them.  \<open>None\<close>: it still waits for one.\<close>

fun receive_files :: "byte \<Rightarrow> message list \<Rightarrow> byte list \<Rightarrow> nat \<Rightarrow> (fault + (message \<times> byte list \<times> nat)) option" where
  "receive_files junk [] buf fsize = None"
| "receive_files junk (m # ms) buf fsize =
     (if mtype m = MSG_FILE_END then Some (Inr (m, buf, fsize))
      else case receive_segment junk m buf fsize of
             Inl e \<Rightarrow> Some (Inl e)
           | Inr (buf', fsize') \<Rightarrow> receive_files junk ms buf' fsize')"

definition finish_join ::
    "message \<Rightarrow> byte list \<Rightarrow> nat \<Rightarrow> nat option \<Rightarrow> file_heap \<Rightarrow> fault + (nat option \<times> file_heap)" where
  "finish_join response buf fsize files st =
     (if 0 < fsize \<and> unat (segment_index response) + 1 = unat (total_segments response)
      then deserialize_file_entries buf fsize files st
      else Inr (files, st))"

section \<open>Serialising and deserialising on lists\<close>

lemma serialize_loop_list:
  assumes "list_at st p as xs" and "\<forall>x \<in> set xs. entry_wf x" and "\<And>nx. length (pb nx) = POINTER_SIZE"
    and "length buf = buf_size" and "offset \<le> buf_size"
    and "offset = 0 \<and> ENTRY_SIZE \<le> 2 * buf_size \<or> ENTRY_SIZE \<le> buf_size"
  shows "\<exists>buf' blocks. serialize_loop sel pb junk st p buf buf_size offset =
           Some (Inr (buf', offset + length (concat blocks))) \<and>
         offset + length (concat blocks) \<le> length buf' \<and>
         take (offset + length (concat blocks)) buf' = take offset buf @ concat blocks \<and>
         map entry_of_bytes blocks = filter (\<lambda>x. sel (fid x)) xs \<and>
         (\<forall>b \<in> set blocks. length b = ENTRY_SIZE)"
  using assms
proof (induction as arbitrary: p xs buf buf_size offset)
  case Nil
  then have "serialize_loop sel pb junk st p buf buf_size offset = Some (Inr (buf, offset + length (concat [])))"
    by (simp add: serialize_loop.simps)
  with Nil show ?case by (intro exI [of _ buf] exI [of _ "[]"]) simp
next
  case (Cons a as)
  obtain c where c: "cells st a = Some c" "p = Some a" "list_at st (link c) as (tl xs)" "xs = content c # tl xs"
    using Cons.prems(1) by (auto simp: list_at_def)
  note step = serialize_loop.simps [of sel pb junk st "Some a" buf buf_size offset]
  have wf: "entry_wf (content c)" "\<forall>x \<in> set (tl xs). entry_wf x"
    using Cons.prems(2) c(4) by (metis list.set_intros)+
  show ?case
  proof (cases "sel (fid (content c))")
    case False
    from Cons.IH [OF c(3) wf(2) Cons.prems(3-)] obtain buf' blocks where
      "serialize_loop sel pb junk st (link c) buf buf_size offset = Some (Inr (buf', offset + length (concat blocks)))"
      "offset + length (concat blocks) \<le> length buf'"
      "take (offset + length (concat blocks)) buf' = take offset buf @ concat blocks"
      "map entry_of_bytes blocks = filter (\<lambda>x. sel (fid x)) (tl xs)" "\<forall>b \<in> set blocks. length b = ENTRY_SIZE"
      by blast
    moreover have "filter (\<lambda>x. sel (fid x)) xs = filter (\<lambda>x. sel (fid x)) (tl xs)"
      using False c(4) by (metis filter.simps(2))
    ultimately show ?thesis using False c(1,2) by (auto simp: step read_cell_def)
  next
    case True
    define size1 where "size1 = (if offset + ENTRY_SIZE > buf_size then buf_size * 2 else buf_size)"
    define buf1 where "buf1 = (if offset + ENTRY_SIZE > buf_size then resize junk size1 buf else buf)"
    define b where "b = entry_bytes pb (content c) (link c)"
    have lb: "length b = ENTRY_SIZE"
      using length_entry_bytes [OF wf(1) Cons.prems(3)] by (simp add: b_def)
    have len1: "length buf1 = size1" using Cons.prems(4) by (simp add: buf1_def size1_def)
    have fits: "offset + ENTRY_SIZE \<le> size1" using Cons.prems(5,6) by (auto simp: size1_def)
    have same: "take offset buf1 = take offset buf"
      using Cons.prems(4,5) by (simp add: buf1_def size1_def take_resize)
    define buf2 where "buf2 = take offset buf1 @ b @ drop (offset + ENTRY_SIZE) buf1"
    have mc: "memcpy_at offset b buf1 = Inr buf2"
      using fits len1 lb by (simp add: memcpy_at_def buf2_def)
    have len2: "length buf2 = size1" using fits len1 lb by (simp add: buf2_def)
    have tk: "take (offset + ENTRY_SIZE) buf2 = take offset buf @ b"
      using fits len1 lb same Cons.prems(4,5) by (simp add: buf2_def)
    have "ENTRY_SIZE \<le> size1" using fits by simp
    with Cons.IH [OF c(3) wf(2) Cons.prems(3) len2 fits] obtain buf' blocks where
      r: "serialize_loop sel pb junk st (link c) buf2 size1 (offset + ENTRY_SIZE) =
        Some (Inr (buf', offset + ENTRY_SIZE + length (concat blocks)))"
      "offset + ENTRY_SIZE + length (concat blocks) \<le> length buf'"
      "take (offset + ENTRY_SIZE + length (concat blocks)) buf' = take offset buf @ b @ concat blocks"
      "map entry_of_bytes blocks = filter (\<lambda>x. sel (fid x)) (tl xs)" "\<forall>b \<in> set blocks. length b = ENTRY_SIZE"
      using tk by auto
    have tot: "offset + length (concat (b # blocks)) = offset + ENTRY_SIZE + length (concat blocks)"
      using lb by simp
    have fl: "map entry_of_bytes (b # blocks) = filter (\<lambda>x. sel (fid x)) xs"
      using r(4) True c(4) wf(1) by (metis b_def entry_of_entry_bytes filter.simps(2) list.simps(9))
    have "serialize_loop sel pb junk st p buf buf_size offset =
        serialize_loop sel pb junk st (link c) buf2 size1 (offset + ENTRY_SIZE)"
      unfolding c(2) step using c(1) True mc
      by (cases "offset + ENTRY_SIZE > buf_size")
        (simp_all add: read_cell_def Let_def size1_def buf1_def b_def)
    then have 1: "serialize_loop sel pb junk st p buf buf_size offset =
        Some (Inr (buf', offset + length (concat (b # blocks))))"
      unfolding tot using r(1) by simp
    have 2: "offset + length (concat (b # blocks)) \<le> length buf'"
      unfolding tot by (rule r(2))
    have 3: "take (offset + length (concat (b # blocks))) buf' = take offset buf @ concat (b # blocks)"
      unfolding tot using r(3) by simp
    have 4: "\<forall>x \<in> set (b # blocks). length x = ENTRY_SIZE" using r(5) lb by simp
    show ?thesis using 1 2 3 fl 4 by blast
  qed
qed

lemma deserialize_loop_list:
  assumes "files_at st files up xs ys" and "\<forall>b \<in> set blocks. length b = ENTRY_SIZE"
    and "take buf_size buf = pre @ concat blocks" and "length pre = offset"
    and "buf_size = offset + length (concat blocks)" and "buf_size \<le> length buf"
  shows "\<exists>p' st'. deserialize_loop buf buf_size offset files st = Inr (p', st') \<and>
           files_at st' p' up (rev (map entry_of_bytes blocks) @ xs) ys"
  using assms
proof (induction blocks arbitrary: st files xs pre offset)
  case Nil
  then show ?case by (simp add: deserialize_loop.simps)
next
  case (Cons b blocks)
  have lb: "length b = ENTRY_SIZE" using Cons.prems(2) by simp
  have lt: "offset < buf_size" "offset + ENTRY_SIZE \<le> buf_size"
    using Cons.prems(5) lb by (simp_all add: ENTRY_SIZE_val)
  have "take ENTRY_SIZE (drop offset buf) = take ENTRY_SIZE (drop offset (take buf_size buf))"
    using lt(2) by (simp add: drop_take min_def)
  also have "\<dots> = b" using Cons.prems(3,4) lb by simp
  finally have rd: "read_bytes buf offset ENTRY_SIZE = Inr b"
    using lt(2) Cons.prems(6) by (simp add: read_bytes_def)
  obtain a st' where n: "new_cell (entry_of_bytes b) files st = (a, st')" by fastforce
  have "files_at st' (Some a) up (entry_of_bytes b # xs) ys" by (rule files_at_new [OF Cons.prems(1) n])
  from Cons.IH [OF this, of "pre @ b" "offset + ENTRY_SIZE"] Cons.prems lb
  obtain p' st'' where "deserialize_loop buf buf_size (offset + ENTRY_SIZE) (Some a) st' = Inr (p', st'')"
    "files_at st'' p' up (rev (map entry_of_bytes blocks) @ entry_of_bytes b # xs) ys" by auto
  then show ?case
    using rd n lt(1) by (simp add: deserialize_loop.simps [of buf buf_size offset])
qed

section \<open>Segments\<close>

definition chunks_of :: "nat \<Rightarrow> nat" where
  "chunks_of n = (n + DATA_SIZE - 1) div DATA_SIZE"

lemma chunks_of_less: "i < chunks_of n \<longleftrightarrow> i * DATA_SIZE < n"
proof -
  have "i < chunks_of n \<longleftrightarrow> Suc i \<le> (n + DATA_SIZE - 1) div DATA_SIZE"
    by (simp add: chunks_of_def Suc_le_eq)
  also have "\<dots> \<longleftrightarrow> Suc i * DATA_SIZE \<le> n + DATA_SIZE - 1"
    by (rule less_eq_div_iff_mult_less_eq) (simp add: DATA_SIZE_val)
  also have "\<dots> \<longleftrightarrow> i * DATA_SIZE < n" by (simp add: DATA_SIZE_val) linarith
  finally show ?thesis .
qed

definition is_segment :: "32 word \<Rightarrow> byte list \<Rightarrow> nat \<Rightarrow> message \<Rightarrow> bool" where
  "is_segment rid data i m \<longleftrightarrow>
     mtype m = MSG_FILE_DATA \<and> request_id m = rid \<and> i < chunks_of (length data) \<and>
     segment_index m = of_nat i \<and> total_segments m = of_nat (chunks_of (length data)) \<and>
     length (mdata m) = DATA_SIZE \<and> data_len m = min DATA_SIZE (length data - i * DATA_SIZE) \<and>
     take (data_len m) (mdata m) = take DATA_SIZE (drop (i * DATA_SIZE) data)"

lemma send_segments_list:
  assumes "data_size \<le> length buf" and "length (mdata r0) = DATA_SIZE" and "mtype r0 = MSG_FILE_DATA"
    and "request_id r0 = rid" and "i + k = chunks_of data_size"
  shows "\<exists>ms r. send_segments buf data_size (chunks_of data_size) i k r0 = Inr (ms, r) \<and> length ms = k \<and>
           (\<forall>j < k. is_segment rid (take data_size buf) (i + j) (ms ! j)) \<and>
           length (mdata r) = DATA_SIZE \<and> request_id r = rid \<and>
           (0 < k \<longrightarrow> segment_index r = of_nat (chunks_of data_size - 1) \<and>
                      total_segments r = of_nat (chunks_of data_size))"
  using assms
proof (induction k arbitrary: i r0)
  case (Suc k)
  let ?start = "i * DATA_SIZE"
  let ?stop = "if ?start + DATA_SIZE > data_size then data_size else ?start + DATA_SIZE"
  have i: "?start < data_size" using Suc.prems(5) chunks_of_less [of i data_size] by simp
  have seg: "?stop - ?start = min DATA_SIZE (data_size - ?start)" "?start + (?stop - ?start) \<le> length buf"
    using i Suc.prems(1) by auto
  define bs where "bs = take (?stop - ?start) (drop ?start buf)"
  have rd: "read_bytes buf ?start (?stop - ?start) = Inr bs"
    using seg(2) by (simp add: read_bytes_def bs_def)
  have lbs: "length bs = ?stop - ?start" using seg(2) by (simp add: bs_def)
  define d where "d = bs @ drop (length bs) (mdata r0)"
  have mc: "memcpy_at 0 bs (mdata r0) = Inr d" and ld: "length d = DATA_SIZE"
    using lbs seg(1) Suc.prems(2) by (simp_all add: memcpy_at_def d_def)
  define r1 where "r1 = r0\<lparr>segment_index := of_nat i, total_segments := of_nat (chunks_of data_size),
                           mdata := d, data_len := ?stop - ?start\<rparr>"
  have "take (?stop - ?start) d = bs" using lbs by (simp add: d_def)
  moreover have "bs = take DATA_SIZE (drop ?start (take data_size buf))"
    using i by (simp add: bs_def drop_take min_def)
  ultimately have s1: "is_segment rid (take data_size buf) i r1"
    using Suc.prems i ld seg(1) chunks_of_less [of i data_size]
    by (simp add: is_segment_def r1_def min_absorb2)
  have pre: "length (mdata r1) = DATA_SIZE" "mtype r1 = MSG_FILE_DATA" "request_id r1 = rid"
    "Suc i + k = chunks_of data_size"
    using Suc.prems ld by (simp_all add: r1_def)
  from Suc.IH [OF Suc.prems(1) pre] obtain ms r where
    r: "send_segments buf data_size (chunks_of data_size) (Suc i) k r1 = Inr (ms, r)" "length ms = k"
    "\<forall>j < k. is_segment rid (take data_size buf) (Suc i + j) (ms ! j)"
    "length (mdata r) = DATA_SIZE" "request_id r = rid"
    "0 < k \<longrightarrow> segment_index r = of_nat (chunks_of data_size - 1) \<and>
                total_segments r = of_nat (chunks_of data_size)"
    by blast
  have step: "send_segments buf data_size (chunks_of data_size) i (Suc k) r0 = Inr (r1 # ms, r)"
    using rd mc r(1) by (simp add: r1_def Let_def)
  have "is_segment rid (take data_size buf) (i + j) ((r1 # ms) ! j)" if "j < Suc k" for j
    using that s1 r(3) by (cases j) auto
  moreover have "segment_index r = of_nat (chunks_of data_size - 1) \<and>
      total_segments r = of_nat (chunks_of data_size)"
  proof (cases "k = 0")
    case True
    then have "r = r1" "chunks_of data_size - 1 = i" using r(1) Suc.prems(5) by auto
    then show ?thesis by (simp add: r1_def)
  qed (use r(6) in simp)
  ultimately show ?case
    by (intro exI [of _ "r1 # ms"] exI [of _ r] conjI) (use step r(2,4,5) in simp_all)
qed simp

lemma file_segments_list:
  assumes "data_size \<le> length buf" and "length (mdata junk_msg) = DATA_SIZE"
  obtains ms end_msg where "file_segments junk_msg rid node_id buf data_size = Inr (ms @ [end_msg])"
    and "length ms = chunks_of data_size"
    and "\<And>i. i < chunks_of data_size \<Longrightarrow> is_segment rid (take data_size buf) i (ms ! i)"
    and "mtype end_msg = MSG_FILE_END" and "request_id end_msg = rid"
    and "0 < data_size \<Longrightarrow> segment_index end_msg = of_nat (chunks_of data_size - 1)"
    and "0 < data_size \<Longrightarrow> total_segments end_msg = of_nat (chunks_of data_size)"
proof -
  define r0 where "r0 = junk_msg\<lparr>request_id := rid, mid := node_id, mtype := MSG_FILE_DATA\<rparr>"
  have "length (mdata r0) = DATA_SIZE" "mtype r0 = MSG_FILE_DATA" "request_id r0 = rid"
    "0 + chunks_of data_size = chunks_of data_size" using assms(2) by (simp_all add: r0_def)
  from send_segments_list [OF assms(1) this] obtain ms r where
    r: "send_segments buf data_size (chunks_of data_size) 0 (chunks_of data_size) r0 = Inr (ms, r)"
    "length ms = chunks_of data_size"
    "\<forall>j < chunks_of data_size. is_segment rid (take data_size buf) (0 + j) (ms ! j)"
    "length (mdata r) = DATA_SIZE" "request_id r = rid"
    "0 < chunks_of data_size \<longrightarrow> segment_index r = of_nat (chunks_of data_size - 1) \<and>
                total_segments r = of_nat (chunks_of data_size)"
    by (elim exE conjE) (rule that, assumption+)
  have pos: "0 < chunks_of data_size" if "0 < data_size"
    using chunks_of_less [of 0 data_size] that by simp
  have "strcpy (mdata r) [] = Inr (NUL # drop 1 (mdata r))"
    using r(4) by (simp add: strcpy_def memcpy_at_def DATA_SIZE_val)
  with r(1) have "file_segments junk_msg rid node_id buf data_size =
      Inr (ms @ [r\<lparr>mtype := MSG_FILE_END, mdata := NUL # drop 1 (mdata r), data_len := 0\<rparr>])"
    unfolding file_segments_def chunks_of_def [symmetric] r0_def [symmetric] Let_def by simp
  then show ?thesis by (rule that) (use r pos in auto)
qed

section \<open>Reassembly\<close>

text \<open>The segments in \<open>S\<close> have been copied to their places; \<open>fsize\<close> is known once the
  last one has.\<close>

definition received :: "byte list \<Rightarrow> nat set \<Rightarrow> byte list \<Rightarrow> nat \<Rightarrow> bool" where
  "received data S buf fsize \<longleftrightarrow>
     (\<forall>p < length data. p div DATA_SIZE \<in> S \<longrightarrow> p < length buf \<and> buf ! p = data ! p) \<and>
     fsize = (if chunks_of (length data) - 1 \<in> S then length data else 0)"

lemma unat_16: "n < 2 ^ 16 \<Longrightarrow> unat (of_nat n :: 16 word) = n"
  by (simp add: unat_of_nat)

lemma is_segment_unique:
  assumes "is_segment rid data i m" and "is_segment rid data j m" and "chunks_of (length data) < 2 ^ 16"
  shows "i = j"
  using assms unfolding is_segment_def by (metis less_trans unat_16)

lemma receive_segment_step:
  assumes "received data S buf fsize" and "is_segment rid data i m" and "chunks_of (length data) < 2 ^ 16"
  obtains buf' fsize' where "receive_segment junk m buf fsize = Inr (buf', fsize')"
    and "received data (insert i S) buf' fsize'"
proof -
  let ?n = "length data" and ?start = "i * DATA_SIZE" and ?c = "chunks_of (length data)"
  have m: "i < ?c" "segment_index m = of_nat i" "total_segments m = of_nat ?c"
    "length (mdata m) = DATA_SIZE" "data_len m = min DATA_SIZE (?n - ?start)"
    "take (data_len m) (mdata m) = take DATA_SIZE (drop ?start data)"
    using assms(2) unfolding is_segment_def by blast+
  have i: "?start < ?n" using m(1) chunks_of_less by blast
  have ui: "unat (segment_index m) = i" "unat (total_segments m) = ?c"
    using m(1-3) assms(3) by (simp_all add: unat_16)
  define e where "e = ?start + data_len m"
  have e: "e = min (?start + DATA_SIZE) ?n" using i m(5) by (auto simp: e_def)
  have n: "?n \<le> ?c * DATA_SIZE" using chunks_of_less [of ?c ?n] by simp
  have "?n < 2 ^ 64" using n assms(3) by (simp add: DATA_SIZE_val)
  then have em: "(?start + data_len m) mod 2 ^ 64 = e" using e by (simp add: e_def)
  define buf1 where "buf1 = (if e > length buf then resize junk e buf else buf)"
  have l1: "e \<le> length buf1" "length buf \<le> length buf1" by (simp_all add: buf1_def)
  have p1: "buf1 ! p = buf ! p" if "p < length buf" for p
    using that by (auto simp: buf1_def resize_def nth_append)
  define bs where "bs = take DATA_SIZE (drop ?start data)"
  have lbs: "length bs = data_len m" using m(5) by (simp add: bs_def min.commute)
  have rd: "read_bytes (mdata m) 0 (data_len m) = Inr bs"
    using m by (simp add: read_bytes_def bs_def)
  define buf2 where "buf2 = take ?start buf1 @ bs @ drop (?start + length bs) buf1"
  have mc: "memcpy_at ?start bs buf1 = Inr buf2"
    using l1 lbs by (simp add: memcpy_at_def buf2_def e_def)
  have l2: "length buf2 = length buf1" using memcpy_at_length [OF mc] .
  have inside: "buf2 ! p = data ! p" if "?start \<le> p" "p < e" for p
  proof -
    have "p - ?start < length bs" "length (take ?start buf1) = ?start"
      using that l1 lbs by (simp_all add: e_def)
    then have "buf2 ! p = bs ! (p - ?start)" using that(1) by (simp add: buf2_def nth_append)
    also have "\<dots> = data ! p"
      using \<open>p - ?start < length bs\<close> that(1) i by (simp add: bs_def)
    finally show ?thesis .
  qed
  have outside: "buf2 ! p = buf1 ! p" if "p < ?start \<or> e \<le> p" "p < length buf1" for p
    using that l1 lbs by (auto simp: buf2_def nth_append e_def)
  have range: "p div DATA_SIZE = i \<longleftrightarrow> ?start \<le> p \<and> p < ?start + DATA_SIZE" for p
  proof
    assume "p div DATA_SIZE = i"
    then show "?start \<le> p \<and> p < ?start + DATA_SIZE"
      using div_mult_mod_eq [of p DATA_SIZE] mod_less_divisor [of DATA_SIZE p]
      by (simp add: DATA_SIZE_val)
  next
    assume "?start \<le> p \<and> p < ?start + DATA_SIZE"
    then show "p div DATA_SIZE = i" by (intro div_nat_eqI) (simp_all add: mult.commute)
  qed
  have bytes: "p < length buf2 \<and> buf2 ! p = data ! p"
    if p: "p < ?n" "p div DATA_SIZE \<in> insert i S" for p
  proof (cases "p div DATA_SIZE = i")
    case True
    then have "?start \<le> p" "p < e" using range p(1) e by auto
    then show ?thesis using inside l1 l2 by simp
  next
    case False
    then have "p < length buf" "buf ! p = data ! p"
      using p assms(1) by (auto simp: received_def)
    moreover have "e \<le> ?start + DATA_SIZE" by (simp add: e)
    moreover have "p < ?start \<or> ?start + DATA_SIZE \<le> p" using False range [of p] by linarith
    ultimately show ?thesis using outside [of p] p1 [of p] l1 l2 by fastforce
  qed
  let ?f = "if i + 1 = ?c then e else fsize"
  have f: "?f = (if ?c - 1 \<in> insert i S then ?n else 0)"
  proof (cases "i + 1 = ?c")
    case True
    then have "?n \<le> ?start + DATA_SIZE" using n by (metis add.commute mult_Suc Suc_eq_plus1)
    moreover have "?c - 1 = i" using True by simp
    ultimately show ?thesis using True e by simp
  next
    case False
    then have "?c - 1 \<noteq> i" using m(1) by linarith
    then show ?thesis using False assms(1) by (simp add: received_def)
  qed
  have "receive_segment junk m buf fsize = Inr (buf2, ?f)"
    unfolding receive_segment_def ui em Let_def buf1_def [symmetric] using rd mc by simp
  then show ?thesis by (rule that) (use bytes f in \<open>simp add: received_def\<close>)
qed

lemma receive_files_all:
  assumes "received data S buf fsize" and "\<forall>m \<in> set ms. \<exists>i. is_segment rid data i m"
    and "chunks_of (length data) < 2 ^ 16" and "mtype end_msg = MSG_FILE_END"
  shows "\<exists>buf' fsize'. receive_files junk (ms @ [end_msg]) buf fsize = Some (Inr (end_msg, buf', fsize')) \<and>
           received data (S \<union> {i. \<exists>m \<in> set ms. is_segment rid data i m}) buf' fsize'"
  using assms
proof (induction ms arbitrary: S buf fsize)
  case (Cons m ms)
  obtain i where i: "is_segment rid data i m" using Cons.prems(2) by auto
  have uniq: "j = i" if "is_segment rid data j m" for j
    using is_segment_unique [OF that i Cons.prems(3)] .
  obtain buf' fsize' where s: "receive_segment junk m buf fsize = Inr (buf', fsize')"
    "received data (insert i S) buf' fsize'"
    by (rule receive_segment_step [OF Cons.prems(1) i Cons.prems(3)])
  have ne: "mtype m \<noteq> MSG_FILE_END" using i by (simp add: is_segment_def msg_types)
  have eq: "S \<union> {i. \<exists>x \<in> set (m # ms). is_segment rid data i x} =
      insert i S \<union> {i. \<exists>m \<in> set ms. is_segment rid data i m}"
  proof -
    have "{j. is_segment rid data j m} = {i}" using i uniq by blast
    moreover have "{i. \<exists>x \<in> set (m # ms). is_segment rid data i x} =
        {j. is_segment rid data j m} \<union> {i. \<exists>m \<in> set ms. is_segment rid data i m}" by auto
    ultimately show ?thesis by simp
  qed
  have segs: "\<forall>m \<in> set ms. \<exists>i. is_segment rid data i m" using Cons.prems(2) by simp
  have rf: "receive_files junk ((m # ms) @ [end_msg]) buf fsize = receive_files junk (ms @ [end_msg]) buf' fsize'"
    using s(1) ne by simp
  show ?case unfolding rf eq by (rule Cons.IH [OF s(2) segs Cons.prems(3,4)])
qed simp

lemma received_all:
  assumes "received data S buf fsize" and "\<And>i. i < chunks_of (length data) \<Longrightarrow> i \<in> S"
  shows "fsize = length data" and "length data \<le> length buf" and "take (length data) buf = data"
proof -
  let ?n = "length data"
  have at: "p < length buf \<and> buf ! p = data ! p" if "p < ?n" for p
  proof -
    have "p div DATA_SIZE * DATA_SIZE \<le> p" by simp
    then have "p div DATA_SIZE < chunks_of ?n"
      using that chunks_of_less by (metis le_less_trans)
    then show ?thesis using assms that by (auto simp: received_def)
  qed
  show le: "?n \<le> length buf" using at [of "?n - 1"] by (cases "?n = 0") auto
  show "take ?n buf = data" by (rule nth_equalityI) (use le at in auto)
  show "fsize = ?n"
  proof (cases "?n = 0")
    case False
    then have "0 < chunks_of ?n" using chunks_of_less [of 0 ?n] by simp
    then show ?thesis using assms by (simp add: received_def)
  qed (use assms(1) in \<open>simp add: received_def\<close>)
qed

lemma length_concat_blocks:
  "\<forall>b \<in> set blocks. length b = n \<Longrightarrow> length (concat blocks) = length blocks * n"
  by (induction blocks) auto

section \<open>Properties\<close>

text \<open>What the serving node does with a GET_FILES request: the data it sends, as blocks of one
  entry each, cut into segments.\<close>

lemma get_files_segments:
  assumes "files_at st files up xs ys" and "\<forall>x \<in> set xs. entry_wf x" and "\<And>nx. length (pb nx) = POINTER_SIZE"
    and "length (mdata junk_msg) = DATA_SIZE" and "length buf = 4096"
    and "length (filter (\<lambda>x. should_transfer_file (fid x) new_id cur_id) xs) \<le> 19779"
  obtains buf' blocks ms end_msg where
    "serialize_file_entries pb junk buf 4096 files new_id cur_id st = Some (Inr (buf', length (concat blocks)))"
    and "file_segments junk_msg rid cur_id buf' (length (concat blocks)) = Inr (ms @ [end_msg])"
    and "map entry_of_bytes blocks = filter (\<lambda>x. should_transfer_file (fid x) new_id cur_id) xs"
    and "\<forall>b \<in> set blocks. length b = ENTRY_SIZE" and "chunks_of (length (concat blocks)) < 2 ^ 16"
    and "length ms = chunks_of (length (concat blocks))"
    and "\<And>i. i < length ms \<Longrightarrow> is_segment rid (concat blocks) i (ms ! i)"
    and "mtype end_msg = MSG_FILE_END" and "request_id end_msg = rid"
    and "blocks \<noteq> [] \<Longrightarrow> unat (segment_index end_msg) + 1 = unat (total_segments end_msg)"
proof -
  from assms(1) obtain as where l: "list_at st files as xs" by (auto simp: files_at_def)
  have "(0::nat) \<le> 4096" "(0::nat) = 0 \<and> ENTRY_SIZE \<le> 2 * 4096 \<or> ENTRY_SIZE \<le> 4096"
    by (simp_all add: ENTRY_SIZE_val)
  from serialize_loop_list [where pb = pb and sel = "\<lambda>i. should_transfer_file i new_id cur_id"
      and junk = junk, OF l assms(2,3,5) this]
  obtain buf' blocks where s:
    "serialize_file_entries pb junk buf 4096 files new_id cur_id st = Some (Inr (buf', length (concat blocks)))"
    "length (concat blocks) \<le> length buf'" "take (length (concat blocks)) buf' = concat blocks"
    "map entry_of_bytes blocks = filter (\<lambda>x. should_transfer_file (fid x) new_id cur_id) xs"
    "\<forall>b \<in> set blocks. length b = ENTRY_SIZE"
    unfolding serialize_file_entries_def add_0 take_0 append_Nil by blast
  let ?n = "length (concat blocks)"
  have n: "?n = length blocks * ENTRY_SIZE" by (rule length_concat_blocks [OF s(5)])
  have "length blocks \<le> 19779" using assms(6) s(4) by (metis length_map)
  then have "\<not> 2 ^ 16 - 1 < chunks_of ?n"
    unfolding chunks_of_less n ENTRY_SIZE_val DATA_SIZE_val by simp
  then have c: "chunks_of ?n < 2 ^ 16" by simp
  obtain ms end_msg where f: "file_segments junk_msg rid cur_id buf' ?n = Inr (ms @ [end_msg])"
    "length ms = chunks_of ?n" "\<And>i. i < chunks_of ?n \<Longrightarrow> is_segment rid (take ?n buf') i (ms ! i)"
    "mtype end_msg = MSG_FILE_END" "request_id end_msg = rid"
    "0 < ?n \<Longrightarrow> segment_index end_msg = of_nat (chunks_of ?n - 1)"
    "0 < ?n \<Longrightarrow> total_segments end_msg = of_nat (chunks_of ?n)"
    by (rule file_segments_list [OF s(2) assms(4)]) blast
  have seg: "is_segment rid (concat blocks) i (ms ! i)" if "i < length ms" for i
    using f(3) [of i] that unfolding s(3) f(2) .
  have last: "unat (segment_index end_msg) + 1 = unat (total_segments end_msg)" if "blocks \<noteq> []"
  proof -
    have "0 < ?n" using that n by (simp add: ENTRY_SIZE_val)
    moreover then have "0 < chunks_of ?n" using chunks_of_less [of 0 ?n] by simp
    ultimately show ?thesis using f(6,7) c unat_16 [of "chunks_of ?n - 1"] unat_16 [of "chunks_of ?n"]
      by simp
  qed
  show ?thesis by (rule that [OF s(1) f(1) s(4,5) c f(2) seg f(4,5) last])
qed

text \<open>C10: a join hands the files over without loss or duplication.  A node asked for its
  files serialises within its buffer, sends them and a final FILE_END, and keeps the entries it
  did not send.  If all the segments arrive before FILE_END, in any order and any number of times,
  the joining node ends with exactly the entries sent in front of those it had.  The bound on
  the number of entries is what the 16-bit segment numbers can count.\<close>

theorem join_transfers_files:
  assumes "files_at st files up xs ys" and "\<forall>x \<in> set xs. entry_wf x" and "\<And>nx. length (pb nx) = POINTER_SIZE"
    and "length (mdata junk_msg) = DATA_SIZE" and "length buf = 4096"
    and "length (filter (\<lambda>x. should_transfer_file (fid x) new_id cur_id) xs) \<le> 19779"
    and "files_at st2 files2 up2 xs2 ys2"
  shows "\<exists>buf' n ms end_msg p st'.
     serialize_file_entries pb junk buf 4096 files new_id cur_id st = Some (Inr (buf', n)) \<and>
     file_segments junk_msg rid cur_id buf' n = Inr (ms @ [end_msg]) \<and>
     delete_transferred_files files new_id cur_id st = Some (Inr (p, st')) \<and>
     files_at st' p up (filter (\<lambda>x. \<not> should_transfer_file (fid x) new_id cur_id) xs) ys \<and>
     (\<forall>arrived. set arrived = set ms \<longrightarrow>
        (\<exists>buf2' n2 p2 st2'. receive_files junk2 (arrived @ [end_msg]) buf2 0 = Some (Inr (end_msg, buf2', n2)) \<and>
           finish_join end_msg buf2' n2 files2 st2 = Inr (p2, st2') \<and>
           files_at st2' p2 up2 (rev (filter (\<lambda>x. should_transfer_file (fid x) new_id cur_id) xs) @ xs2) ys2))"
proof -
  obtain buf' blocks ms end_msg where g:
    "serialize_file_entries pb junk buf 4096 files new_id cur_id st = Some (Inr (buf', length (concat blocks)))"
    "file_segments junk_msg rid cur_id buf' (length (concat blocks)) = Inr (ms @ [end_msg])"
    and bl: "map entry_of_bytes blocks = filter (\<lambda>x. should_transfer_file (fid x) new_id cur_id) xs"
    "\<forall>b \<in> set blocks. length b = ENTRY_SIZE" "chunks_of (length (concat blocks)) < 2 ^ 16"
    and ms: "length ms = chunks_of (length (concat blocks))"
    "\<And>i. i < length ms \<Longrightarrow> is_segment rid (concat blocks) i (ms ! i)"
    and e: "mtype end_msg = MSG_FILE_END" "request_id end_msg = rid"
    "blocks \<noteq> [] \<Longrightarrow> unat (segment_index end_msg) + 1 = unat (total_segments end_msg)"
    by (rule get_files_segments [where pb = pb and junk = junk and rid = rid, OF assms(1-6)], rule that)
  obtain p st' where d: "delete_transferred_files files new_id cur_id st = Some (Inr (p, st'))"
    "files_at st' p up (filter (\<lambda>x. \<not> should_transfer_file (fid x) new_id cur_id) xs) ys"
    using delete_transferred_list [OF assms(1)] by blast
  let ?data = "concat blocks"
  have "\<exists>buf2' n2 p2 st2'. receive_files junk2 (arrived @ [end_msg]) buf2 0 = Some (Inr (end_msg, buf2', n2)) \<and>
           finish_join end_msg buf2' n2 files2 st2 = Inr (p2, st2') \<and>
           files_at st2' p2 up2 (rev (filter (\<lambda>x. should_transfer_file (fid x) new_id cur_id) xs) @ xs2) ys2"
    if arr: "set arrived = set ms" for arrived
  proof -
    have segs: "\<forall>m \<in> set arrived. \<exists>i. is_segment rid ?data i m"
      using ms(2) unfolding arr by (metis in_set_conv_nth)
    have r0: "received ?data {} buf2 0" by (simp add: received_def)
    obtain buf2' n2 where r: "receive_files junk2 (arrived @ [end_msg]) buf2 0 = Some (Inr (end_msg, buf2', n2))"
      "received ?data ({} \<union> {i. \<exists>m \<in> set arrived. is_segment rid ?data i m}) buf2' n2"
      using receive_files_all [OF r0 segs bl(3) e(1), of junk2] by blast
    have all: "i \<in> {} \<union> {i. \<exists>m \<in> set arrived. is_segment rid ?data i m}" if "i < chunks_of (length ?data)" for i
      using ms that unfolding arr by (metis (mono_tags, lifting) UnI2 mem_Collect_eq nth_mem)
    note got = received_all [OF r(2) all]
    obtain p2 st2' where des: "deserialize_loop buf2' n2 0 files2 st2 = Inr (p2, st2')"
      "files_at st2' p2 up2 (rev (map entry_of_bytes blocks) @ xs2) ys2"
      using deserialize_loop_list [OF assms(7) bl(2), of n2 buf2' "[]" 0] got by auto
    have "finish_join end_msg buf2' n2 files2 st2 = Inr (p2, st2')"
    proof (cases "blocks = []")
      case True
      then have "n2 = 0" using got(1) by simp
      then show ?thesis using des(1) by (simp add: finish_join_def deserialize_loop.simps)
    next
      case False
      then have "0 < n2" using got(1) length_concat_blocks [OF bl(2)] by (simp add: ENTRY_SIZE_val)
      then show ?thesis using des(1) e(3) [OF False] by (simp add: finish_join_def deserialize_file_entries_def)
    qed
    then show ?thesis using r(1) des(2) bl(1) by auto
  qed
  then show ?thesis using g d by blast
qed

definition demo_pointer :: "nat option \<Rightarrow> byte list" where
  "demo_pointer p = le_bytes 8 (case p of None \<Rightarrow> 0 | Some a \<Rightarrow> 4096 + a)"

definition demo_junk_message :: message where
  "demo_junk_message = (demo_message 0)\<lparr>mdata := replicate DATA_SIZE NUL\<rparr>"

lemma demo_transfer:
  "length (demo_pointer p) = POINTER_SIZE" "length (mdata demo_junk_message) = DATA_SIZE"
  "\<forall>x \<in> set [demo_entry 3, demo_entry 5, demo_entry 9]. entry_wf x"
  "filter (\<lambda>x. should_transfer_file (fid x) (demo_id 4) (demo_id 9)) [demo_entry 3, demo_entry 5, demo_entry 9] =
     [demo_entry 5, demo_entry 9]"
proof -
  have "should_transfer_file (demo_id 5) (demo_id 4) (demo_id 9)"
    "should_transfer_file (demo_id 9) (demo_id 4) (demo_id 9)"
    "\<not> should_transfer_file (demo_id 3) (demo_id 4) (demo_id 9)"
    by code_simp+
  then show "filter (\<lambda>x. should_transfer_file (fid x) (demo_id 4) (demo_id 9)) [demo_entry 3, demo_entry 5, demo_entry 9] =
     [demo_entry 5, demo_entry 9]" by simp
qed (simp_all add: demo_pointer_def POINTER_SIZE_def demo_junk_message_def)

theorem join_transfers_files_witness:
  "\<exists>buf' n ms end_msg p st'.
     serialize_file_entries demo_pointer NUL (replicate 4096 NUL) 4096 (fst demo_files) (demo_id 4) (demo_id 9)
       (snd demo_files) = Some (Inr (buf', n)) \<and>
     file_segments demo_junk_message 77 (demo_id 9) buf' n = Inr (ms @ [end_msg]) \<and>
     delete_transferred_files (fst demo_files) (demo_id 4) (demo_id 9) (snd demo_files) = Some (Inr (p, st')) \<and>
     (\<exists>b fs p2 st2'. receive_files NUL (rev ms @ ms @ [end_msg]) (replicate 4096 NUL) 0 = Some (Inr (end_msg, b, fs)) \<and>
        finish_join end_msg b fs None empty_store = Inr (p2, st2') \<and>
        files_at st2' p2 None [demo_entry 9, demo_entry 5] [])"
proof -
  have len: "length (filter (\<lambda>x. should_transfer_file (fid x) (demo_id 4) (demo_id 9))
      [demo_entry 3, demo_entry 5, demo_entry 9]) \<le> 19779"
    unfolding demo_transfer(4) by simp
  have buf: "length (replicate 4096 NUL) = 4096" by simp
  from join_transfers_files [where pb = demo_pointer and rid = 77 and junk = NUL and ?junk2.0 = NUL
      and ?buf2.0 = "replicate 4096 NUL", OF demo_files_at demo_transfer(3,1,2) buf len files_at_empty]
  obtain buf' n ms end_msg p st' where
    eqs: "serialize_file_entries demo_pointer NUL (replicate 4096 NUL) 4096 (fst demo_files) (demo_id 4) (demo_id 9)
       (snd demo_files) = Some (Inr (buf', n))"
     "file_segments demo_junk_message 77 (demo_id 9) buf' n = Inr (ms @ [end_msg])"
     "delete_transferred_files (fst demo_files) (demo_id 4) (demo_id 9) (snd demo_files) = Some (Inr (p, st'))"
    and all: "\<forall>arrived. set arrived = set ms \<longrightarrow>
        (\<exists>b fs p2 st2'. receive_files NUL (arrived @ [end_msg]) (replicate 4096 NUL) 0 = Some (Inr (end_msg, b, fs)) \<and>
           finish_join end_msg b fs None empty_store = Inr (p2, st2') \<and>
           files_at st2' p2 None (rev [demo_entry 5, demo_entry 9] @ []) [])"
    unfolding demo_transfer(4) by blast
  have "\<exists>b fs p2 st2'. receive_files NUL (rev ms @ ms @ [end_msg]) (replicate 4096 NUL) 0 = Some (Inr (end_msg, b, fs)) \<and>
           finish_join end_msg b fs None empty_store = Inr (p2, st2') \<and>
           files_at st2' p2 None [demo_entry 9, demo_entry 5] []"
    using all [rule_format, of "rev ms @ ms"] by simp
  with eqs show ?thesis by blast
qed

text \<open>C35: a FILE_END that overtakes the last segment loses the files.  The segments travel
  as datagrams and the loop stops at FILE_END: where the last segment is not among those popped
  before it, the joining node stores nothing, and the serving node has already deleted every
  entry it sent.  At most 19779 entries are sent, as many as the 16-bit segment numbers can count.\<close>

theorem early_end_loses_files:
  assumes "files_at st files up xs ys" and "\<forall>x \<in> set xs. entry_wf x" and "\<And>nx. length (pb nx) = POINTER_SIZE"
    and "length (mdata junk_msg) = DATA_SIZE" and "length buf = 4096"
    and "length (filter (\<lambda>x. should_transfer_file (fid x) new_id cur_id) xs) \<le> 19779"
    and "\<exists>x \<in> set xs. should_transfer_file (fid x) new_id cur_id"
  shows "\<exists>buf' n ms end_msg p st'.
     serialize_file_entries pb junk buf 4096 files new_id cur_id st = Some (Inr (buf', n)) \<and>
     file_segments junk_msg rid cur_id buf' n = Inr (ms @ [end_msg]) \<and> ms \<noteq> [] \<and>
     delete_transferred_files files new_id cur_id st = Some (Inr (p, st')) \<and>
     files_at st' p up (filter (\<lambda>x. \<not> should_transfer_file (fid x) new_id cur_id) xs) ys \<and>
     (\<forall>arrived files2 st2. set arrived \<subseteq> set (butlast ms) \<longrightarrow>
        (\<exists>buf2' n2. receive_files junk2 (arrived @ [end_msg]) buf2 0 = Some (Inr (end_msg, buf2', n2)) \<and>
           finish_join end_msg buf2' n2 files2 st2 = Inr (files2, st2)))"
proof -
  obtain buf' blocks ms end_msg where g:
    "serialize_file_entries pb junk buf 4096 files new_id cur_id st = Some (Inr (buf', length (concat blocks)))"
    "file_segments junk_msg rid cur_id buf' (length (concat blocks)) = Inr (ms @ [end_msg])"
    and bl: "map entry_of_bytes blocks = filter (\<lambda>x. should_transfer_file (fid x) new_id cur_id) xs"
    "\<forall>b \<in> set blocks. length b = ENTRY_SIZE" "chunks_of (length (concat blocks)) < 2 ^ 16"
    and ms: "length ms = chunks_of (length (concat blocks))"
    "\<And>i. i < length ms \<Longrightarrow> is_segment rid (concat blocks) i (ms ! i)"
    and e: "mtype end_msg = MSG_FILE_END" "request_id end_msg = rid"
    "blocks \<noteq> [] \<Longrightarrow> unat (segment_index end_msg) + 1 = unat (total_segments end_msg)"
    by (rule get_files_segments [where pb = pb and junk = junk and rid = rid, OF assms(1-6)], rule that)
  obtain p st' where d: "delete_transferred_files files new_id cur_id st = Some (Inr (p, st'))"
    "files_at st' p up (filter (\<lambda>x. \<not> should_transfer_file (fid x) new_id cur_id) xs) ys"
    using delete_transferred_list [OF assms(1)] by blast
  let ?data = "concat blocks"
  have "blocks \<noteq> []" using bl(1) assms(7) by (metis filter_empty_conv list.map(1))
  then have "0 < length ?data" using length_concat_blocks [OF bl(2)] by (simp add: ENTRY_SIZE_val)
  then have ne: "ms \<noteq> []" using ms(1) chunks_of_less [of 0 "length ?data"] by auto
  have "\<exists>buf2' n2. receive_files junk2 (arrived @ [end_msg]) buf2 0 = Some (Inr (end_msg, buf2', n2)) \<and>
           finish_join end_msg buf2' n2 files2 st2 = Inr (files2, st2)"
    if arr: "set arrived \<subseteq> set (butlast ms)" for arrived files2 and st2 :: file_heap
  proof -
    have at: "\<exists>i < length ms - 1. is_segment rid ?data i m" if "m \<in> set arrived" for m
    proof -
      have "m \<in> set (butlast ms)" using that arr by blast
      then obtain i where "i < length (butlast ms)" "m = butlast ms ! i"
        unfolding in_set_conv_nth by blast
      then have "i < length ms - 1" "is_segment rid ?data i m"
        using ms(2) [of i] by (simp_all add: nth_butlast)
      then show ?thesis by blast
    qed
    then have segs: "\<forall>m \<in> set arrived. \<exists>i. is_segment rid ?data i m" by blast
    have r0: "received ?data {} buf2 0" using ne ms(1) by (simp add: received_def)
    obtain buf2' n2 where r: "receive_files junk2 (arrived @ [end_msg]) buf2 0 = Some (Inr (end_msg, buf2', n2))"
      "received ?data ({} \<union> {i. \<exists>m \<in> set arrived. is_segment rid ?data i m}) buf2' n2"
      using receive_files_all [OF r0 segs bl(3) e(1), of junk2] by blast
    have "\<not> is_segment rid ?data (length ms - 1) m" if "m \<in> set arrived" for m
      using at [OF that] is_segment_unique [of rid ?data _ m _, OF _ _ bl(3)] by (metis less_irrefl)
    then have "n2 = 0" using r(2) by (auto simp: received_def ms(1))
    then show ?thesis using r(1) by (simp add: finish_join_def)
  qed
  then show ?thesis using g d ne by blast
qed

theorem early_end_loses_files_witness:
  "\<exists>buf' n ms end_msg b fs.
     serialize_file_entries demo_pointer NUL (replicate 4096 NUL) 4096 (fst demo_files) (demo_id 4) (demo_id 9)
       (snd demo_files) = Some (Inr (buf', n)) \<and>
     file_segments demo_junk_message 77 (demo_id 9) buf' n = Inr (ms @ [end_msg]) \<and>
     receive_files NUL (butlast ms @ [end_msg]) (replicate 4096 NUL) 0 = Some (Inr (end_msg, b, fs)) \<and>
     finish_join end_msg b fs None empty_store = Inr (None, empty_store)"
proof -
  have len: "length (filter (\<lambda>x. should_transfer_file (fid x) (demo_id 4) (demo_id 9))
      [demo_entry 3, demo_entry 5, demo_entry 9]) \<le> 19779"
    unfolding demo_transfer(4) by simp
  have ex: "\<exists>x \<in> set [demo_entry 3, demo_entry 5, demo_entry 9]. should_transfer_file (fid x) (demo_id 4) (demo_id 9)"
    using demo_transfer(4) by (metis filter_False list.distinct(1))
  have buf: "length (replicate 4096 NUL) = 4096" by simp
  from early_end_loses_files [where pb = demo_pointer and rid = 77 and junk = NUL and ?junk2.0 = NUL
      and ?buf2.0 = "replicate 4096 NUL", OF demo_files_at demo_transfer(3,1,2) buf len ex]
  show ?thesis by (metis order_refl)
qed

end
