(* ===== verification/Chord_Node.thy ===== *)
theory Chord_Node
  imports File_Transfer
begin

text \<open>
  The memory of a Chord process and its operations (\<open>src/node.cpp\<close>,
  \<open>src/stabilization.cpp\<close>, \<open>src/file_entry.cpp\<close>, \<open>src/threads.cpp\<close>).  A process has
  \<open>Node\<close> objects and file entries in memory, two queues and a socket.  An operation runs until
  it ends or has to interact with the rest of the world; an \<open>outcome\<close> is that point together
  with what the operation does next, as a function of the answer and of the memory it then finds
  (other threads may have changed it).
\<close>

section \<open>Nodes in memory\<close>

definition M :: nat where "M = 160"

record node =
  nid :: "byte list"
  nip :: string
  nport :: int
  successor :: nat
  predecessor :: "nat option"
  finger :: "nat option list"
  files :: "nat option"
  uploaded_files :: "nat option"
  socket_open :: bool

text \<open>\<open>self\<close> is the node \<open>main\<close> creates, \<open>socket_alive\<close> whether its descriptor is
  open, \<open>outdir\<close> the global of \<open>file_entry.cpp\<close>.\<close>

record proc =
  node_mem :: "nat \<rightharpoonup> node"
  node_brk :: nat
  file_mem :: file_heap
  self :: nat
  socket_alive :: bool
  reply_queue :: mqueue
  download_queue :: mqueue
  outdir :: string

text \<open>What the code does not determine: the hash function, the contents of memory that is not
  initialised, the bytes of a pointer, the file system.\<close>

record env =
  sha1 :: "string \<Rightarrow> byte list"
  junk_msg :: message
  junk_entry :: file_entry
  junk_byte :: byte
  pointer_bytes :: "nat option \<Rightarrow> byte list"
  file_exists :: "string \<Rightarrow> bool"
  is_directory :: "string \<Rightarrow> bool"

section \<open>Running until the next interaction\<close>

datatype queue_name = ReplyQueue | DownloadQueue

datatype 'a outcome =
    Done 'a proc
  | Crashed fault
  | Diverges
  | Exited
  | Sending string int message proc "int \<Rightarrow> proc \<Rightarrow> 'a outcome"
  | Waiting queue_name "32 word" proc "message \<Rightarrow> proc \<Rightarrow> 'a outcome"
  | NeedId proc "32 word \<Rightarrow> proc \<Rightarrow> 'a outcome"
  | Receiving "32 word" "byte list" nat proc "message \<Rightarrow> byte list \<Rightarrow> nat \<Rightarrow> proc \<Rightarrow> 'a outcome"

text \<open>\<open>Receiving\<close> is the loop of \<open>join_ring\<close> over the download queue, with its buffer
  and \<open>file_data_size\<close>; each iteration waits for a message.\<close>

primrec bind :: "'a outcome \<Rightarrow> ('a \<Rightarrow> proc \<Rightarrow> 'b outcome) \<Rightarrow> 'b outcome" where
  "bind (Done x s) f = f x s"
| "bind (Crashed e) f = Crashed e"
| "bind Diverges f = Diverges"
| "bind Exited f = Exited"
| "bind (Sending ip port m s k) f = Sending ip port m s (\<lambda>r s. bind (k r s) f)"
| "bind (Waiting q rid s k) f = Waiting q rid s (\<lambda>m s. bind (k m s) f)"
| "bind (NeedId s k) f = NeedId s (\<lambda>i s. bind (k i s) f)"
| "bind (Receiving rid b n s k) f = Receiving rid b n s (\<lambda>m b n s. bind (k m b n s) f)"

definition with_node :: "nat \<Rightarrow> proc \<Rightarrow> (node \<Rightarrow> 'a outcome) \<Rightarrow> 'a outcome" where
  "with_node a s f = (case node_mem s a of None \<Rightarrow> Crashed UseAfterFree | Some nd \<Rightarrow> f nd)"

definition put_node :: "nat \<Rightarrow> node \<Rightarrow> proc \<Rightarrow> proc" where
  "put_node a nd s = s\<lparr>node_mem := (node_mem s)(a \<mapsto> nd)\<rparr>"

definition with_pointer :: "nat option \<Rightarrow> proc \<Rightarrow> (nat \<Rightarrow> node \<Rightarrow> 'a outcome) \<Rightarrow> 'a outcome" where
  "with_pointer p s f = (case p of None \<Rightarrow> Crashed NullPointer | Some a \<Rightarrow> with_node a s (f a))"

definition delete_node :: "nat option \<Rightarrow> proc \<Rightarrow> (proc \<Rightarrow> 'a outcome) \<Rightarrow> 'a outcome" where
  "delete_node p s f =
     (case p of
        None \<Rightarrow> f s
      | Some a \<Rightarrow> with_node a s (\<lambda>nd. f (s\<lparr>node_mem := (node_mem s)(a := None)\<rparr>)))"

section \<open>Creating and cleaning up nodes\<close>

definition node_id :: "env \<Rightarrow> string \<Rightarrow> int \<Rightarrow> byte list" where
  "node_id E ip port = sha1 E (take 255 (ip @ '':'' @ to_string port))"

definition create_node :: "env \<Rightarrow> string \<Rightarrow> int \<Rightarrow> proc \<Rightarrow> nat \<times> proc" where
  "create_node E ip port s =
     (let a = node_brk s;
          nd = \<lparr>nid = node_id E ip port, nip = take 15 ip, nport = port, successor = a,
                predecessor = None, finger = replicate M (Some a), files = None,
                uploaded_files = None, socket_open = False\<rparr>
      in (a, put_node a nd s\<lparr>node_brk := Suc a\<rparr>))"

text \<open>\<open>create_node\<close> followed by \<open>memcpy\<close> of another identifier.\<close>

definition create_node_with_id :: "env \<Rightarrow> string \<Rightarrow> int \<Rightarrow> byte list \<Rightarrow> proc \<Rightarrow> nat \<times> proc" where
  "create_node_with_id E ip port i s =
     (let (a, s1) = create_node E ip port s
      in (a, s1\<lparr>node_mem := (node_mem s1)(a := map_option (\<lambda>nd. nd\<lparr>nid := i\<rparr>) (node_mem s1 a))\<rparr>))"

text \<open>\<open>cleanup_node\<close>: the lists are freed and the descriptor closed; the pointers to the lists
  and the flag \<open>socket_open\<close> stay as they are.\<close>

definition cleanup_node :: "nat \<Rightarrow> proc \<Rightarrow> (proc \<Rightarrow> 'a outcome) \<Rightarrow> 'a outcome" where
  "cleanup_node n s f =
     with_node n s (\<lambda>nd.
       case free_files (files nd) (file_mem s) of
         None \<Rightarrow> Diverges
       | Some (Inl e) \<Rightarrow> Crashed e
       | Some (Inr fm1) \<Rightarrow>
           (case free_files (uploaded_files nd) fm1 of
              None \<Rightarrow> Diverges
            | Some (Inl e) \<Rightarrow> Crashed e
            | Some (Inr fm2) \<Rightarrow>
                f (s\<lparr>file_mem := fm2,
                     socket_alive := (if socket_open nd then False else socket_alive s)\<rparr>)))"

definition cleanup_pointer :: "nat option \<Rightarrow> proc \<Rightarrow> (proc \<Rightarrow> 'a outcome) \<Rightarrow> 'a outcome" where
  "cleanup_pointer p s f = (case p of None \<Rightarrow> f s | Some a \<Rightarrow> cleanup_node a s f)"

section \<open>Messages\<close>

text \<open>A message on the stack with the fields every sender sets; \<open>strcpy(msg.data, "")\<close> writes
  one byte.  The other fields keep what the stack held.\<close>

definition new_message :: "env \<Rightarrow> string \<Rightarrow> byte list \<Rightarrow> string \<Rightarrow> int \<Rightarrow> 32 word \<Rightarrow> message" where
  "new_message E ty i ip port rid =
     (junk_msg E)\<lparr>mtype := ty, mid := i, mip := ip, mport := port, request_id := rid,
                  mdata := NUL # drop 1 (mdata (junk_msg E))\<rparr>"

lemma new_message_simps [simp]:
  "mtype (new_message E ty i ip port rid) = ty" "mid (new_message E ty i ip port rid) = i"
  "mip (new_message E ty i ip port rid) = ip" "mport (new_message E ty i ip port rid) = port"
  "request_id (new_message E ty i ip port rid) = rid"
  by (simp_all add: new_message_def)

section \<open>Finding the successor of an identifier\<close>

text \<open>The loop of \<open>closest_preceding_node\<close>, from finger \<open>i - 1\<close> down to 0.\<close>

fun closest_loop :: "proc \<Rightarrow> node \<Rightarrow> nat \<Rightarrow> byte list \<Rightarrow> nat \<Rightarrow> fault + nat" where
  "closest_loop s nd n i 0 = Inr n"
| "closest_loop s nd n i (Suc k) =
     (case finger nd ! k of
        None \<Rightarrow> closest_loop s nd n i k
      | Some f \<Rightarrow>
          (case node_mem s f of
             None \<Rightarrow> Inl UseAfterFree
           | Some fd \<Rightarrow>
               if is_in_interval (nid fd) (nid nd) i then Inr f else closest_loop s nd n i k))"

definition closest_preceding_node :: "nat \<Rightarrow> byte list \<Rightarrow> proc \<Rightarrow> fault + nat" where
  "closest_preceding_node n i s =
     (case node_mem s n of
        None \<Rightarrow> Inl UseAfterFree
      | Some nd \<Rightarrow> closest_loop s nd n i M)"

text \<open>The copy of the successor that the searches return.\<close>

definition copy_successor :: "env \<Rightarrow> nat \<Rightarrow> proc \<Rightarrow> nat outcome" where
  "copy_successor E n s =
     with_node n s (\<lambda>nd. with_node (successor nd) s (\<lambda>sd.
       let (a, s1) = create_node_with_id E (nip sd) (nport sd) (nid sd) s in Done a s1))"

definition find_successor_remote :: "env \<Rightarrow> nat \<Rightarrow> nat \<Rightarrow> byte list \<Rightarrow> proc \<Rightarrow> nat outcome" where
  "find_successor_remote E n n0 i s =
     (if n0 = n then copy_successor E n s
      else NeedId s (\<lambda>rid s.
        with_node n s (\<lambda>nd. with_node n0 s (\<lambda>nd0.
          Sending (nip nd0) (nport nd0) (new_message E MSG_FIND_SUCCESSOR i (nip nd) (nport nd) rid) s
            (\<lambda>_ s. Waiting ReplyQueue rid s (\<lambda>response s.
              let (a, s1) = create_node_with_id E (mip response) (mport response) (mid response) s
              in Done a s1))))))"

definition find_successor :: "env \<Rightarrow> nat \<Rightarrow> byte list \<Rightarrow> proc \<Rightarrow> nat outcome" where
  "find_successor E n i s =
     with_node n s (\<lambda>nd. with_node (successor nd) s (\<lambda>sd.
       if is_in_interval i (nid nd) (nid sd) \<or> memcmp i (nid sd) HASH_SIZE = 0
       then copy_successor E n s
       else (case closest_preceding_node n i s of
               Inl e \<Rightarrow> Crashed e
             | Inr current \<Rightarrow> find_successor_remote E n current i s)))"

section \<open>Stabilisation\<close>

definition create_ring :: "nat \<Rightarrow> proc \<Rightarrow> unit outcome" where
  "create_ring n s = with_node n s (\<lambda>nd. Done () (put_node n (nd\<lparr>predecessor := None, successor := n\<rparr>) s))"

text \<open>\<open>notify\<close> sends NOTIFY to \<open>n\<close> and then treats the local object \<open>n\<close> as the remote
  node would.\<close>

definition notify :: "env \<Rightarrow> nat \<Rightarrow> nat \<Rightarrow> proc \<Rightarrow> unit outcome" where
  "notify E n n' s =
     NeedId s (\<lambda>rid s.
       with_node n s (\<lambda>nd. with_node n' s (\<lambda>nd'.
       Sending (nip nd) (nport nd) (new_message E MSG_NOTIFY (nid nd') (nip nd') (nport nd') rid) s (\<lambda>_ s.
         with_node n s (\<lambda>nd. with_node n' s (\<lambda>nd'.
           case predecessor nd of
             None \<Rightarrow>
               (let (a, s1) = create_node_with_id E (nip nd') (nport nd') (nid nd') s
                in Done () (put_node n (nd\<lparr>predecessor := Some a\<rparr>) s1))
           | Some p \<Rightarrow> with_node p s (\<lambda>pd.
               if is_in_interval (nid nd') (nid pd) (nid nd) then
                 cleanup_node p s (\<lambda>s.
                   let (a, s1) = create_node_with_id E (nip nd') (nport nd') (nid nd') s
                   in Done () (put_node n (nd\<lparr>predecessor := Some a\<rparr>) s1))
               else Done () s)))))))"

definition stabilize :: "env \<Rightarrow> nat \<Rightarrow> proc \<Rightarrow> unit outcome" where
  "stabilize E n s =
     NeedId s (\<lambda>rid s.
       with_node n s (\<lambda>nd. with_node (successor nd) s (\<lambda>sd.
         Sending (nip sd) (nport sd) (new_message E MSG_STABILIZE (nid nd) (nip nd) (nport nd) rid) s (\<lambda>_ s.
           Waiting ReplyQueue rid s (\<lambda>response s.
             let (x, s1) = create_node E (mip response) (mport response) s in
             with_node n s1 (\<lambda>nd. with_node (successor nd) s1 (\<lambda>sd. with_node x s1 (\<lambda>xd.
               if is_in_interval (nid xd) (nid nd) (nid sd) then
                 cleanup_node (successor nd) s1 (\<lambda>s2.
                   let s3 = put_node n (nd\<lparr>successor := x\<rparr>) s2 in notify E x n s3)
               else cleanup_node x s1 (\<lambda>s2. notify E (successor nd) n s2)))))))))"

definition fix_fingers :: "env \<Rightarrow> nat \<Rightarrow> nat \<Rightarrow> proc \<Rightarrow> nat outcome" where
  "fix_fingers E n next s =
     (let next' = (next + 1) mod M in
      with_node n s (\<lambda>nd.
        with_pointer (finger nd ! next') s (\<lambda>_ fd.
            bind (find_successor E n (nid fd) s) (\<lambda>new s.
              with_node n s (\<lambda>nd.
                let install = (\<lambda>s. Done next' (put_node n (nd\<lparr>finger := (finger nd)[next' := Some new]\<rparr>) s)) in
                if finger nd ! next' \<noteq> Some n then cleanup_pointer (finger nd ! next') s install
                else install s)))))"

definition check_predecessor :: "env \<Rightarrow> nat \<Rightarrow> proc \<Rightarrow> unit outcome" where
  "check_predecessor E n s =
     with_node n s (\<lambda>nd.
       case predecessor nd of
         None \<Rightarrow> Done () s
       | Some _ \<Rightarrow> NeedId s (\<lambda>rid s. with_node n s (\<lambda>nd.
           with_pointer (predecessor nd) s (\<lambda>p pd.
           Sending (nip pd) (nport pd) (new_message E MSG_HEARTBEAT (nid nd) (nip nd) (nport nd) rid) s (\<lambda>r s.
             if r < 0 then
               with_node n s (\<lambda>nd. cleanup_pointer (predecessor nd) s (\<lambda>s.
                 Done () (put_node n (nd\<lparr>predecessor := None\<rparr>) s)))
             else Done () s)))))"

text \<open>One round of \<open>node_thread\<close>, which runs them one after the other for ever.\<close>

definition node_round :: "env \<Rightarrow> nat \<Rightarrow> nat \<Rightarrow> proc \<Rightarrow> nat outcome" where
  "node_round E n next s =
     bind (stabilize E n s) (\<lambda>_ s.
     bind (fix_fingers E n next s) (\<lambda>next s.
     bind (check_predecessor E n s) (\<lambda>_ s. Done next s)))"

end
