(* ===== verification/Chord_Handlers.thy ===== *)
theory Chord_Handlers
  imports Chord_Node
begin

text \<open>
  The operations of a Chord process that use the others: the listener's \<open>handle_requests\<close>
  (\<open>src/node.cpp\<close>), \<open>join_ring\<close> (\<open>src/stabilization.cpp\<close>), \<open>store_file\<close> and
  \<open>find_file\<close> (\<open>src/file_entry.cpp\<close>), the user's commands (\<open>src/threads.cpp\<close>) and
  \<open>main\<close>.
\<close>

section \<open>The listener\<close>

fun send_all :: "string \<Rightarrow> int \<Rightarrow> message list \<Rightarrow> proc \<Rightarrow> (proc \<Rightarrow> 'a outcome) \<Rightarrow> 'a outcome" where
  "send_all ip port [] s f = f s"
| "send_all ip port (m # ms) s f = Sending ip port m s (\<lambda>_ s. send_all ip port ms s f)"

definition reply_with_successor :: "env \<Rightarrow> message \<Rightarrow> nat \<Rightarrow> proc \<Rightarrow> (proc \<Rightarrow> unit outcome) \<Rightarrow> unit outcome" where
  "reply_with_successor E msg succ s f =
     with_node succ s (\<lambda>sd.
       Sending (mip msg) (mport msg)
         (new_message E MSG_REPLY (nid sd) (nip sd) (nport sd) (request_id msg)) s (\<lambda>_ s. f s))"

definition handle_join :: "env \<Rightarrow> nat \<Rightarrow> message \<Rightarrow> proc \<Rightarrow> unit outcome" where
  "handle_join E n msg s =
     (let (new_node, s1) = create_node E (mip msg) (mport msg) s in
      with_node new_node s1 (\<lambda>newd.
        bind (find_successor E n (nid newd) s1) (\<lambda>succ s.
          reply_with_successor E msg succ s (\<lambda>s.
            delete_node (Some new_node) s (\<lambda>s. delete_node (Some succ) s (\<lambda>s. Done () s))))))"

definition handle_find_successor :: "env \<Rightarrow> nat \<Rightarrow> message \<Rightarrow> proc \<Rightarrow> unit outcome" where
  "handle_find_successor E n msg s =
     bind (find_successor E n (mid msg) s) (\<lambda>succ s.
       reply_with_successor E msg succ s (\<lambda>s. delete_node (Some succ) s (\<lambda>s. Done () s)))"

definition handle_get_files :: "env \<Rightarrow> nat \<Rightarrow> message \<Rightarrow> proc \<Rightarrow> unit outcome" where
  "handle_get_files E n msg s =
     with_node n s (\<lambda>nd.
       case serialize_file_entries (pointer_bytes E) (junk_byte E) (replicate 4096 (junk_byte E)) 4096
              (files nd) (mid msg) (nid nd) (file_mem s) of
         None \<Rightarrow> Diverges
       | Some (Inl e) \<Rightarrow> Crashed e
       | Some (Inr (buf, data_size)) \<Rightarrow>
           (case file_segments (junk_msg E) (request_id msg) (nid nd) buf data_size of
              Inl e \<Rightarrow> Crashed e
            | Inr ms \<Rightarrow>
                send_all (mip msg) (mport msg) ms s (\<lambda>s. with_node n s (\<lambda>nd.
                  case delete_transferred_files (files nd) (mid msg) (nid nd) (file_mem s) of
                    None \<Rightarrow> Diverges
                  | Some (Inl e) \<Rightarrow> Crashed e
                  | Some (Inr (p, fm)) \<Rightarrow> Done () (put_node n (nd\<lparr>files := p\<rparr>) (s\<lparr>file_mem := fm\<rparr>))))))"

definition handle_stabilize :: "env \<Rightarrow> nat \<Rightarrow> message \<Rightarrow> proc \<Rightarrow> unit outcome" where
  "handle_stabilize E n msg s =
     with_node n s (\<lambda>nd.
       case predecessor nd of
         None \<Rightarrow> Done () s
       | Some p \<Rightarrow> reply_with_successor E msg p s (\<lambda>s. Done () s))"

definition handle_notify :: "env \<Rightarrow> nat \<Rightarrow> message \<Rightarrow> proc \<Rightarrow> unit outcome" where
  "handle_notify E n msg s =
     (let (new_pred, s1) = create_node_with_id E (mip msg) (mport msg) (mid msg) s in
      with_node n s1 (\<lambda>nd.
        let replace = delete_node (predecessor nd) s1 (\<lambda>s2.
              Done () (put_node n (nd\<lparr>predecessor := Some new_pred\<rparr>) s2)) in
        case predecessor nd of
          None \<Rightarrow> replace
        | Some p \<Rightarrow> with_node p s1 (\<lambda>pd. with_node new_pred s1 (\<lambda>newd.
            if is_in_interval (nid newd) (nid pd) (nid nd) then replace
            else delete_node (Some new_pred) s1 (\<lambda>s. Done () s)))))"

definition push_reply :: "message \<Rightarrow> proc \<Rightarrow> unit outcome" where
  "push_reply msg s =
     (case push_message msg (reply_queue s) of
        Inl e \<Rightarrow> Crashed e | Inr q \<Rightarrow> Done () (s\<lparr>reply_queue := q\<rparr>))"

definition push_download :: "message \<Rightarrow> proc \<Rightarrow> unit outcome" where
  "push_download msg s =
     (case push_message msg (download_queue s) of
        Inl e \<Rightarrow> Crashed e | Inr q \<Rightarrow> Done () (s\<lparr>download_queue := q\<rparr>))"

definition handle_requests :: "env \<Rightarrow> nat \<Rightarrow> message \<Rightarrow> proc \<Rightarrow> unit outcome" where
  "handle_requests E n msg s =
     (if mtype msg = MSG_FILE_DATA \<or> mtype msg = MSG_FILE_END then push_download msg s
      else if mtype msg = MSG_REPLY then push_reply msg s
      else if mtype msg = MSG_JOIN then handle_join E n msg s
      else if mtype msg = MSG_FIND_SUCCESSOR then handle_find_successor E n msg s
      else if mtype msg = MSG_GET_FILES then handle_get_files E n msg s
      else if mtype msg = MSG_STABILIZE then handle_stabilize E n msg s
      else if mtype msg = MSG_NOTIFY then handle_notify E n msg s
      else Done () s)"

section \<open>Joining a ring\<close>

definition join_ring :: "env \<Rightarrow> nat \<Rightarrow> string \<Rightarrow> int \<Rightarrow> proc \<Rightarrow> unit outcome" where
  "join_ring E n existing_ip existing_port s =
     NeedId s (\<lambda>rid s. with_node n s (\<lambda>nd.
     Sending existing_ip existing_port (new_message E MSG_HEARTBEAT (nid nd) (nip nd) (nport nd) rid) s (\<lambda>r s.
     if r < 0 then Exited
     else NeedId s (\<lambda>rid s. with_node n s (\<lambda>nd.
     Sending existing_ip existing_port (new_message E MSG_JOIN (nid nd) (nip nd) (nport nd) rid) s (\<lambda>_ s.
     Waiting ReplyQueue rid s (\<lambda>response s.
       let (succ, s1) = create_node E (mip response) (mport response) s in
       with_node n s1 (\<lambda>nd.
       let s2 = put_node n (nd\<lparr>predecessor := None, successor := succ\<rparr>) s1 in
       NeedId s2 (\<lambda>rid2 s. with_node n s (\<lambda>nd. with_node (successor nd) s (\<lambda>sd.
       Sending (nip sd) (nport sd) (new_message E MSG_GET_FILES (nid nd) (nip nd) (nport nd) rid2) s (\<lambda>r s.
       if r < 0 then Done () s
       else Receiving rid2 (replicate 4096 (junk_byte E)) 0 s (\<lambda>response buf file_data_size s.
         with_node n s (\<lambda>nd.
           case finish_join response buf file_data_size (files nd) (file_mem s) of
             Inl e \<Rightarrow> Crashed e
           | Inr (p, fm) \<Rightarrow> Done () (put_node n (nd\<lparr>files := p\<rparr>) (s\<lparr>file_mem := fm\<rparr>))))))))))))))))"

section \<open>Storing and finding files\<close>

definition store_file :: "env \<Rightarrow> nat \<Rightarrow> string \<Rightarrow> proc \<Rightarrow> int outcome" where
  "store_file E n filepath s =
     (if \<not> file_exists E filepath then Done (-1) s
      else let filename = file_name_of filepath; file_id = sha1 E filename in
      bind (find_successor E n file_id s) (\<lambda>resp s.
      with_node n s (\<lambda>nd. with_node resp s (\<lambda>rd.
        if memcmp (nid nd) (nid rd) HASH_SIZE = 0 then
          delete_node (Some resp) s (\<lambda>s.
            case internal_store_file (junk_entry E) filename filepath file_id (nip nd) (nport nd)
                   (files nd) (file_mem s) of
              Inl e \<Rightarrow> Crashed e
            | Inr (p, fm) \<Rightarrow> Done 0 (put_node n (nd\<lparr>files := p\<rparr>) (s\<lparr>file_mem := fm\<rparr>)))
        else NeedId s (\<lambda>rid s. with_node n s (\<lambda>nd. with_node resp s (\<lambda>rd.
          case strncpy_term (mdata (junk_msg E)) filepath DATA_SIZE of
            Inl e \<Rightarrow> Crashed e
          | Inr d \<Rightarrow>
              Sending (nip rd) (nport rd)
                ((new_message E MSG_STORE_FILE file_id (nip nd) (nport nd) rid)\<lparr>mdata := d\<rparr>) s
                (\<lambda>r s. delete_node (Some resp) s (\<lambda>s. Done r s))))))))) "

definition find_file :: "env \<Rightarrow> nat \<Rightarrow> string \<Rightarrow> proc \<Rightarrow> file_entry option outcome" where
  "find_file E n filename s =
     (let file_id = sha1 E filename in
      bind (find_successor E n file_id s) (\<lambda>resp s.
      with_node n s (\<lambda>nd. with_node resp s (\<lambda>rd.
        if memcmp (nid nd) (nid rd) HASH_SIZE = 0 then
          delete_node (Some resp) s (\<lambda>s.
            case lookup_file file_id (files nd) (file_mem s) of
              None \<Rightarrow> Diverges
            | Some (Inl e) \<Rightarrow> Crashed e
            | Some (Inr None) \<Rightarrow> Done None s
            | Some (Inr (Some a)) \<Rightarrow>
                (case read_cell (file_mem s) a of
                   Inl e \<Rightarrow> Crashed e | Inr c \<Rightarrow> Done (Some (content c)) s))
        else NeedId s (\<lambda>rid s. with_node n s (\<lambda>nd. with_node resp s (\<lambda>rd.
          case strncpy_term (mdata (junk_msg E)) filename DATA_SIZE of
            Inl e \<Rightarrow> Crashed e
          | Inr d \<Rightarrow>
              Sending (nip rd) (nport rd)
                ((new_message E MSG_FIND_FILE file_id (nip nd) (nport nd) rid)\<lparr>mdata := d\<rparr>) s
                (\<lambda>_ s. delete_node (Some resp) s (\<lambda>s.
                  Waiting ReplyQueue rid s (\<lambda>response s.
                    if c_str (mdata response) = ''File not found'' then Done None s
                    else case fill_entry (junk_entry E) (mid response) filename (c_str (mdata response))
                                (mip response) (mport response) of
                           Inl e \<Rightarrow> Crashed e
                         | Inr e \<Rightarrow> Done (Some e) s))))))))))"

text \<open>\<open>download_file_dht\<close> and \<open>delete_file\<close> are placeholders in the source: they return 0.\<close>

definition download_file_dht :: "file_entry \<Rightarrow> int" where "download_file_dht e = 0"
definition delete_file :: "string \<Rightarrow> int" where "delete_file filename = 0"

definition set_outdir :: "env \<Rightarrow> string \<Rightarrow> proc \<Rightarrow> int \<times> proc" where
  "set_outdir E new_outdir s =
     (if MAX_FILEPATH \<le> length new_outdir \<or> \<not> is_directory E new_outdir then (-1, s)
      else (0, s\<lparr>outdir := new_outdir\<rparr>))"

section \<open>User commands\<close>

text \<open>\<open>fgets\<close> into 4096 bytes, and \<open>sscanf\<close> of a word after a literal prefix.\<close>

definition command_of_line :: "string \<Rightarrow> string" where
  "command_of_line typed = takeWhile (\<lambda>c. c \<noteq> CHR 0x0A) (c_str (take 4095 typed))"

definition has_prefix :: "string \<Rightarrow> string \<Rightarrow> bool" where
  "has_prefix p s \<longleftrightarrow> take (length p) s = p"

definition scan_word :: "nat \<Rightarrow> string \<Rightarrow> string \<Rightarrow> string" where
  "scan_word n prefix cmd =
     (if has_prefix prefix cmd
      then take n (takeWhile (\<lambda>c. \<not> isspace c) (dropWhile isspace (drop (length prefix) cmd)))
      else [])"

definition toupper_is_Y :: "char \<Rightarrow> bool" where
  "toupper_is_Y c \<longleftrightarrow> c = CHR ''y'' \<or> c = CHR ''Y''"

text \<open>The loop of the command \<open>uploaded\<close>.  The names in the list are those \<open>confirm_file_stored\<close> has
  terminated; a name without its final NUL, which the code would print beyond the array, ends here
  with the array.\<close>

partial_function (option) list_names ::
    "nat option \<Rightarrow> file_heap \<Rightarrow> string list \<Rightarrow> (fault + string list) option" where
  "list_names cur st out =
     (case cur of
        None \<Rightarrow> Some (Inr out)
      | Some a \<Rightarrow>
          (case read_cell st a of
             Inl e \<Rightarrow> Some (Inl e)
           | Inr c \<Rightarrow> list_names (link c) st (out @ [''  '' @ c_str (ffilename (content c))])))"

definition help_text :: "string list" where
  "help_text =
     [''Available commands:'',
      ''  outdir <directory> - set the output directory for downloaded files'',
      ''  store <filepath> - store a file in the network'',
      ''  find <filename> - find a file in the network'',
      ''  uploaded - list all files uploaded by the user'',
      ''  delete <filename> - delete a file uploaded by the user'',
      ''  help/? - show this help message'',
      ''  exit - exit the program'']"

text \<open>One turn of the loop of \<open>handle_user_commands\<close>: what it prints, and whether the loop
  goes on.  \<open>answer\<close> is the character \<open>getchar\<close> reads where the turn asks a question.\<close>

definition user_store :: "env \<Rightarrow> nat \<Rightarrow> string \<Rightarrow> proc \<Rightarrow> (string list \<times> bool) outcome" where
  "user_store E n cmd s =
     (let filepath = scan_word 511 ''store'' cmd in
      if filepath = [] then Done ([''Invalid filepath''], True) s
      else bind (store_file E n filepath s) (\<lambda>r s.
        if r < 0 then Done ([''Failed to store file''], True) s
        else with_node n s (\<lambda>nd.
          case confirm_file_stored (sha1 E) (junk_entry E) filepath (nip nd) (nport nd)
                 (uploaded_files nd) (file_mem s) of
            Inl e \<Rightarrow> Crashed e
          | Inr (p, fm) \<Rightarrow>
              Done ([''File stored successfully''], True)
                (put_node n (nd\<lparr>uploaded_files := p\<rparr>) (s\<lparr>file_mem := fm\<rparr>)))))"

definition quoted :: "string \<Rightarrow> string" where
  "quoted s = [CHR 0x27] @ s @ [CHR 0x27]"

definition user_find :: "env \<Rightarrow> nat \<Rightarrow> string \<Rightarrow> char \<Rightarrow> proc \<Rightarrow> (string list \<times> bool) outcome" where
  "user_find E n cmd answer s =
     (let filename = scan_word 255 ''find'' cmd in
      if filename = [] then Done ([''Invalid filename''], True) s
      else bind (find_file E n filename s) (\<lambda>file s.
        case file of
          None \<Rightarrow> Done ([''File '' @ quoted filename @ '' not found''], True) s
        | Some e \<Rightarrow>
            Done ([''File '' @ quoted filename @ '' found at '' @ c_str (fowner_ip e) @ '':'' @
                     to_string (fowner_port e),
                   ''Do you want to download this file? [y/n] ''] @
                  (if toupper_is_Y answer then
                     [''Starting download...'',
                      if download_file_dht e < 0 then ''Failed to download file''
                      else ''File downloaded successfully'']
                   else [''Download canceled.'']), True) s))"

definition user_command :: "env \<Rightarrow> nat \<Rightarrow> string \<Rightarrow> char \<Rightarrow> proc \<Rightarrow> (string list \<times> bool) outcome" where
  "user_command E n typed answer s =
     (let cmd = command_of_line typed in
      if has_prefix ''outdir'' cmd then
        (let new_outdir = scan_word 511 ''outdir'' cmd in
         if new_outdir = [] \<or> last new_outdir \<noteq> CHR ''/'' then Done ([''Invalid directory''], True) s
         else case set_outdir E new_outdir s of
           (r, s') \<Rightarrow> Done ([if r < 0 then ''Failed to set output directory''
                           else ''Output directory set to '' @ new_outdir], True) s')
      else if has_prefix ''store'' cmd then user_store E n cmd s
      else if has_prefix ''find'' cmd then user_find E n cmd answer s
      else if cmd = ''uploaded'' then
        with_node n s (\<lambda>nd.
          if uploaded_files nd = None then Done ([''No files uploaded yet.''], True) s
          else case list_names (uploaded_files nd) (file_mem s) [''Files uploaded:''] of
            None \<Rightarrow> Diverges
          | Some (Inl e) \<Rightarrow> Crashed e
          | Some (Inr out) \<Rightarrow> Done (out, True) s)
      else if has_prefix ''delete'' cmd then
        (let filename = scan_word 255 ''delete'' cmd in
         if filename = [] then Done ([''Invalid filename''], True) s
         else Done ([if delete_file filename < 0 then ''Failed to delete file''
                     else ''File deleted successfully''], True) s)
      else if cmd = ''help'' \<or> cmd = ''?'' then Done (help_text, True) s
      else if cmd = ''exit'' then
        Done ([''Do you really want to quit? [y/n] ''], \<not> toupper_is_Y answer) s
      else Done ([''Invalid command.''], True) s)"

section \<open>Starting a process\<close>

text \<open>\<open>main\<close> up to the two threads: the queues, the node and its socket, which \<open>node_bind\<close>
  either opens or ends the process.\<close>

definition empty_proc :: proc where
  "empty_proc = \<lparr>node_mem = Map.empty, node_brk = 0, file_mem = empty_store, self = 0,
     socket_alive = False, reply_queue = init_queue, download_queue = init_queue, outdir = ''./''\<rparr>"

definition start_proc :: "env \<Rightarrow> string \<Rightarrow> int \<Rightarrow> proc" where
  "start_proc E ip port =
     (let (n, s) = create_node E ip port empty_proc
      in s\<lparr>self := n, socket_alive := True,
           node_mem := (node_mem s)(n := map_option (\<lambda>nd. nd\<lparr>socket_open := True\<rparr>) (node_mem s n))\<rparr>)"

definition main_ring :: "env \<Rightarrow> (string \<times> int) option \<Rightarrow> proc \<Rightarrow> unit outcome" where
  "main_ring E existing s =
     (case existing of
        Some (existing_ip, existing_port) \<Rightarrow> join_ring E (self s) existing_ip existing_port s
      | None \<Rightarrow> create_ring (self s) s)"

end
