(* ===== verification/Chord_Behaviour.thy ===== *)
theory Chord_Behaviour
  imports Chord_Handlers
begin

text \<open>
  What the operations of a Chord process do when they run without interference, as
  properties: searches, NOTIFY, stabilisation, storing and finding files.  \<open>exec\<close> runs an
  operation on a list of answers and collects the messages it sends.
\<close>

section \<open>Running an operation on given answers\<close>

datatype answer = Result int | Reply message | Fresh "32 word"

fun exec :: "answer list \<Rightarrow> 'a outcome \<Rightarrow> (string \<times> int \<times> message) list \<times> 'a outcome" where
  "exec (Result r # as) (Sending ip port m s k) =
     (case exec as (k r s) of (sent, out) \<Rightarrow> ((ip, port, m) # sent, out))"
| "exec (Reply m # as) (Waiting q rid s k) =
     (if request_id m = rid then exec as (k m s) else ([], Waiting q rid s k))"
| "exec (Fresh r # as) (NeedId s k) = exec as (k r s)"
| "exec as out = ([], out)"

lemma exec_Nil [simp]: "exec [] out = ([], out)"
  by (cases out) simp_all

lemma exec_Done [simp]: "exec as (Done x s) = ([], Done x s)"
proof (cases as)
  case (Cons a bs)
  then show ?thesis by (cases a) simp_all
qed simp

section \<open>Memory\<close>

lemma with_node_Some [simp]: "node_mem s a = Some nd \<Longrightarrow> with_node a s f = f nd"
  by (simp add: with_node_def)

lemma put_node_simps [simp]:
  "node_mem (put_node a nd s) = (node_mem s)(a \<mapsto> nd)" "node_brk (put_node a nd s) = node_brk s"
  "file_mem (put_node a nd s) = file_mem s" "self (put_node a nd s) = self s"
  "socket_alive (put_node a nd s) = socket_alive s" "reply_queue (put_node a nd s) = reply_queue s"
  "download_queue (put_node a nd s) = download_queue s"
  by (simp_all add: put_node_def)

definition new_node :: "string \<Rightarrow> int \<Rightarrow> byte list \<Rightarrow> nat \<Rightarrow> node" where
  "new_node ip port i a =
     \<lparr>nid = i, nip = take 15 ip, nport = port, successor = a, predecessor = None,
      finger = replicate M (Some a), files = None, uploaded_files = None, socket_open = False\<rparr>"

lemma new_node_simps [simp]:
  "nid (new_node ip port i a) = i" "nip (new_node ip port i a) = take 15 ip"
  "nport (new_node ip port i a) = port" "files (new_node ip port i a) = None"
  "predecessor (new_node ip port i a) = None" "successor (new_node ip port i a) = a"
  "uploaded_files (new_node ip port i a) = None" "socket_open (new_node ip port i a) = False"
  by (simp_all add: new_node_def)

definition add_node :: "string \<Rightarrow> int \<Rightarrow> byte list \<Rightarrow> proc \<Rightarrow> proc" where
  "add_node ip port i s =
     s\<lparr>node_mem := (node_mem s)(node_brk s \<mapsto> new_node ip port i (node_brk s)), node_brk := Suc (node_brk s)\<rparr>"

lemma create_node_eq: "create_node E ip port s = (node_brk s, add_node ip port (node_id E ip port) s)"
  by (simp add: create_node_def add_node_def new_node_def put_node_def Let_def)

lemma create_node_with_id_eq: "create_node_with_id E ip port i s = (node_brk s, add_node ip port i s)"
  by (simp add: create_node_with_id_def create_node_eq add_node_def new_node_def)

lemma add_node_simps [simp]:
  "node_mem (add_node ip port i s) = (node_mem s)(node_brk s \<mapsto> new_node ip port i (node_brk s))"
  "node_brk (add_node ip port i s) = Suc (node_brk s)" "file_mem (add_node ip port i s) = file_mem s"
  "self (add_node ip port i s) = self s" "socket_alive (add_node ip port i s) = socket_alive s"
  "reply_queue (add_node ip port i s) = reply_queue s"
  "download_queue (add_node ip port i s) = download_queue s"
  by (simp_all add: add_node_def)

text \<open>A node and its successor are in memory, below the next free address.\<close>

definition node_at :: "proc \<Rightarrow> nat \<Rightarrow> node \<Rightarrow> node \<Rightarrow> bool" where
  "node_at s n nd sd \<longleftrightarrow>
     node_mem s n = Some nd \<and> node_mem s (successor nd) = Some sd \<and> length (finger nd) = M \<and>
     is_id (nid nd) \<and> is_id (nid sd) \<and> (\<forall>a. node_mem s a \<noteq> None \<longrightarrow> a < node_brk s)"

lemma node_atD:
  assumes "node_at s n nd sd"
  shows "node_mem s n = Some nd" "node_mem s (successor nd) = Some sd" "length (finger nd) = M"
    "is_id (nid nd)" "is_id (nid sd)" "n < node_brk s" "successor nd < node_brk s"
    "\<And>a. node_mem s a \<noteq> None \<Longrightarrow> a < node_brk s" "node_mem s (node_brk s) = None"
  using assms unfolding node_at_def by (blast, blast, blast, blast, blast, blast, blast, blast, blast)

lemma copy_successor_at:
  "node_at s n nd sd \<Longrightarrow>
   copy_successor E n s = Done (node_brk s) (add_node (nip sd) (nport sd) (nid sd) s)"
  by (simp add: copy_successor_def node_at_def create_node_with_id_eq)

section \<open>The closest preceding finger\<close>

definition fingers_ok :: "proc \<Rightarrow> node \<Rightarrow> (nat \<Rightarrow> node) \<Rightarrow> bool" where
  "fingers_ok s nd F \<longleftrightarrow>
     (\<forall>k < M. \<exists>a. finger nd ! k = Some a \<and> node_mem s a = Some (F k) \<and> is_id (nid (F k)))"

lemma closest_loop_spec:
  assumes "\<forall>j < k. \<exists>a. finger nd ! j = Some a \<and> node_mem s a = Some (F j)"
  shows "(\<forall>j < k. \<not> is_in_interval (nid (F j)) (nid nd) i) \<and> closest_loop s nd n i k = Inr n \<or>
         (\<exists>j < k. \<exists>a. closest_loop s nd n i k = Inr a \<and> finger nd ! j = Some a \<and>
            is_in_interval (nid (F j)) (nid nd) i \<and>
            (\<forall>l < k. j < l \<longrightarrow> \<not> is_in_interval (nid (F l)) (nid nd) i))"
  using assms
proof (induction k)
  case (Suc k)
  obtain a where a: "finger nd ! k = Some a" "node_mem s a = Some (F k)" using Suc.prems by auto
  have IH: "(\<forall>j < k. \<not> is_in_interval (nid (F j)) (nid nd) i) \<and> closest_loop s nd n i k = Inr n \<or>
         (\<exists>j < k. \<exists>a. closest_loop s nd n i k = Inr a \<and> finger nd ! j = Some a \<and>
            is_in_interval (nid (F j)) (nid nd) i \<and>
            (\<forall>l < k. j < l \<longrightarrow> \<not> is_in_interval (nid (F l)) (nid nd) i))"
    using Suc by simp
  show ?case
  proof (cases "is_in_interval (nid (F k)) (nid nd) i")
    case True
    then show ?thesis using a by (intro disjI2 exI [of _ k]) simp
  next
    case False
    then have "closest_loop s nd n i (Suc k) = closest_loop s nd n i k" using a by simp
    with IH False show ?thesis by (metis less_Suc_eq)
  qed
qed simp

lemma closest_preceding_node_cases:
  assumes "node_mem s n = Some nd" and "fingers_ok s nd F"
  shows "(\<forall>j < M. \<not> is_in_interval (nid (F j)) (nid nd) i) \<and> closest_preceding_node n i s = Inr n \<or>
         (\<exists>j < M. \<exists>a. closest_preceding_node n i s = Inr a \<and> finger nd ! j = Some a \<and>
            node_mem s a = Some (F j) \<and> is_in_interval (nid (F j)) (nid nd) i \<and>
            (\<forall>l < M. j < l \<longrightarrow> \<not> is_in_interval (nid (F l)) (nid nd) i))"
proof -
  have "\<forall>j < M. \<exists>a. finger nd ! j = Some a \<and> node_mem s a = Some (F j)"
    using assms(2) unfolding fingers_ok_def by blast
  from closest_loop_spec [OF this, where n = n and i = i] show ?thesis
  proof (elim disjE exE conjE)
    fix j a
    assume "j < M" "closest_loop s nd n i M = Inr a" "finger nd ! j = Some a"
      "is_in_interval (nid (F j)) (nid nd) i"
      "\<forall>l < M. j < l \<longrightarrow> \<not> is_in_interval (nid (F l)) (nid nd) i"
    moreover have "node_mem s a = Some (F j)"
      using assms(2) calculation(1,3) unfolding fingers_ok_def by fastforce
    ultimately show ?thesis using assms(1) by (auto simp: closest_preceding_node_def)
  qed (simp add: closest_preceding_node_def assms(1))
qed

section \<open>Searches\<close>

text \<open>A process to evaluate on: node 0 with identifier \<open>p\<close>, its successor 1 with identifier
  \<open>q\<close>, every finger the node itself but the last, which is the successor.\<close>

definition demo_env :: env where
  "demo_env = \<lparr>sha1 = (\<lambda>x. small_id (length x)), junk_msg = demo_junk_message, junk_entry = demo_entry 0,
     junk_byte = NUL, pointer_bytes = demo_pointer, file_exists = (\<lambda>_. True), is_directory = (\<lambda>_. True)\<rparr>"

definition demo_proc :: "nat \<Rightarrow> nat \<Rightarrow> proc" where
  "demo_proc p q = empty_proc\<lparr>
     node_mem := [0 \<mapsto> (new_node ''10.0.0.1'' 5000 (small_id p) 0)\<lparr>successor := 1,
                          finger := (replicate 159 (Some 0)) @ [Some 1], socket_open := True\<rparr>,
                  1 \<mapsto> new_node ''10.0.0.2'' 5001 (small_id q) 1],
     node_brk := 2, socket_alive := True\<rparr>"

definition demo_node :: "nat \<Rightarrow> node" where
  "demo_node p = (new_node ''10.0.0.1'' 5000 (small_id p) 0)\<lparr>successor := 1,
                    finger := (replicate 159 (Some 0)) @ [Some 1], socket_open := True\<rparr>"

lemma demo_proc_at: "node_at (demo_proc p q) 0 (demo_node p) (new_node ''10.0.0.2'' 5001 (small_id q) 1)"
  by (simp add: node_at_def demo_proc_def demo_node_def small_id_is_id M_def)

lemma demo_fingers:
  "fingers_ok (demo_proc p q) (demo_node p)
     (\<lambda>k. if k < 159 then demo_node p else new_node ''10.0.0.2'' 5001 (small_id q) 1)"
  by (auto simp: fingers_ok_def demo_proc_def demo_node_def small_id_is_id M_def nth_append)

text \<open>C17: \<open>find_successor\<close> answers itself for the keys on the arc from the node to its
  successor: without a message it returns a new node object with the successor's identifier and
  address (cut to the size of the array), leaving the rest of memory as it was, and of the two
  nodes the successor is the first clockwise from the key.\<close>

theorem find_successor_own_arc:
  assumes "node_at s n nd sd" and "is_id i"
    and "in_arc (id_num i) (id_num (nid nd)) (id_num (nid sd)) \<or> i = nid sd"
  shows "\<exists>s' cd. find_successor E n i s = Done (node_brk s) s' \<and>
           node_mem s' = (node_mem s)(node_brk s \<mapsto> cd) \<and>
           nid cd = nid sd \<and> nip cd = take 15 (nip sd) \<and> nport cd = nport sd \<and>
           responsible {id_num (nid nd), id_num (nid sd)} (id_num i) (id_num (nid sd))"
proof -
  note at = node_atD [OF assms(1)]
  have "is_in_interval i (nid nd) (nid sd) \<or> memcmp i (nid sd) HASH_SIZE = 0"
    using assms(2,3) at by (auto simp: is_in_interval_iff)
  then have "find_successor E n i s = Done (node_brk s) (add_node (nip sd) (nport sd) (nid sd) s)"
    using at copy_successor_at [OF assms(1), of E] by (simp add: find_successor_def)
  moreover have "responsible {id_num (nid nd), id_num (nid sd)} (id_num i) (id_num (nid sd))"
    using assms(2,3) at(4,5) id_num_bounds [of i] id_num_bounds [of "nid nd"] id_num_bounds [of "nid sd"]
    by (auto simp: responsible_def in_arc_def clockwise_cases split: if_splits)
  ultimately show ?thesis
    by (intro exI [of _ "add_node (nip sd) (nport sd) (nid sd) s"]
        exI [of _ "new_node (nip sd) (nport sd) (nid sd) (node_brk s)"]) simp
qed

theorem find_successor_own_arc_witness:
  "\<exists>s' cd. find_successor demo_env 0 (small_id 5) (demo_proc 3 9) = Done 2 s' \<and>
           node_mem s' 2 = Some cd \<and> nid cd = small_id 9 \<and> nip cd = ''10.0.0.2''"
proof -
  have "in_arc (id_num (small_id 5)) (id_num (nid (demo_node 3)))
      (id_num (nid (new_node ''10.0.0.2'' 5001 (small_id 9) 1)))"
    by (simp add: demo_node_def small_id_num in_arc_def clockwise_def ring_size_def)
  moreover have "node_brk (demo_proc 3 9) = 2" by (simp add: demo_proc_def)
  ultimately show ?thesis
    using find_successor_own_arc [OF demo_proc_at small_id_is_id, of 5 3 9 demo_env] by auto
qed

text \<open>C18: \<open>closest_preceding_node\<close> ends without touching freed memory.  Where the fingers
  are ordered clockwise, as in a Chord finger table, it returns a finger on the open arc from the
  node to the key, and no finger on that arc is nearer to the key; where none is on it, it
  returns the node itself.\<close>

theorem closest_preceding_node_closest:
  assumes "node_at s n nd sd" and "fingers_ok s nd F" and "is_id i"
    and "\<And>j l. j \<le> l \<Longrightarrow> l < M \<Longrightarrow>
           clockwise (id_num (nid nd)) (id_num (nid (F j))) \<le> clockwise (id_num (nid nd)) (id_num (nid (F l)))"
  shows "(\<exists>j < M. \<exists>a. closest_preceding_node n i s = Inr a \<and> finger nd ! j = Some a \<and>
            in_arc (id_num (nid (F j))) (id_num (nid nd)) (id_num i) \<and>
            (\<forall>l < M. in_arc (id_num (nid (F l))) (id_num (nid nd)) (id_num i) \<longrightarrow>
               clockwise (id_num (nid nd)) (id_num (nid (F l))) \<le> clockwise (id_num (nid nd)) (id_num (nid (F j))))) \<or>
         closest_preceding_node n i s = Inr n \<and>
           (\<forall>l < M. \<not> in_arc (id_num (nid (F l))) (id_num (nid nd)) (id_num i))"
proof -
  note at = node_atD [OF assms(1)]
  have arc: "is_in_interval (nid (F l)) (nid nd) i \<longleftrightarrow> in_arc (id_num (nid (F l))) (id_num (nid nd)) (id_num i)"
    if "l < M" for l
    using assms(2,3) at(4) that unfolding fingers_ok_def by (metis is_in_interval_iff)
  from closest_preceding_node_cases [OF at(1) assms(2), of i] show ?thesis
  proof (elim disjE exE conjE)
    fix j a
    assume j: "j < M" "closest_preceding_node n i s = Inr a" "finger nd ! j = Some a"
      "is_in_interval (nid (F j)) (nid nd) i"
      and last: "\<forall>l < M. j < l \<longrightarrow> \<not> is_in_interval (nid (F l)) (nid nd) i"
    have "clockwise (id_num (nid nd)) (id_num (nid (F l))) \<le> clockwise (id_num (nid nd)) (id_num (nid (F j)))"
      if l: "l < M" "in_arc (id_num (nid (F l))) (id_num (nid nd)) (id_num i)" for l
    proof -
      have "l \<le> j" using last arc l by (metis not_le)
      then show ?thesis using assms(4) j(1) by blast
    qed
    then show ?thesis using j arc by blast
  qed (use arc in blast)
qed

theorem closest_preceding_node_closest_witness:
  "closest_preceding_node 0 (small_id 200) (demo_proc 3 9) = Inr 1 \<and>
   closest_preceding_node 0 (small_id 5) (demo_proc 3 9) = Inr 0"
proof -
  let ?F = "\<lambda>k. if k < 159 then demo_node 3 else new_node ''10.0.0.2'' 5001 (small_id 9) 1"
  have mono: "clockwise (id_num (nid (demo_node 3))) (id_num (nid (?F j))) \<le>
      clockwise (id_num (nid (demo_node 3))) (id_num (nid (?F l)))" if "j \<le> l" "l < M" for j l
    using that by (auto simp: demo_node_def small_id_num clockwise_def ring_size_def)
  have arc: "in_arc (id_num (nid (?F j))) (id_num (nid (demo_node 3))) (id_num (small_id 200)) \<longleftrightarrow> j \<ge> 159"
    "\<not> in_arc (id_num (nid (?F j))) (id_num (nid (demo_node 3))) (id_num (small_id 5))" for j :: nat
    by (simp_all add: demo_node_def small_id_num in_arc_def clockwise_def ring_size_def)
  note c = closest_preceding_node_closest [OF demo_proc_at demo_fingers small_id_is_id mono]
  have "finger (demo_node 3) ! j = Some 1" if "j < M" "159 \<le> j" for j
  proof -
    have "j = 159" using that by (simp add: M_def)
    then show ?thesis by (simp add: demo_node_def nth_append)
  qed
  moreover have "159 < M" by (simp add: M_def)
  ultimately show ?thesis
    using c [of 200] c [of 5] arc by (metis less_irrefl not_le option.inject)
qed

text \<open>C21: for any other key \<open>find_successor\<close> asks the closest preceding finger, with one
  FIND_SUCCESSOR message that carries the key and the node's own address, waits for the reply with
  its number, and returns the node the reply names.  Where no finger precedes the key, it sends
  nothing and returns its own successor.\<close>

theorem find_successor_forwards:
  assumes "node_at s n nd sd" and "is_id i"
    and "\<not> in_arc (id_num i) (id_num (nid nd)) (id_num (nid sd))" and "i \<noteq> nid sd"
    and "closest_preceding_node n i s = Inr f" and "node_mem s f = Some fd" and "request_id m = rid"
  shows "if f = n
         then \<exists>s'. find_successor E n i s = Done (node_brk s) s' \<and>
                   map_option nid (node_mem s' (node_brk s)) = Some (nid sd)
         else \<exists>msg s'. exec [Fresh rid, Result r, Reply m] (find_successor E n i s) =
                         ([(nip fd, nport fd, msg)], Done (node_brk s) s') \<and>
                   mtype msg = MSG_FIND_SUCCESSOR \<and> mid msg = i \<and> request_id msg = rid \<and>
                   mip msg = nip nd \<and> mport msg = nport nd \<and>
                   map_option nid (node_mem s' (node_brk s)) = Some (mid m)"
proof -
  note at = node_atD [OF assms(1)]
  have "\<not> (is_in_interval i (nid nd) (nid sd) \<or> memcmp i (nid sd) HASH_SIZE = 0)"
    using assms(2,3,4) at(4,5) by (auto simp: is_in_interval_iff memcmp_eq_0 is_id_def)
  then have fs: "find_successor E n i s = find_successor_remote E n f i s"
    using at(1,2) assms(5) by (simp add: find_successor_def)
  show ?thesis
  proof (cases "f = n")
    case True
    then show ?thesis
      using copy_successor_at [OF assms(1), of E] by (simp add: fs find_successor_remote_def)
  next
    case False
    then show ?thesis
      using at(1) assms(6,7) by (simp add: fs find_successor_remote_def create_node_with_id_eq)
  qed
qed

theorem find_successor_forwards_witness:
  "\<exists>msg s'. exec [Fresh 7, Result 1400, Reply (demo_message 7)] (find_successor demo_env 0 (small_id 200) (demo_proc 3 9)) =
              ([(''10.0.0.2'', 5001, msg)], Done 2 s') \<and> mtype msg = MSG_FIND_SUCCESSOR"
proof -
  have "closest_preceding_node 0 (small_id 200) (demo_proc 3 9) = Inr 1" by code_simp
  moreover have "\<not> in_arc (id_num (small_id 200)) (id_num (nid (demo_node 3)))
      (id_num (nid (new_node ''10.0.0.2'' 5001 (small_id 9) 1)))"
    by (simp add: demo_node_def small_id_num in_arc_def clockwise_def ring_size_def)
  moreover have "small_id 200 \<noteq> nid (new_node ''10.0.0.2'' 5001 (small_id 9) 1)"
    by (simp add: small_id_def)
  moreover have "node_mem (demo_proc 3 9) 1 = Some (new_node ''10.0.0.2'' 5001 (small_id 9) 1)"
    "node_brk (demo_proc 3 9) = 2" by (simp_all add: demo_proc_def)
  moreover have "request_id (demo_message 7) = 7" by (simp add: demo_message_def)
  ultimately show ?thesis
    using find_successor_forwards [OF demo_proc_at [of 3 9] small_id_is_id [of 200], where f = 1
        and fd = "new_node ''10.0.0.2'' 5001 (small_id 9) 1" and m = "demo_message 7" and rid = 7
        and E = demo_env and r = 1400] by auto
qed

section \<open>NOTIFY\<close>

lemma clockwise_arc_closer:
  assumes "is_id x" and "is_id p" and "is_id n" and "in_arc (id_num x) (id_num p) (id_num n)" and "x \<noteq> n"
    and "p \<noteq> n"
  shows "clockwise (id_num x) (id_num n) < clockwise (id_num p) (id_num n)"
  using assms id_num_bounds [of x] id_num_bounds [of p] id_num_bounds [of n]
  by (auto simp: in_arc_def clockwise_cases id_num_inject [symmetric] split: if_splits)

text \<open>C20: a NOTIFY moves the predecessor closer or leaves it.  The handler takes the sender, with
  the identifier, the address and the port of the message, as predecessor if there was none or if
  the sender lies on the arc from the old one to the node; of the node nothing else changes, the
  object that is no longer needed, and only that, is freed, and of the process's memory nothing but the
  nodes changes: the files, the queues and the socket stay.  Nothing is sent; and where a
  predecessor other than the node itself is replaced by a sender other than the node itself, the
  new one is strictly nearer, going clockwise to the node.\<close>

theorem notify_takes_closer_predecessor:
  assumes "node_at s n nd sd" and "mtype m = MSG_NOTIFY" and "is_id (mid m)"
    and "\<And>p. predecessor nd = Some p \<Longrightarrow> p \<noteq> n \<and> node_mem s p = Some pd \<and> is_id (nid pd)"
  shows "\<exists>s' nd'. handle_requests E n m s = Done () s' \<and> node_mem s' n = Some nd' \<and>
     s' = s\<lparr>node_mem := node_mem s', node_brk := Suc (node_brk s)\<rparr> \<and>
     (if predecessor nd = None \<or> in_arc (id_num (mid m)) (id_num (nid pd)) (id_num (nid nd))
      then nd' = nd\<lparr>predecessor := Some (node_brk s)\<rparr> \<and>
           node_mem s' (node_brk s) = Some (new_node (mip m) (mport m) (mid m) (node_brk s)) \<and>
           (\<forall>a. a \<noteq> n \<and> a \<noteq> node_brk s \<longrightarrow>
                node_mem s' a = (if Some a = predecessor nd then None else node_mem s a)) \<and>
           (predecessor nd \<noteq> None \<and> mid m \<noteq> nid nd \<and> nid pd \<noteq> nid nd \<longrightarrow>
              clockwise (id_num (mid m)) (id_num (nid nd)) < clockwise (id_num (nid pd)) (id_num (nid nd)))
      else node_mem s' = node_mem s)"
proof -
  note at = node_atD [OF assms(1)]
  have hr: "handle_requests E n m s = handle_notify E n m s"
    using assms(2) by (simp add: handle_requests_def msg_types)
  have ne: "n \<noteq> node_brk s" using at(6) by simp
  show ?thesis
  proof (cases "predecessor nd")
    case None
    then show ?thesis
      using at(1) ne
      by (simp add: hr handle_notify_def create_node_with_id_eq delete_node_def add_node_def put_node_def)
  next
    case (Some p)
    have p: "p \<noteq> n" "node_mem s p = Some pd" "is_id (nid pd)" using assms(4) [OF Some] by auto
    have pb: "p \<noteq> node_brk s" using at(8) [of p] p(2) by auto
    have arc: "is_in_interval (mid m) (nid pd) (nid nd) \<longleftrightarrow>
        in_arc (id_num (mid m)) (id_num (nid pd)) (id_num (nid nd))"
      using assms(3) p(3) at(4) by (simp add: is_in_interval_iff)
    show ?thesis
    proof (cases "is_in_interval (mid m) (nid pd) (nid nd)")
      case True
      then show ?thesis
        using at(1,4) ne assms(3) p pb Some arc clockwise_arc_closer [of "mid m" "nid pd" "nid nd"]
        by (simp add: hr handle_notify_def create_node_with_id_eq delete_node_def add_node_def put_node_def)
    next
      case False
      then show ?thesis
        using at(1,9) ne p pb Some arc
        by (simp add: hr handle_notify_def create_node_with_id_eq delete_node_def add_node_def put_node_def fun_upd_idem)
    qed
  qed
qed

definition demo_notified :: "nat \<Rightarrow> proc" where
  "demo_notified p = (demo_proc 50 9)\<lparr>
     node_mem := (node_mem (demo_proc 50 9))
       (0 \<mapsto> (demo_node 50)\<lparr>predecessor := Some 2\<rparr>, 2 \<mapsto> new_node ''10.0.0.3'' 5002 (small_id p) 2),
     node_brk := 3\<rparr>"

lemma demo_notified_at:
  "node_at (demo_notified p) 0 ((demo_node 50)\<lparr>predecessor := Some 2\<rparr>) (new_node ''10.0.0.2'' 5001 (small_id 9) 1)"
  by (simp add: node_at_def demo_notified_def demo_proc_def demo_node_def small_id_is_id M_def)

theorem notify_takes_closer_predecessor_witness:
  "\<exists>s'. handle_requests demo_env 0 ((demo_message 7)\<lparr>mtype := MSG_NOTIFY, mid := small_id 40\<rparr>) (demo_notified 20) =
          Done () s' \<and> node_mem s' 2 = None \<and> map_option nid (node_mem s' 3) = Some (small_id 40)"
proof -
  have "in_arc (id_num (small_id 40)) (id_num (nid (new_node ''10.0.0.3'' 5002 (small_id 20) 2)))
      (id_num (nid ((demo_node 50)\<lparr>predecessor := Some 2\<rparr>)))"
    by (simp add: demo_node_def small_id_num in_arc_def clockwise_def ring_size_def)
  moreover have "node_brk (demo_notified 20) = 3"
    "node_mem (demo_notified 20) 2 = Some (new_node ''10.0.0.3'' 5002 (small_id 20) 2)"
    by (simp_all add: demo_notified_def)
  ultimately show ?thesis
    using notify_takes_closer_predecessor [OF demo_notified_at [of 20],
        where E = demo_env and pd = "new_node ''10.0.0.3'' 5002 (small_id 20) 2"
          and m = "(demo_message 7)\<lparr>mtype := MSG_NOTIFY, mid := small_id 40\<rparr>"]
    by (auto simp: small_id_is_id)
qed

section \<open>Stabilisation\<close>

text \<open>An object that stands for another node, as \<open>create_node\<close> makes it: it has no files and no
  socket.\<close>

definition bare :: "node \<Rightarrow> bool" where
  "bare nd \<longleftrightarrow> files nd = None \<and> uploaded_files nd = None \<and> \<not> socket_open nd"

lemma cleanup_bare: "node_mem s a = Some nd \<Longrightarrow> bare nd \<Longrightarrow> cleanup_node a s f = f s"
  by (simp add: cleanup_node_def bare_def free_files.simps)

lemma bare_new_node [simp]: "bare (new_node ip port i a)"
  by (simp add: bare_def)

text \<open>C19: a round of \<open>stabilize\<close> that is answered, the first or a later one.  On a node whose successor
  is another node, it asks the successor, and if the node the reply names lies on the arc from the
  node to its successor, that becomes the successor, strictly nearer than the old one; then the
  successor is sent a NOTIFY that carries the node's identifier and address.  Otherwise the successor
  stays and is sent the same.  The process also records the node as the predecessor of its own
  object for the successor, if that object has none or the node lies on the arc from the one it has; nothing else
  of the memory changes but for the new objects.  The objects for the successor and for its
  predecessor have no files and no socket of their own, as \<open>create_node\<close> makes them.\<close>

theorem stabilize_adopts_closer_successor:
  assumes "node_at s n nd sd" and "successor nd \<noteq> n" and "request_id m = rid"
    and "x = node_id E (mip m) (mport m)" and "is_id x" and "bare sd"
    and "\<And>p. predecessor sd = Some p \<Longrightarrow> node_mem s p = Some pd \<and> is_id (nid pd) \<and> bare pd"
    and "b = node_brk s" and "self_copy = new_node (nip nd) (nport nd) (nid nd) (Suc b)"
  shows "\<exists>q1 q2 s' nd' ip port. exec [Fresh rid, Result r, Reply m, Fresh rid2, Result r2] (stabilize E n s) =
             ([(nip sd, nport sd, q1), (ip, port, q2)], Done () s') \<and>
           mtype q1 = MSG_STABILIZE \<and> request_id q1 = rid \<and> mip q1 = nip nd \<and> mport q1 = nport nd \<and>
           mtype q2 = MSG_NOTIFY \<and> mid q2 = nid nd \<and> mip q2 = nip nd \<and> mport q2 = nport nd \<and>
           node_mem s' n = Some nd' \<and> socket_alive s' = socket_alive s \<and>
           s' = s\<lparr>node_mem := node_mem s', node_brk := node_brk s'\<rparr> \<and>
           (if in_arc (id_num x) (id_num (nid nd)) (id_num (nid sd))
            then map_option nid (node_mem s' (successor nd')) = Some x \<and>
                 ip = take 15 (mip m) \<and> port = mport m \<and>
                 clockwise (id_num (nid nd)) (id_num x) <
                   (if nid nd = nid sd then ring_size else clockwise (id_num (nid nd)) (id_num (nid sd))) \<and>
                 node_mem s' = (node_mem s)
                   (n \<mapsto> nd\<lparr>successor := b\<rparr>,
                    b \<mapsto> (new_node (mip m) (mport m) x b)\<lparr>predecessor := Some (Suc b)\<rparr>, Suc b \<mapsto> self_copy)
            else nd' = nd \<and> ip = nip sd \<and> port = nport sd \<and>
                 node_mem s' =
                   (if predecessor sd = None \<or> in_arc (id_num (nid nd)) (id_num (nid pd)) (id_num (nid sd))
                    then (node_mem s)(b \<mapsto> new_node (mip m) (mport m) x b, Suc b \<mapsto> self_copy,
                           successor nd \<mapsto> sd\<lparr>predecessor := Some (Suc b)\<rparr>)
                    else (node_mem s)(b \<mapsto> new_node (mip m) (mport m) x b)))"
proof -
  note at = node_atD [OF assms(1)]
  have ne: "n \<noteq> b" "successor nd \<noteq> b" "n \<noteq> Suc b" "successor nd \<noteq> Suc b" "n \<noteq> successor nd"
    using at(6,7) assms(2,8) by auto
  have arc: "is_in_interval x (nid nd) (nid sd) \<longleftrightarrow> in_arc (id_num x) (id_num (nid nd)) (id_num (nid sd))"
    using assms(5) at by (simp add: is_in_interval_iff)
  let ?new = "new_node (mip m) (mport m) x b"
  have st: "exec [Fresh rid, Result r, Reply m, Fresh rid2, Result r2] (stabilize E n s) =
     (let q1 = new_message E MSG_STABILIZE (nid nd) (nip nd) (nport nd) rid;
          s1 = add_node (mip m) (mport m) x s;
          (sent, out) = exec [Fresh rid2, Result r2]
            (if is_in_interval x (nid nd) (nid sd) then notify E b n (put_node n (nd\<lparr>successor := b\<rparr>) s1)
             else notify E (successor nd) n s1)
      in ((nip sd, nport sd, q1) # sent, out))"
    using at(1,2) ne assms(3,4,6,8)
    by (simp add: stabilize_def create_node_eq cleanup_bare [where nd = sd] cleanup_bare [where nd = ?new] Let_def
        del: exec_Nil)
  show ?thesis
  proof (cases "is_in_interval x (nid nd) (nid sd)")
    case True
    then have "clockwise (id_num (nid nd)) (id_num x) <
        (if nid nd = nid sd then ring_size else clockwise (id_num (nid nd)) (id_num (nid sd)))"
      using arc at(4,5) by (auto simp: in_arc_def id_num_inject)
    then show ?thesis
      unfolding st using True arc at(1,2) ne assms(8,9)
      by (simp add: create_node_with_id_eq notify_def add_node_def put_node_def fun_upd_twist Let_def)
  next
    case False
    show ?thesis
    proof (cases "predecessor sd")
      case None
      then show ?thesis
        unfolding st using False arc at(1,2) ne assms(8,9)
        by (simp add: create_node_with_id_eq notify_def add_node_def put_node_def Let_def)
    next
      case (Some p)
      have p: "node_mem s p = Some pd" "is_id (nid pd)" "bare pd" using assms(7) [OF Some] by auto
      have pb: "p \<noteq> b" using at(8) [of p] p(1) assms(8) by auto
      have arc2: "is_in_interval (nid nd) (nid pd) (nid sd) \<longleftrightarrow> in_arc (id_num (nid nd)) (id_num (nid pd)) (id_num (nid sd))"
        using p(2) at by (simp add: is_in_interval_iff)
      show ?thesis
        unfolding st using False arc arc2 at(1,2) ne assms(8,9) Some p pb
        by (simp add: create_node_with_id_eq notify_def add_node_def put_node_def cleanup_bare [where nd = pd] Let_def)
    qed
  qed
qed

lemma demo_message_id: "node_id demo_env ''10.0.0.1'' 5000 = small_id 13"
proof -
  have "length (to_string 5000) = 4" by (simp add: to_string_def nat_to_string.simps)
  then have "length (take 255 (''10.0.0.1'' @ '':'' @ to_string 5000)) = 13" by simp
  then show ?thesis by (simp add: node_id_def demo_env_def del: length_take)
qed

text \<open>A later round: the object for the successor has a predecessor, the copy of the node that the first
  round has made.\<close>

definition demo_later :: proc where
  "demo_later = (demo_proc 3 20)\<lparr>
     node_mem := (node_mem (demo_proc 3 20))
       (1 \<mapsto> (new_node ''10.0.0.2'' 5001 (small_id 20) 1)\<lparr>predecessor := Some 2\<rparr>,
        2 \<mapsto> new_node ''10.0.0.1'' 5000 (small_id 3) 2),
     node_brk := 3\<rparr>"

lemma demo_later_at:
  "node_at demo_later 0 (demo_node 3) ((new_node ''10.0.0.2'' 5001 (small_id 20) 1)\<lparr>predecessor := Some 2\<rparr>)"
  by (simp add: node_at_def demo_later_def demo_proc_def demo_node_def small_id_is_id M_def)

theorem stabilize_adopts_closer_successor_witness:
  "\<exists>q1 q2 s' nd' ip port.
     exec [Fresh 7, Result 1400, Reply (demo_message 7), Fresh 8, Result 1400] (stabilize demo_env 0 demo_later) =
       ([(''10.0.0.2'', 5001, q1), (ip, port, q2)], Done () s') \<and> mtype q2 = MSG_NOTIFY \<and>
     node_mem s' 0 = Some nd' \<and> map_option nid (node_mem s' (successor nd')) = Some (small_id 13)"
proof -
  let ?sd = "(new_node ''10.0.0.2'' 5001 (small_id 20) 1)\<lparr>predecessor := Some 2\<rparr>"
  have x: "small_id 13 = node_id demo_env (mip (demo_message 7)) (mport (demo_message 7))"
    using demo_message_id by (simp add: demo_message_def)
  have arc: "in_arc (id_num (small_id 13)) (id_num (nid (demo_node 3))) (id_num (nid ?sd))"
    by (simp add: demo_node_def small_id_num in_arc_def clockwise_def ring_size_def)
  have p: "successor (demo_node 3) \<noteq> 0" "request_id (demo_message 7) = 7" "bare ?sd"
    "nip ?sd = ''10.0.0.2''" "nport ?sd = 5001"
    by (simp_all add: demo_node_def demo_message_def bare_def)
  have pd: "node_mem demo_later p = Some (new_node ''10.0.0.1'' 5000 (small_id 3) 2) \<and>
      is_id (nid (new_node ''10.0.0.1'' 5000 (small_id 3) 2)) \<and> bare (new_node ''10.0.0.1'' 5000 (small_id 3) 2)"
    if "predecessor ?sd = Some p" for p
    using that by (simp add: demo_later_def small_id_is_id)
  from stabilize_adopts_closer_successor [OF demo_later_at p(1,2) x small_id_is_id p(3) pd refl refl,
      where r = 1400 and ?r2.0 = 1400 and ?rid2.0 = 8]
  show ?thesis unfolding if_P [OF arc] p(4,5) by blast
qed

text \<open>C36: an answered round on a node that is still its own successor destroys it.  If
  the reply names another node, the code calls \<open>cleanup_node\<close> on the old successor, which is the
  node itself: its socket is closed and its file entries are freed while its lists still point to
  them, so the next look-up reads freed memory.\<close>

theorem stabilize_on_own_successor_frees_files:
  assumes "node_at s n nd nd" and "successor nd = n" and "request_id m = rid" and "socket_open nd"
    and "is_id (node_id E (mip m) (mport m))" and "node_id E (mip m) (mport m) \<noteq> nid nd"
    and "files_at (file_mem s) (files nd) (uploaded_files nd) xs ys"
  shows "\<exists>q s' k nd'. exec [Fresh rid, Result r, Reply m] (stabilize E n s) = ([(nip nd, nport nd, q)], NeedId s' k) \<and>
           \<not> socket_alive s' \<and> node_mem s' n = Some nd' \<and> files nd' = files nd \<and>
           (xs \<noteq> [] \<longrightarrow> lookup_file i (files nd') (file_mem s') = Some (Inl UseAfterFree))"
proof -
  note at = node_atD [OF assms(1)]
  let ?x = "node_id E (mip m) (mport m)"
  have ne: "n \<noteq> node_brk s" using at(6) by simp
  have int: "is_in_interval ?x (nid nd) (nid nd)"
    using is_in_interval_iff [OF assms(5) at(4,4)] id_num_inject [OF assms(5) at(4)] assms(6)
      id_num_bounds [OF assms(5)] id_num_bounds [OF at(4)]
    by (auto simp: in_arc_def clockwise_cases)
  from assms(7) obtain as bs where fl: "list_at (file_mem s) (files nd) as xs"
    "list_at (file_mem s) (uploaded_files nd) bs ys" "set as \<inter> set bs = {}" "store_wf (file_mem s)"
    by (auto simp: files_at_def)
  obtain fm1 where fm1: "free_files (files nd) (file_mem s) = Some (Inr fm1)" "store_wf fm1"
    "cells fm1 = (\<lambda>a. if a \<in> set as then None else cells (file_mem s) a)"
    using free_files_list [OF fl(1,4)] by blast
  have "list_at fm1 (uploaded_files nd) bs ys"
    by (rule list_at_frame [OF fl(2)]) (use fl(3) fm1(3) in auto)
  then obtain fm2 where fm2: "free_files (uploaded_files nd) fm1 = Some (Inr fm2)"
    "cells fm2 = (\<lambda>a. if a \<in> set bs then None else cells fm1 a)"
    using free_files_list [OF _ fm1(2)] by blast
  have dead: "lookup_file i (files nd) fm2 = Some (Inl UseAfterFree)" if "xs \<noteq> []"
  proof -
    obtain a as' where "as = a # as'" using fl(1) \<open>xs \<noteq> []\<close> by (cases as) (auto simp: list_at_def)
    moreover then have "files nd = Some a" using fl(1) by (simp add: list_at_def)
    ultimately show ?thesis using fm1(3) fm2(2) by (simp add: lookup_file_def scan.simps)
  qed
  show ?thesis
    using at(1) ne assms(2-4) int fm1(1) fm2(1) dead
    by (simp add: stabilize_def create_node_eq cleanup_node_def notify_def Let_def)
qed

definition demo_solo :: proc where
  "demo_solo = (demo_proc 3 9)\<lparr>
     node_mem := [0 \<mapsto> (new_node ''10.0.0.1'' 5000 (small_id 3) 0)\<lparr>files := fst demo_files, socket_open := True\<rparr>],
     file_mem := snd demo_files\<rparr>"

definition demo_solo_node :: node where
  "demo_solo_node = (new_node ''10.0.0.1'' 5000 (small_id 3) 0)\<lparr>files := fst demo_files, socket_open := True\<rparr>"

lemma demo_solo_at: "node_at demo_solo 0 demo_solo_node demo_solo_node"
  by (simp add: node_at_def demo_solo_def demo_solo_node_def demo_proc_def small_id_is_id M_def new_node_def)

theorem stabilize_on_own_successor_frees_files_witness:
  "\<exists>q s' k nd'. exec [Fresh 7, Result 1400, Reply (demo_message 7)] (stabilize demo_env 0 demo_solo) =
       ([(''10.0.0.1'', 5000, q)], NeedId s' k) \<and> \<not> socket_alive s' \<and>
     lookup_file (demo_id 5) (fst demo_files) (file_mem s') = Some (Inl UseAfterFree)"
proof -
  have p: "successor demo_solo_node = 0" "request_id (demo_message 7) = 7" "socket_open demo_solo_node"
    "files demo_solo_node = fst demo_files" "nip demo_solo_node = ''10.0.0.1''" "nport demo_solo_node = 5000"
    by (simp_all add: demo_solo_node_def demo_message_def)
  have x: "node_id demo_env (mip (demo_message 7)) (mport (demo_message 7)) = small_id 13"
    using demo_message_id by (simp add: demo_message_def)
  have y: "is_id (node_id demo_env (mip (demo_message 7)) (mport (demo_message 7)))"
    "node_id demo_env (mip (demo_message 7)) (mport (demo_message 7)) \<noteq> nid demo_solo_node"
    unfolding x by (rule small_id_is_id, simp add: demo_solo_node_def small_id_def)
  have f: "files_at (file_mem demo_solo) (files demo_solo_node) (uploaded_files demo_solo_node)
      [demo_entry 3, demo_entry 5, demo_entry 9] []"
    using demo_files_at by (simp add: demo_solo_def demo_solo_node_def)
  from stabilize_on_own_successor_frees_files [OF demo_solo_at p(1-3) y f, where r = 1400 and i = "demo_id 5"]
  show ?thesis unfolding p(4-6) by auto
qed

section \<open>Storing and finding files\<close>

text \<open>What the undetermined parts satisfy: a hash has 20 bytes, arrays have their length.  A
  node's address fits the array it is copied to.\<close>

definition env_ok :: "env \<Rightarrow> bool" where
  "env_ok E \<longleftrightarrow> (\<forall>x. is_id (sha1 E x)) \<and> entry_wf (junk_entry E) \<and> length (mdata (junk_msg E)) = DATA_SIZE \<and>
     (\<forall>p. length (pointer_bytes E p) = POINTER_SIZE)"

definition addr_ok :: "node \<Rightarrow> bool" where
  "addr_ok nd \<longleftrightarrow> length (nip nd) < IP_SIZE \<and> NUL \<notin> set (nip nd) \<and> INT_MIN \<le> nport nd \<and> nport nd \<le> INT_MAX"

lemma env_okD:
  assumes "env_ok E"
  shows "is_id (sha1 E x)" "entry_wf (junk_entry E)" "length (mdata (junk_msg E)) = DATA_SIZE"
    "length (pointer_bytes E p) = POINTER_SIZE" "length (sha1 E x) = HASH_SIZE"
  using assms by (auto simp: env_ok_def is_id_def)

lemma fill_entry_env:
  assumes "env_ok E" and "addr_ok nd"
  obtains e where "fill_entry (junk_entry E) (sha1 E x) filename filepath (nip nd) (nport nd) = Inr e" and "entry_wf e"
    and "fid e = sha1 E x" and "c_str (ffilepath e) = take (MAX_FILEPATH - 1) (c_str filepath)"
    and "c_str (fowner_ip e) = nip nd" and "fowner_port e = nport nd"
  using fill_entry_ok [of "junk_entry E" "sha1 E x" "nip nd" "nport nd" filename filepath] env_okD [OF assms(1)]
    assms(2) unfolding addr_ok_def by metis

lemma demo_env_ok: "env_ok demo_env"
  by (simp add: env_ok_def demo_env_def small_id_is_id demo_transfer)

lemma uploaded_fresh:
  assumes "files_at fm fp up xs ys" and "new_cell e p fm = (a, fm')"
  shows "up \<noteq> Some a"
proof -
  from assms(1) obtain bs where l: "list_at fm up bs ys" "store_wf fm" by (auto simp: files_at_def)
  have a: "a = brk fm" using assms(2) by (simp add: new_cell_def)
  show ?thesis
  proof (cases bs)
    case (Cons b cs)
    then have "up = Some b" "b < brk fm" using l list_at_less [OF l, of b] by (simp_all add: list_at_def)
    then show ?thesis by (simp add: a)
  qed (use l in simp)
qed

text \<open>C33: on a node that is its own successor every stored file is its own: \<open>store_file\<close>
  sends nothing and returns 0, and a later \<open>find_file\<close> of the file's name sends nothing and
  returns the entry with the path and the address it was stored with.\<close>

theorem solo_store_then_find:
  assumes "node_at s n nd nd" and "successor nd = n" and "file_exists E path"
    and "env_ok E" and "addr_ok nd" and "files_at (file_mem s) (files nd) (uploaded_files nd) xs ys"
  shows "\<exists>s1 s2 e. store_file E n path s = Done 0 s1 \<and>
           find_file E n (file_name_of path) s1 = Done (Some e) s2 \<and>
           fid e = sha1 E (file_name_of path) \<and> c_str (ffilepath e) = take 4095 (c_str path) \<and>
           c_str (fowner_ip e) = nip nd \<and> fowner_port e = nport nd"
proof -
  note at = node_atD [OF assms(1)]
  let ?i = "sha1 E (file_name_of path)" and ?b = "node_brk s"
  let ?s0 = "add_node (nip nd) (nport nd) (nid nd) s"
  have ne: "n \<noteq> ?b" using at(6) by simp
  have local: "find_successor E n i t = Done (node_brk t) (add_node (nip nd') (nport nd') (nid nd') t)"
    if "node_at t n nd' nd'" "successor nd' = n" "is_id i" for t nd' i
  proof -
    note at' = node_atD [OF that(1)]
    have "is_in_interval i (nid nd') (nid nd') \<or> memcmp i (nid nd') HASH_SIZE = 0"
      using that(3) at'(4) by (auto simp: is_in_interval_def memcmp_id_num)
    then show ?thesis using at'(1) that(2) copy_successor_at [OF that(1), of E] by (simp add: find_successor_def)
  qed
  obtain e where e: "fill_entry (junk_entry E) ?i (file_name_of path) path (nip nd) (nport nd) = Inr e"
    "fid e = ?i" "c_str (ffilepath e) = take (MAX_FILEPATH - 1) (c_str path)" "c_str (fowner_ip e) = nip nd"
    "fowner_port e = nport nd"
    by (rule fill_entry_env [OF assms(4,5)])
  obtain a fm where nc: "new_cell e (files nd) (file_mem s) = (a, fm)" by fastforce
  let ?nd = "nd\<lparr>files := Some a\<rparr>"
  let ?s1 = "put_node n ?nd (s\<lparr>node_brk := Suc ?b, file_mem := fm\<rparr>)"
  have clear: "(node_mem s)(?b := None) = node_mem s" using at(9) by (simp add: fun_upd_idem)
  have st: "store_file E n path s = Done 0 ?s1"
    using local [OF assms(1,2) env_okD(1) [OF assms(4)]] at(1) ne assms(3) e(1) nc
    by (simp add: store_file_def delete_node_def internal_store_file_def clear add_node_def)
  have at1: "node_at ?s1 n ?nd ?nd"
    using assms(1,2) at(6,8) by (auto simp: node_at_def less_Suc_eq dest: at(8))
  have look: "lookup_file ?i (Some a) fm = Some (Inr (Some a))" "cells fm a = Some \<lparr>content = e, link = files nd\<rparr>"
    using nc e(2) by (auto simp: lookup_file_def scan.simps new_cell_def)
  have ne2: "n \<noteq> Suc ?b" using at(6) by simp
  have "\<exists>s2. find_file E n (file_name_of path) ?s1 = Done (Some e) s2"
    using local [OF at1 _ env_okD(1) [OF assms(4)], of "file_name_of path"] ne2 look assms(2)
    by (simp add: find_file_def delete_node_def read_cell_def add_node_def Let_def)
  then show ?thesis using st e(2-5) by (auto simp: size_defs)
qed

lemma demo_env_simps [simp]:
  "file_exists demo_env x" "sha1 demo_env x = small_id (length x)" "junk_entry demo_env = demo_entry 0"
  "junk_msg demo_env = demo_junk_message"
  by (simp_all add: demo_env_def)

theorem solo_store_then_find_witness:
  "\<exists>s1 s2 e. store_file demo_env 0 ''/home/notes'' demo_solo = Done 0 s1 \<and>
     find_file demo_env 0 ''notes'' s1 = Done (Some e) s2 \<and> c_str (fowner_ip e) = ''10.0.0.1''"
proof -
  have p: "successor demo_solo_node = 0" "addr_ok demo_solo_node" "nip demo_solo_node = ''10.0.0.1''"
    by (simp_all add: demo_solo_node_def addr_ok_def IP_SIZE_def)
  have f: "files_at (file_mem demo_solo) (files demo_solo_node) (uploaded_files demo_solo_node)
      [demo_entry 3, demo_entry 5, demo_entry 9] []"
    using demo_files_at by (simp add: demo_solo_def demo_solo_node_def)
  have "file_name_of ''/home/notes'' = ''notes''" by code_simp
  then show ?thesis
    using solo_store_then_find [OF demo_solo_at p(1) demo_env_simps(1) demo_env_ok p(2) f, of "''/home/notes''"] p(3)
    by auto
qed

text \<open>C37: a file whose key belongs to the successor is lost.  The user's \<open>store\<close> command
  sends one STORE_FILE message to the successor and, once it is sent, reports success and lists the
  file as uploaded; but no node has a handler for STORE_FILE: whoever receives the message changes
  nothing and answers nothing.\<close>

theorem remote_store_is_lost:
  assumes "node_at s n nd sd" and "path = scan_word 511 ''store'' cmd" and "path \<noteq> []" and "file_exists E path"
    and "env_ok E" and "addr_ok nd" and "files_at (file_mem s) (files nd) (uploaded_files nd) xs ys"
    and "nid nd \<noteq> nid sd" and "successor nd \<noteq> n" and "0 \<le> r"
    and "in_arc (id_num (sha1 E (file_name_of path))) (id_num (nid nd)) (id_num (nid sd))"
  shows "\<exists>q s' nd' e. exec [Fresh rid, Result r] (user_store E n cmd s) =
             ([(take 15 (nip sd), nport sd, q)], Done ([''File stored successfully''], True) s') \<and>
           mtype q = MSG_STORE_FILE \<and> node_mem s' n = Some nd' \<and> files nd' = files nd \<and>
           uploaded_files nd' = Some e \<and> uploaded_files nd' \<noteq> uploaded_files nd \<and>
           (\<forall>E2 n2 t. handle_requests E2 n2 q t = Done () t)"
proof -
  note at = node_atD [OF assms(1)]
  let ?f = "file_name_of path" and ?b = "node_brk s"
  have ne: "n \<noteq> ?b" "successor nd \<noteq> ?b" using at(6,7) by auto
  have "is_in_interval (sha1 E ?f) (nid nd) (nid sd)"
    using is_in_interval_iff [OF env_okD(1) [OF assms(5)] at(4,5)] assms(11) by simp
  then have fs: "find_successor E n (sha1 E ?f) s = Done ?b (add_node (nip sd) (nport sd) (nid sd) s)"
    using at(1,2) copy_successor_at [OF assms(1), of E] by (simp add: find_successor_def)
  have id_ne: "memcmp (nid nd) (nid sd) HASH_SIZE \<noteq> 0"
    using assms(8) at(4,5) by (simp add: memcmp_eq_0 is_id_def)
  have "0 < DATA_SIZE" by (simp add: DATA_SIZE_val)
  then obtain d where d: "strncpy_term (mdata (junk_msg E)) path DATA_SIZE = Inr d"
    using strncpy_term_ok [OF env_okD(3) [OF assms(5)]] by metis
  obtain e where e: "fill_entry (junk_entry E) (sha1 E ?f) ?f path (nip nd) (nport nd) = Inr e"
    by (rule fill_entry_env [OF assms(5,6)])
  obtain a fm where nc: "new_cell e (uploaded_files nd) (file_mem s) = (a, fm)" by fastforce
  have fresh: "uploaded_files nd \<noteq> Some a" by (rule uploaded_fresh [OF assms(7) nc])
  have sf: "exec [Fresh rid, Result r] (user_store E n cmd s) =
      ([(take 15 (nip sd), nport sd,
         (new_message E MSG_STORE_FILE (sha1 E ?f) (nip nd) (nport nd) rid)\<lparr>mdata := d\<rparr>)],
       Done ([''File stored successfully''], True)
         (put_node n (nd\<lparr>uploaded_files := Some a\<rparr>)
           (add_node (nip sd) (nport sd) (nid sd) s\<lparr>node_mem := node_mem s, file_mem := fm\<rparr>)))"
    using fs at(1,9) ne id_ne assms(2,3,4,10) d e nc
    by (simp add: user_store_def store_file_def delete_node_def confirm_file_stored_def Let_def fun_upd_idem)
  show ?thesis
    unfolding sf using fresh
    by (simp add: handle_requests_def new_message_def msg_types)
qed

lemma demo_proc_files:
  "files_at (file_mem (demo_proc p q)) (files (demo_node p)) (uploaded_files (demo_node p)) [] []"
  "addr_ok (demo_node p)" "successor (demo_node p) \<noteq> 0"
  by (simp_all add: demo_proc_def demo_node_def empty_proc_def addr_ok_def IP_SIZE_def)

lemma demo_key_arc:
  assumes "length name = 5"
  shows "in_arc (id_num (sha1 demo_env name)) (id_num (nid (demo_node 3)))
           (id_num (nid (new_node ''10.0.0.2'' 5001 (small_id 9) 1)))"
  using assms by (simp add: demo_node_def small_id_num in_arc_def clockwise_def ring_size_def)

lemma demo_ids_differ: "nid (demo_node 3) \<noteq> nid (new_node ''10.0.0.2'' 5001 (small_id 9) 1)"
  by (simp add: demo_node_def small_id_def)

theorem remote_store_is_lost_witness:
  "\<exists>q s'. exec [Fresh 7, Result 1400] (user_store demo_env 0 ''store a/files'' (demo_proc 3 9)) =
      ([(''10.0.0.2'', 5001, q)], Done ([''File stored successfully''], True) s') \<and> mtype q = MSG_STORE_FILE \<and>
      handle_requests demo_env 0 q demo_solo = Done () demo_solo"
proof -
  have p: "''a/files'' = scan_word 511 ''store'' ''store a/files''" by code_simp
  have "file_name_of ''a/files'' = ''files''" by code_simp
  then have arc: "in_arc (id_num (sha1 demo_env (file_name_of ''a/files''))) (id_num (nid (demo_node 3)))
      (id_num (nid (new_node ''10.0.0.2'' 5001 (small_id 9) 1)))"
    by (intro demo_key_arc) simp
  from remote_store_is_lost [OF demo_proc_at p _ demo_env_simps(1) demo_env_ok demo_proc_files(2,1)
      demo_ids_differ demo_proc_files(3) _ arc, of 1400 7]
  show ?thesis by auto
qed

text \<open>\<open>find_file\<close> of a file whose key belongs to the successor never answers.  It sends
  one FIND_FILE message and waits for a reply with its number; no node has a handler for
  FIND_FILE: whoever receives it changes nothing and sends nothing.\<close>

lemma remote_find_is_not_answered:
  assumes "node_at s n nd sd" and "env_ok E" and "nid nd \<noteq> nid sd" and "successor nd \<noteq> n"
    and "in_arc (id_num (sha1 E name)) (id_num (nid nd)) (id_num (nid sd))"
  shows "\<exists>q s' k. exec [Fresh rid, Result r] (find_file E n name s) =
             ([(take 15 (nip sd), nport sd, q)], Waiting ReplyQueue rid s' k) \<and>
           mtype q = MSG_FIND_FILE \<and> request_id q = rid \<and>
           (\<forall>E2 n2 t. handle_requests E2 n2 q t = Done () t)"
proof -
  note at = node_atD [OF assms(1)]
  let ?b = "node_brk s"
  have ne: "n \<noteq> ?b" "successor nd \<noteq> ?b" using at(6,7) by auto
  have "is_in_interval (sha1 E name) (nid nd) (nid sd)"
    using is_in_interval_iff [OF env_okD(1) [OF assms(2)] at(4,5)] assms(5) by simp
  then have fs: "find_successor E n (sha1 E name) s = Done ?b (add_node (nip sd) (nport sd) (nid sd) s)"
    using at(1,2) copy_successor_at [OF assms(1), of E] by (simp add: find_successor_def)
  have id_ne: "memcmp (nid nd) (nid sd) HASH_SIZE \<noteq> 0"
    using assms(3) at(4,5) by (simp add: memcmp_eq_0 is_id_def)
  have "0 < DATA_SIZE" by (simp add: DATA_SIZE_val)
  then obtain d where d: "strncpy_term (mdata (junk_msg E)) name DATA_SIZE = Inr d"
    using strncpy_term_ok [OF env_okD(3) [OF assms(2)]] by metis
  show ?thesis
    using fs at(1) ne id_ne d
    by (simp add: find_file_def delete_node_def Let_def handle_requests_def new_message_def msg_types)
qed

lemma remote_find_is_not_answered_demo:
  "\<exists>q s' k. exec [Fresh 7, Result 1400] (find_file demo_env 0 ''files'' (demo_proc 3 9)) =
      ([(''10.0.0.2'', 5001, q)], Waiting ReplyQueue 7 s' k) \<and>
      handle_requests demo_env 0 q demo_solo = Done () demo_solo"
proof -
  have arc: "in_arc (id_num (sha1 demo_env ''files'')) (id_num (nid (demo_node 3)))
      (id_num (nid (new_node ''10.0.0.2'' 5001 (small_id 9) 1)))"
    by (rule demo_key_arc) simp
  from remote_find_is_not_answered [OF demo_proc_at demo_env_ok demo_ids_differ demo_proc_files(3) arc, of 7 1400]
  show ?thesis by auto
qed

end
