(* ===== verification/Chord_System.thy ===== *)
theory Chord_System
  imports Chord_Behaviour Machine
begin

text \<open>
  What the threads of a Chord process guarantee to each other: the invariant \<open>quiet\<close> of the
  process's memory, and the predicate \<open>keeps\<close> on operations, which relies on \<open>quiet\<close> at every
  point where other threads may have run and establishes it there.  Every operation keeps it
  (the lemmas \<open>keeps_...\<close>), whatever the other threads do within it.
\<close>

section \<open>Identifiers of requests\<close>

text \<open>\<open>generate_id\<close> is used for one request: the history of the issued numbers records with each
  the type of the message it was taken for.\<close>

type_synonym issued = "32 word \<rightharpoonup> string"

definition kind_of :: "'a outcome \<Rightarrow> string" where
  "kind_of out = (case out of Sending ip port m s k \<Rightarrow> mtype m | _ \<Rightarrow> [])"

definition sends_next :: "'a outcome \<Rightarrow> bool" where
  "sends_next out =
     (case out of Done x s \<Rightarrow> False | Waiting q rid s k \<Rightarrow> False | NeedId s k \<Rightarrow> False
      | Receiving rid b n s k \<Rightarrow> False | _ \<Rightarrow> True)"

lemma sends_next_bind:
  "sends_next out \<Longrightarrow> sends_next (bind out f) \<and> kind_of (bind out f) = kind_of out"
  by (cases out) (simp_all add: sends_next_def kind_of_def)

section \<open>Rely and guarantee\<close>

text \<open>What every thread of a process relies on and keeps: the process's own node is in memory,
  without predecessor, all fingers are the node itself, only numbers of join requests wait in the
  reply queue; where \<open>solo\<close> holds the node is its own successor.\<close>

definition quiet :: "nat \<Rightarrow> bool \<Rightarrow> issued \<Rightarrow> proc \<Rightarrow> bool" where
  "quiet n solo iss s \<longleftrightarrow>
     self s = n \<and> n < node_brk s \<and>
     (\<exists>nd. node_mem s n = Some nd \<and> predecessor nd = None \<and> finger nd = replicate M (Some n) \<and>
        (solo \<longrightarrow> successor nd = n)) \<and>
     (\<exists>as ms. queue_at (reply_queue s) as ms \<and> (\<forall>m \<in> set ms. iss (request_id m) = Some MSG_JOIN))"

definition may_send :: "issued \<Rightarrow> message \<Rightarrow> bool" where
  "may_send iss m \<longleftrightarrow>
     mtype m \<noteq> MSG_NOTIFY \<and> mtype m \<noteq> MSG_FIND_SUCCESSOR \<and>
     (mtype m = MSG_JOIN \<or> mtype m = MSG_REPLY \<longrightarrow> iss (request_id m) = Some MSG_JOIN) \<and>
     (mtype m = MSG_STABILIZE \<longrightarrow> iss (request_id m) = Some MSG_STABILIZE)"

primrec keeps :: "nat \<Rightarrow> bool \<Rightarrow> ('a \<Rightarrow> bool) \<Rightarrow> 'a outcome \<Rightarrow> issued \<Rightarrow> bool" where
  "keeps n b P (Done x s) = (\<lambda>iss. quiet n b iss s \<and> P x)"
| "keeps n b P (Crashed e) = (\<lambda>iss. True)"
| "keeps n b P Diverges = (\<lambda>iss. True)"
| "keeps n b P Exited = (\<lambda>iss. True)"
| "keeps n b P (Sending ip port m s k) = (\<lambda>iss. quiet n b iss s \<and> may_send iss m \<and>
     (\<forall>iss' r s'. iss \<subseteq>\<^sub>m iss' \<and> quiet n b iss' s' \<longrightarrow> keeps n b P (k r s') iss'))"
| "keeps n b P (Waiting q rid s k) = (\<lambda>iss. quiet n b iss s \<and>
     (\<forall>iss' m s'. iss \<subseteq>\<^sub>m iss' \<and> quiet n b iss' s' \<and> (q = ReplyQueue \<longrightarrow> iss' rid = Some MSG_JOIN) \<longrightarrow>
        keeps n b P (k m s') iss'))"
| "keeps n b P (NeedId s k) = (\<lambda>iss. quiet n b iss s \<and>
     (\<forall>iss' i s'. iss \<subseteq>\<^sub>m iss' \<and> iss' i = None \<and> quiet n b iss' s' \<longrightarrow>
        sends_next (k i s') \<and> keeps n b P (k i s') (iss'(i \<mapsto> kind_of (k i s')))))"
| "keeps n b P (Receiving rid buf len s k) = (\<lambda>iss. quiet n b iss s \<and>
     (\<forall>iss' m buf' len' s'. iss \<subseteq>\<^sub>m iss' \<and> quiet n b iss' s' \<longrightarrow> keeps n b P (k m buf' len' s') iss'))"

lemma map_le_upd_None: "iss i = None \<Longrightarrow> iss \<subseteq>\<^sub>m iss(i \<mapsto> t)"
  by (auto simp: map_le_def)

lemma map_le_Some: "iss \<subseteq>\<^sub>m iss' \<Longrightarrow> iss i = Some t \<Longrightarrow> iss' i = Some t"
  by (auto simp: map_le_def dom_def)

lemma quiet_mono: "quiet n b iss s \<Longrightarrow> iss \<subseteq>\<^sub>m iss' \<Longrightarrow> quiet n b iss' s"
  unfolding quiet_def by (meson map_le_Some)

lemma may_send_mono: "may_send iss m \<Longrightarrow> iss \<subseteq>\<^sub>m iss' \<Longrightarrow> may_send iss' m"
  by (auto simp: may_send_def map_le_Some)

lemma keeps_mono: "keeps n b P out iss \<Longrightarrow> iss \<subseteq>\<^sub>m iss' \<Longrightarrow> keeps n b P out iss'"
proof (cases out)
  case (Sending ip port m s k)
  assume "keeps n b P out iss" "iss \<subseteq>\<^sub>m iss'"
  with Sending show ?thesis by (simp, meson map_le_trans quiet_mono may_send_mono)
next
  case (Waiting q rid s k)
  assume "keeps n b P out iss" "iss \<subseteq>\<^sub>m iss'"
  with Waiting show ?thesis by (simp, meson map_le_trans quiet_mono)
next
  case (NeedId s k)
  assume "keeps n b P out iss" "iss \<subseteq>\<^sub>m iss'"
  with NeedId show ?thesis by (simp, meson map_le_trans quiet_mono)
next
  case (Receiving rid buf len s k)
  assume "keeps n b P out iss" "iss \<subseteq>\<^sub>m iss'"
  with Receiving show ?thesis by (simp, meson map_le_trans quiet_mono)
qed (auto intro: quiet_mono)

lemma keeps_bind:
  assumes "keeps n b P out iss"
    and "\<And>x s iss'. P x \<Longrightarrow> iss \<subseteq>\<^sub>m iss' \<Longrightarrow> quiet n b iss' s \<Longrightarrow> keeps n b Q (f x s) iss'"
  shows "keeps n b Q (bind out f) iss"
  using assms
proof (induction out arbitrary: iss)
  case (Done x s)
  then show ?case by auto
next
  case (Sending ip port m s k)
  have "keeps n b Q (bind (k r s') f) iss'" if "iss \<subseteq>\<^sub>m iss'" "quiet n b iss' s'" for iss' r s'
    by (rule Sending.IH [OF rangeI rangeI])
      (use Sending.prems(1) that in simp, rule Sending.prems(2), assumption, use that in \<open>blast intro: map_le_trans\<close>, assumption)
  then show ?case using Sending.prems(1) by simp
next
  case (Waiting q rid s k)
  have "keeps n b Q (bind (k m s') f) iss'"
    if "iss \<subseteq>\<^sub>m iss'" "quiet n b iss' s'" "q = ReplyQueue \<longrightarrow> iss' rid = Some MSG_JOIN" for iss' m s'
    by (rule Waiting.IH [OF rangeI rangeI])
      (use Waiting.prems(1) that in simp, rule Waiting.prems(2), assumption, use that in \<open>blast intro: map_le_trans\<close>, assumption)
  then show ?case using Waiting.prems(1) by simp
next
  case (NeedId s k)
  have "sends_next (bind (k i s') f) \<and> keeps n b Q (bind (k i s') f) (iss'(i \<mapsto> kind_of (bind (k i s') f)))"
    if a: "iss \<subseteq>\<^sub>m iss'" "iss' i = None" "quiet n b iss' s'" for iss' i s'
  proof -
    have k: "sends_next (k i s')" "keeps n b P (k i s') (iss'(i \<mapsto> kind_of (k i s')))"
      using conjunct2 [OF NeedId.prems(1) [unfolded keeps.simps], rule_format, of iss' i s'] a
      by (simp_all only: simp_thms)
    have le: "iss \<subseteq>\<^sub>m iss'(i \<mapsto> kind_of (k i s'))"
      by (rule map_le_trans [OF a(1) map_le_upd_None [where iss = iss', OF a(2)]])
    have "keeps n b Q (bind (k i s') f) (iss'(i \<mapsto> kind_of (k i s')))"
      by (rule NeedId.IH [OF rangeI rangeI k(2)], rule NeedId.prems(2), assumption)
        (use le in \<open>blast intro: map_le_trans\<close>, assumption)
    then show ?thesis using sends_next_bind [OF k(1), of f] by simp
  qed
  moreover have "quiet n b iss s" using NeedId.prems(1) by simp
  ultimately show ?case unfolding bind.simps keeps.simps by blast
next
  case (Receiving rid buf len s k)
  have "keeps n b Q (bind (k m buf' len' s') f) iss'" if "iss \<subseteq>\<^sub>m iss'" "quiet n b iss' s'" for iss' m buf' len' s'
    by (rule Receiving.IH [OF rangeI rangeI rangeI rangeI])
      (use Receiving.prems(1) that in simp, rule Receiving.prems(2), assumption, use that in \<open>blast intro: map_le_trans\<close>, assumption)
  then show ?case using Receiving.prems(1) by simp
qed simp_all

section \<open>Steps that keep a process quiet\<close>

lemma keeps_with_node:
  "(\<And>nd. node_mem s a = Some nd \<Longrightarrow> keeps n b P (f nd) iss) \<Longrightarrow> keeps n b P (with_node a s f) iss"
  by (cases "node_mem s a") (simp_all add: with_node_def)

lemma quietE:
  assumes "quiet n b iss s"
  obtains nd where "self s = n" and "n < node_brk s" and "node_mem s n = Some nd" and "predecessor nd = None"
    and "finger nd = replicate M (Some n)" and "b \<longrightarrow> successor nd = n"
  using assms unfolding quiet_def by blast

lemma quiet_add_node: "quiet n b iss s \<Longrightarrow> quiet n b iss (add_node ip port i s)"
  by (auto simp: quiet_def)

lemma quiet_put_node:
  assumes "quiet n b iss s" and "predecessor nd = None" and "finger nd = replicate M (Some n)"
    and "b \<longrightarrow> successor nd = n"
  shows "quiet n b iss (put_node n nd s)"
  using assms by (auto simp: quiet_def)

lemma quiet_file_mem [simp]: "quiet n b iss (s\<lparr>file_mem := fm\<rparr>) = quiet n b iss s"
  "quiet n b iss (s\<lparr>outdir := d\<rparr>) = quiet n b iss s"
  "quiet n b iss (s\<lparr>download_queue := dq\<rparr>) = quiet n b iss s"
  by (simp_all add: quiet_def)

lemma quiet_delete: "quiet n b iss s \<Longrightarrow> a \<noteq> n \<Longrightarrow> quiet n b iss (s\<lparr>node_mem := (node_mem s)(a := None)\<rparr>)"
  by (auto simp: quiet_def)

lemma keeps_delete_node:
  assumes "quiet n b iss s" and "a \<noteq> n" and "\<And>s'. quiet n b iss s' \<Longrightarrow> keeps n b P (f s') iss"
  shows "keeps n b P (delete_node (Some a) s f) iss"
  unfolding delete_node_def option.case
  by (rule keeps_with_node) (rule assms(3) [OF quiet_delete [OF assms(1,2)]])

lemma keeps_send:
  assumes "quiet n b iss s" and "may_send iss m"
    and "\<And>iss' r s'. iss \<subseteq>\<^sub>m iss' \<Longrightarrow> quiet n b iss' s' \<Longrightarrow> keeps n b P (k r s') iss'"
  shows "keeps n b P (Sending ip port m s k) iss"
  using assms by simp

text \<open>A request: the number is taken and the message sent with it.\<close>

lemma keeps_request:
  assumes "quiet n b iss s"
    and "\<And>i s'. sends_next (k i s')"
    and "\<And>iss' i s'. iss \<subseteq>\<^sub>m iss' \<Longrightarrow> iss' i = Some (kind_of (k i s')) \<Longrightarrow> quiet n b iss' s' \<Longrightarrow>
           keeps n b P (k i s') iss'"
  shows "keeps n b P (NeedId s k) iss"
proof -
  have "keeps n b P (k i s') (iss'(i \<mapsto> kind_of (k i s')))"
    if a: "iss \<subseteq>\<^sub>m iss'" "iss' i = None" "quiet n b iss' s'" for iss' i s'
  proof (rule assms(3))
    have le: "iss' \<subseteq>\<^sub>m iss'(i \<mapsto> kind_of (k i s'))" by (rule map_le_upd_None [where iss = iss', OF a(2)])
    show "iss \<subseteq>\<^sub>m iss'(i \<mapsto> kind_of (k i s'))" by (rule map_le_trans [OF a(1) le])
    show "quiet n b (iss'(i \<mapsto> kind_of (k i s'))) s'" by (rule quiet_mono [OF a(3) le])
  qed simp
  then show ?thesis using assms(1,2) unfolding keeps.simps by blast
qed

text \<open>A reply is waited for under a number that was not taken for a join.\<close>

lemma keeps_unanswered:
  assumes "quiet n b iss s" and "iss i = Some t" and "t \<noteq> MSG_JOIN"
  shows "keeps n b P (Waiting ReplyQueue i s k) iss"
proof -
  have "iss' i \<noteq> Some MSG_JOIN" if "iss \<subseteq>\<^sub>m iss'" for iss'
    using map_le_Some [where iss = iss, OF that assms(2)] assms(3) by simp
  then show ?thesis using assms(1) unfolding keeps.simps by blast
qed

lemma sends_next_simps [simp]:
  "sends_next (Sending ip port m s k)" "sends_next (Crashed e)" "sends_next Diverges"
  "kind_of (Sending ip port m s k) = mtype m"
  by (simp_all add: sends_next_def kind_of_def)

lemma sends_next_with_node: "(\<And>nd. sends_next (f nd)) \<Longrightarrow> sends_next (with_node a s f)"
  by (cases "node_mem s a") (simp_all add: with_node_def)

section \<open>Searches\<close>

lemma closest_loop_self:
  "finger nd = replicate M (Some n) \<Longrightarrow> node_mem s n = Some nd \<Longrightarrow> k \<le> M \<Longrightarrow> closest_loop s nd n i k = Inr n"
  by (induction k) (simp_all add: not_in_interval_from_self)

lemma keeps_copy_successor:
  assumes "quiet n b iss s"
  shows "keeps n b (\<lambda>a. a \<noteq> n) (copy_successor E n s) iss"
proof -
  obtain nd where "n < node_brk s" by (rule quietE [OF assms])
  then show ?thesis
    unfolding copy_successor_def create_node_with_id_eq
    by (intro keeps_with_node) (simp add: quiet_add_node [OF assms])
qed

lemma keeps_find_successor:
  assumes "quiet n b iss s"
  shows "keeps n b (\<lambda>a. a \<noteq> n) (find_successor E n i s) iss"
proof -
  obtain nd where nd: "node_mem s n = Some nd" "finger nd = replicate M (Some n)" by (rule quietE [OF assms])
  then have "closest_preceding_node n i s = Inr n"
    by (simp add: closest_preceding_node_def closest_loop_self)
  then show ?thesis
    unfolding find_successor_def using keeps_copy_successor [OF assms]
    by (intro keeps_with_node) (simp add: find_successor_remote_def)
qed

section \<open>The node thread\<close>

text \<open>A round does not get past \<open>stabilize\<close>, whose request is not answered.\<close>

lemma keeps_stabilize:
  assumes "quiet n b iss s"
  shows "keeps n b (\<lambda>_. False) (stabilize E n s) iss"
  unfolding stabilize_def
proof (rule keeps_request [OF assms], goal_cases)
  case (1 i s')
  show ?case by (intro sends_next_with_node) simp
next
  case req: (2 iss' i s')
  show ?case
  proof (rule keeps_with_node, rule keeps_with_node, goal_cases)
    case (1 nd sd)
    then have i: "iss' i = Some MSG_STABILIZE" using req(2) by simp
    show ?case
    proof (rule keeps_send [OF req(3)], goal_cases)
      case 1
      show ?case using i by (simp add: may_send_def msg_types)
    next
      case (2 iss'' r s'')
      show ?case
        by (rule keeps_unanswered [OF 2(2) map_le_Some [where iss = iss', OF 2(1) i]]) (simp add: msg_types)
    qed
  qed
qed

lemma keeps_node_round: "quiet n b iss s \<Longrightarrow> keeps n b (\<lambda>_. False) (node_round E n next s) iss"
  unfolding node_round_def by (rule keeps_bind [OF keeps_stabilize]) simp_all

section \<open>The listener\<close>

lemma keeps_reply:
  assumes "quiet n b iss s" and "iss (request_id msg) = Some MSG_JOIN"
    and "\<And>iss' s'. iss \<subseteq>\<^sub>m iss' \<Longrightarrow> quiet n b iss' s' \<Longrightarrow> keeps n b P (f s') iss'"
  shows "keeps n b P (reply_with_successor E msg a s f) iss"
  unfolding reply_with_successor_def
  by (rule keeps_with_node, rule keeps_send [OF assms(1)])
    (use assms(2,3) in \<open>simp_all add: may_send_def msg_types\<close>)

lemma keeps_handle_join:
  assumes "quiet n b iss s" and "iss (request_id msg) = Some MSG_JOIN"
  shows "keeps n b (\<lambda>_. True) (handle_join E n msg s) iss"
proof -
  let ?s1 = "add_node (mip msg) (mport msg) (node_id E (mip msg) (mport msg)) s"
  have new: "node_brk s \<noteq> n" by (rule quietE [OF assms(1)]) simp
  have q: "quiet n b iss ?s1" by (rule quiet_add_node [OF assms(1)])
  have "keeps n b (\<lambda>_. True) (with_node (node_brk s) ?s1 (\<lambda>newd.
        bind (find_successor E n (nid newd) ?s1) (\<lambda>succ s'.
          reply_with_successor E msg succ s' (\<lambda>s'.
            delete_node (Some (node_brk s)) s' (\<lambda>s'. delete_node (Some succ) s' (\<lambda>s'. Done () s')))))) iss"
  proof (rule keeps_with_node, rule keeps_bind [OF keeps_find_successor [OF q]], goal_cases)
    case (1 nd a s' iss')
    show ?case
    proof (rule keeps_reply [OF 1(4)], goal_cases)
      case 1
      show ?case by (rule map_le_Some [where iss = iss, OF \<open>iss \<subseteq>\<^sub>m iss'\<close> assms(2)])
    next
      case (2 iss'' s'')
      show ?case
        by (rule keeps_delete_node [OF 2(2) new], rule keeps_delete_node [OF _ \<open>a \<noteq> n\<close>]) simp_all
    qed
  qed
  then show ?thesis by (simp add: handle_join_def create_node_eq)
qed

lemma keeps_send_all:
  assumes "\<And>iss' s'. iss \<subseteq>\<^sub>m iss' \<Longrightarrow> quiet n b iss' s' \<Longrightarrow> keeps n b P (f s') iss'"
  shows "quiet n b iss s \<Longrightarrow> \<forall>m \<in> set ms. mtype m = MSG_FILE_DATA \<or> mtype m = MSG_FILE_END \<Longrightarrow>
    keeps n b P (send_all ip port ms s f) iss"
  using assms
proof (induction ms arbitrary: s iss)
  case Nil
  then show ?case by simp
next
  case (Cons m ms)
  show ?case
    unfolding send_all.simps
  proof (rule keeps_send [OF Cons.prems(1)], goal_cases)
    case 1
    show ?case using Cons.prems(2) by (auto simp: may_send_def msg_types)
  next
    case (2 iss' r s')
    show ?case
      by (rule Cons.IH [OF 2(2)])
        (use Cons.prems(2) in simp, rule Cons.prems(3), rule map_le_trans [OF 2(1)], assumption+)
  qed
qed

lemma send_segments_types:
  "send_segments buf data_size chunks i k r0 = Inr (ms, r) \<Longrightarrow> \<forall>m \<in> set ms. mtype m = mtype r0"
proof (induction k arbitrary: i r0 ms r)
  case (Suc k)
  from Suc.prems obtain bs d ms' where m: "ms = r0\<lparr>segment_index := of_nat i, total_segments := of_nat chunks,
        mdata := d, data_len := bs\<rparr> # ms'" and
    s: "send_segments buf data_size chunks (Suc i) k (r0\<lparr>segment_index := of_nat i, total_segments := of_nat chunks,
        mdata := d, data_len := bs\<rparr>) = Inr (ms', r)"
    by (auto simp: Let_def split: sum.splits prod.splits)
  from Suc.IH [OF s] m show ?case by simp
qed simp

lemma file_segments_types:
  assumes "file_segments jm rid i buf len = Inr ms"
  shows "\<forall>m \<in> set ms. mtype m = MSG_FILE_DATA \<or> mtype m = MSG_FILE_END"
proof -
  from assms obtain ss r d where s: "send_segments buf len ((len + DATA_SIZE - 1) div DATA_SIZE) 0
      ((len + DATA_SIZE - 1) div DATA_SIZE) (jm\<lparr>request_id := rid, mid := i, mtype := MSG_FILE_DATA\<rparr>) = Inr (ss, r)"
    and ms: "ms = ss @ [r\<lparr>mtype := MSG_FILE_END, mdata := d, data_len := 0\<rparr>]"
    by (auto simp: file_segments_def Let_def split: sum.splits prod.splits)
  from send_segments_types [OF s] ms show ?thesis by simp
qed

text \<open>Changing the lists of files of the node.\<close>

definition quiet_node :: "nat \<Rightarrow> bool \<Rightarrow> node \<Rightarrow> bool" where
  "quiet_node n b nd \<longleftrightarrow>
     predecessor nd = None \<and> finger nd = replicate M (Some n) \<and> (b \<longrightarrow> successor nd = n)"

lemma quiet_nodeI: "quiet n b iss s \<Longrightarrow> node_mem s n = Some nd \<Longrightarrow> quiet_node n b nd"
  by (auto simp: quiet_def quiet_node_def)

lemma quiet_put: "quiet n b iss s \<Longrightarrow> quiet_node n b nd \<Longrightarrow> quiet n b iss (put_node n nd s)"
  by (simp add: quiet_put_node quiet_node_def)

lemma quiet_node_files [simp]:
  "quiet_node n b (nd\<lparr>files := p\<rparr>) = quiet_node n b nd"
  "quiet_node n b (nd\<lparr>uploaded_files := p\<rparr>) = quiet_node n b nd"
  by (simp_all add: quiet_node_def)

lemma keeps_files:
  assumes "quiet n b iss s" and "quiet_node n b nd" and "Q x"
  shows "keeps n b Q (Done x (put_node n (nd\<lparr>files := p\<rparr>) (s\<lparr>file_mem := fm\<rparr>))) iss"
    and "keeps n b Q (Done x (put_node n (nd\<lparr>uploaded_files := p\<rparr>) (s\<lparr>file_mem := fm\<rparr>))) iss"
  using assms by (simp_all add: quiet_put)

lemma keeps_handle_get_files:
  assumes "quiet n b iss s"
  shows "keeps n b (\<lambda>_. True) (handle_get_files E n msg s) iss"
  unfolding handle_get_files_def
proof (rule keeps_with_node, goal_cases)
  case (1 nd)
  let ?ser = "serialize_file_entries (pointer_bytes E) (junk_byte E) (replicate 4096 (junk_byte E)) 4096
              (files nd) (mid msg) (nid nd) (file_mem s)"
  have last: "keeps n b (\<lambda>_. True) (with_node n s' (\<lambda>nd.
                  case delete_transferred_files (files nd) (mid msg) (nid nd) (file_mem s') of
                    None \<Rightarrow> Diverges
                  | Some (Inl e) \<Rightarrow> Crashed e
                  | Some (Inr (p, fm)) \<Rightarrow> Done () (put_node n (nd\<lparr>files := p\<rparr>) (s'\<lparr>file_mem := fm\<rparr>)))) iss'"
    if "quiet n b iss' s'" for iss' s'
    by (rule keeps_with_node)
      (auto split: option.splits sum.splits simp del: keeps.simps(1)
        intro!: keeps_files(1) [OF that] quiet_nodeI [OF that])
  show ?case
  proof (cases ?ser)
    case (Some r)
    show ?thesis
    proof (cases r)
      case (Inr pr)
      obtain buf len where pr: "pr = (buf, len)" by (cases pr)
      show ?thesis
      proof (cases "file_segments (junk_msg E) (request_id msg) (nid nd) buf len")
        case ms: (Inr ms)
        show ?thesis
          unfolding Some Inr pr ms option.case sum.case prod.case
          by (rule keeps_send_all [OF _ assms file_segments_types [OF ms]]) (rule last)
      qed (simp add: Some Inr pr)
    qed (simp add: Some)
  qed simp
qed

lemma keeps_handle_stabilize:
  assumes "quiet n b iss s"
  shows "keeps n b (\<lambda>_. True) (handle_stabilize E n msg s) iss"
proof -
  obtain nd where "node_mem s n = Some nd" "predecessor nd = None" by (rule quietE [OF assms])
  then show ?thesis using assms by (simp add: handle_stabilize_def)
qed

lemma quiet_reply_queue:
  "quiet n b iss s \<Longrightarrow> queue_at q as ms \<Longrightarrow> \<forall>m \<in> set ms. iss (request_id m) = Some MSG_JOIN \<Longrightarrow>
   quiet n b iss (s\<lparr>reply_queue := q\<rparr>)"
  by (auto simp: quiet_def)

lemma keeps_if:
  "(c \<Longrightarrow> keeps n b P x iss) \<Longrightarrow> (\<not> c \<Longrightarrow> keeps n b P y iss) \<Longrightarrow> keeps n b P (if c then x else y) iss"
  by simp

lemma keeps_push_reply:
  assumes "quiet n b iss s" and "iss (request_id msg) = Some MSG_JOIN"
  shows "keeps n b (\<lambda>_. True) (push_reply msg s) iss"
proof -
  from assms(1) obtain as ms where q: "queue_at (reply_queue s) as ms" "\<forall>m \<in> set ms. iss (request_id m) = Some MSG_JOIN"
    unfolding quiet_def by blast
  from push_message_at [OF q(1), of msg] obtain q' where "push_message msg (reply_queue s) = Inr q'"
    "queue_at q' (as @ [brk (qmem (reply_queue s))]) (ms @ [msg])" .
  moreover have "\<forall>m \<in> set (ms @ [msg]). iss (request_id m) = Some MSG_JOIN" using q(2) assms(2) by simp
  ultimately show ?thesis using quiet_reply_queue [OF assms(1)] by (simp add: push_reply_def)
qed

lemma keeps_handle_requests:
  assumes "quiet n b iss s" and "may_send iss msg"
  shows "keeps n b (\<lambda>_. True) (handle_requests E n msg s) iss"
proof -
  have t: "mtype msg \<noteq> MSG_NOTIFY" "mtype msg \<noteq> MSG_FIND_SUCCESSOR"
    "mtype msg = MSG_JOIN \<or> mtype msg = MSG_REPLY \<Longrightarrow> iss (request_id msg) = Some MSG_JOIN"
    using assms(2) by (simp_all add: may_send_def)
  have d: "keeps n b (\<lambda>_. True) (push_download msg s) iss"
    using assms(1) by (simp add: push_download_def split: sum.splits)
  show ?thesis
    unfolding handle_requests_def
    by (intro keeps_if d keeps_push_reply [OF assms(1)] keeps_handle_join [OF assms(1)]
        keeps_handle_get_files [OF assms(1)] keeps_handle_stabilize [OF assms(1)] t(3))
      (use t assms(1) in simp_all)
qed

section \<open>Joining and creating a ring\<close>

lemma keeps_wait:
  assumes "quiet n b iss s"
    and "\<And>iss' m s'. iss \<subseteq>\<^sub>m iss' \<Longrightarrow> quiet n b iss' s' \<Longrightarrow> keeps n b P (k m s') iss'"
  shows "keeps n b P (Waiting q rid s k) iss"
  using assms by simp

lemma keeps_receiving:
  assumes "quiet n b iss s"
    and "\<And>iss' m buf' len' s'. iss \<subseteq>\<^sub>m iss' \<Longrightarrow> quiet n b iss' s' \<Longrightarrow> keeps n b P (k m buf' len' s') iss'"
  shows "keeps n b P (Receiving rid buf len s k) iss"
  using assms by simp

lemma quiet_joined:
  "quiet n False iss s \<Longrightarrow> node_mem s n = Some nd \<Longrightarrow>
   quiet n False iss (put_node n (nd\<lparr>predecessor := None, successor := a\<rparr>) s)"
  by (rule quiet_put) (auto simp: quiet_node_def dest: quiet_nodeI)

text \<open>A request with the node's own identifier and address, to a known address or to that of a
  node in memory.\<close>

lemma keeps_ask:
  assumes "quiet n b iss s" and "ty \<noteq> MSG_NOTIFY" and "ty \<noteq> MSG_FIND_SUCCESSOR" and "ty \<noteq> MSG_REPLY"
    and "\<And>iss' i nd r s'. iss \<subseteq>\<^sub>m iss' \<Longrightarrow> iss' i = Some ty \<Longrightarrow> quiet n b iss' s' \<Longrightarrow>
           keeps n b P (k i nd r s') iss'"
  shows "keeps n b P (NeedId s (\<lambda>i s. with_node n s (\<lambda>nd.
           Sending (u i nd s) (v i nd s) (new_message E ty (nid nd) (nip nd) (nport nd) i) s (k i nd)))) iss"
    and "keeps n b P (NeedId s (\<lambda>i s. with_node n s (\<lambda>nd. with_node (a nd) s (\<lambda>ad.
           Sending (u i ad s) (v i ad s) (new_message E ty (nid nd) (nip nd) (nport nd) i) s (k i nd))))) iss"
proof -
  have send: "keeps n b P (Sending ip port (new_message E ty (nid nd) (nip nd) (nport nd) i) s' (k i nd)) iss'"
    if "iss \<subseteq>\<^sub>m iss'" "iss' i = Some ty" "quiet n b iss' s'" for iss' i s' ip port nd
  proof (rule keeps_send [OF that(3)], goal_cases)
    case 1
    show ?case using that(2) assms(2-4) by (simp add: may_send_def)
  next
    case (2 iss'' r s'')
    show ?case
      by (rule assms(5) [OF map_le_trans [OF that(1) 2(1)] map_le_Some [where iss = iss', OF 2(1) that(2)] 2(2)])
  qed
  show "keeps n b P (NeedId s (\<lambda>i s. with_node n s (\<lambda>nd.
           Sending (u i nd s) (v i nd s) (new_message E ty (nid nd) (nip nd) (nport nd) i) s (k i nd)))) iss"
  proof (rule keeps_request [OF assms(1)], goal_cases)
    case (1 i s')
    show ?case by (intro sends_next_with_node) simp
  next
    case (2 iss' i s')
    show ?case by (rule keeps_with_node, rule send) (use 2 in simp_all)
  qed
  show "keeps n b P (NeedId s (\<lambda>i s. with_node n s (\<lambda>nd. with_node (a nd) s (\<lambda>ad.
           Sending (u i ad s) (v i ad s) (new_message E ty (nid nd) (nip nd) (nport nd) i) s (k i nd))))) iss"
  proof (rule keeps_request [OF assms(1)], goal_cases)
    case (1 i s')
    show ?case by (intro sends_next_with_node) simp
  next
    case (2 iss' i s')
    show ?case by (rule keeps_with_node, rule keeps_with_node, rule send) (use 2 in simp_all)
  qed
qed

lemma keeps_finish_join:
  assumes "quiet n b iss s"
  shows "keeps n b (\<lambda>_. True) (with_node n s (\<lambda>nd.
           case finish_join response buf file_data_size (files nd) (file_mem s) of
             Inl e \<Rightarrow> Crashed e
           | Inr (p, fm) \<Rightarrow> Done () (put_node n (nd\<lparr>files := p\<rparr>) (s\<lparr>file_mem := fm\<rparr>)))) iss"
  by (rule keeps_with_node)
    (auto split: sum.splits simp del: keeps.simps(1) intro!: keeps_files(1) [OF assms] quiet_nodeI [OF assms])

lemma keeps_join_ring:
  assumes "quiet n False iss s"
  shows "keeps n False (\<lambda>_. True) (join_ring E n ip port s) iss"
  unfolding join_ring_def create_node_eq prod.case Let_def
proof (rule keeps_ask(1) [OF assms], goal_cases)
  case heartbeat: (4 iss1 i1 nd1 r s1)
  show ?case
  proof (rule keeps_if, simp, rule keeps_ask(1) [OF heartbeat(3)], goal_cases)
    case join: (4 iss2 i2 nd2 r2 s2)
    show ?case
    proof (rule keeps_wait [OF join(4)], rule keeps_with_node, goal_cases)
      case reply: (1 iss3 m s3 nd3)
      show ?case
      proof (rule keeps_ask(2), goal_cases)
        case 1
        show ?case by (rule quiet_joined [OF quiet_add_node [OF reply(2)] reply(3)])
      next
        case files: (5 iss4 i4 nd4 r4 s4)
        show ?case
          by (rule keeps_if, use files(3) in simp, rule keeps_receiving [OF files(3)], rule keeps_finish_join)
      qed (simp_all add: msg_types)
    qed
  qed (simp_all add: msg_types)
qed (simp_all add: msg_types)

lemma keeps_create_ring:
  assumes "quiet n b iss s"
  shows "keeps n b (\<lambda>_. True) (create_ring n s) iss"
proof -
  obtain nd where "node_mem s n = Some nd" "finger nd = replicate M (Some n)" by (rule quietE [OF assms])
  then show ?thesis
    using quiet_put [OF assms, of "nd\<lparr>predecessor := None, successor := n\<rparr>"]
    by (simp add: create_ring_def quiet_node_def)
qed

lemma keeps_main_ring:
  assumes "quiet (self s) (existing = None) iss s"
  shows "keeps (self s) (existing = None) (\<lambda>_. True) (main_ring E existing s) iss"
  using assms keeps_create_ring keeps_join_ring
  by (cases existing) (auto simp: main_ring_def split: prod.splits)

lemma start_proc_quiet:
  "quiet (self (start_proc E ip port)) solo iss (start_proc E ip port)"
proof -
  have "start_proc E ip port = (add_node ip port (node_id E ip port) empty_proc)
      \<lparr>self := 0, socket_alive := True, node_mem := [0 \<mapsto> (new_node ip port (node_id E ip port) 0)\<lparr>socket_open := True\<rparr>]\<rparr>"
    by (simp add: start_proc_def create_node_eq empty_proc_def add_node_def)
  moreover have "\<exists>as ms. queue_at init_queue as ms \<and> (\<forall>m \<in> set ms. iss (request_id m) = Some MSG_JOIN)"
    using init_queue_at by (intro exI [of _ "[]"]) simp
  ultimately show ?thesis by (simp add: quiet_def new_node_def add_node_def empty_proc_def)
qed

section \<open>User commands\<close>

lemma keeps_store_file:
  assumes "quiet n b iss s"
  shows "keeps n b (\<lambda>_. True) (store_file E n path s) iss"
  unfolding store_file_def Let_def
proof (rule keeps_if, goal_cases)
  case 1
  show ?case using assms by simp
next
  case 2
  show ?case
  proof (rule keeps_bind [OF keeps_find_successor [OF assms]], rule keeps_with_node, rule keeps_with_node, rule keeps_if, goal_cases)
    case near: (1 a s1 iss1 nd ad)
    show ?case
      by (rule keeps_delete_node [OF near(3,1)])
        (auto split: sum.splits simp del: keeps.simps(1) intro!: keeps_files(1) quiet_nodeI [OF near(3,4)])
  next
    case far: (2 a s1 iss1 nd ad)
    show ?case
    proof (rule keeps_request [OF far(3)], goal_cases)
      case (1 i s')
      show ?case by (intro sends_next_with_node) (simp split: sum.split)
    next
      case req: (2 iss2 i s2)
      show ?case
      proof (rule keeps_with_node, rule keeps_with_node, goal_cases)
        case (1 nd2 ad2)
        show ?case
          by (cases "strncpy_term (mdata (junk_msg E)) path DATA_SIZE")
            (use req far(1) in \<open>auto simp: may_send_def msg_types intro!: keeps_delete_node\<close>)
      qed
    qed
  qed
qed

lemma keeps_find_file:
  assumes "quiet n b iss s"
  shows "keeps n b (\<lambda>_. True) (find_file E n name s) iss"
  unfolding find_file_def Let_def
proof (rule keeps_bind [OF keeps_find_successor [OF assms]], rule keeps_with_node, rule keeps_with_node, rule keeps_if, goal_cases)
  case near: (1 a s1 iss1 nd ad)
  show ?case
    by (rule keeps_delete_node [OF near(3,1)]) (auto split: option.splits sum.splits)
next
  case far: (2 a s1 iss1 nd ad)
  show ?case
  proof (rule keeps_request [OF far(3)], goal_cases)
    case (1 i s')
    show ?case by (intro sends_next_with_node) (simp split: sum.split)
  next
    case req: (2 iss2 i s2)
    show ?case
    proof (rule keeps_with_node, rule keeps_with_node, goal_cases)
      case nodes: (1 nd2 ad2)
      show ?case
      proof (cases "strncpy_term (mdata (junk_msg E)) name DATA_SIZE")
        case (Inr d)
        then have i: "iss2 i = Some MSG_FIND_FILE" using req(2) nodes by simp
        show ?thesis
          unfolding Inr sum.case
        proof (rule keeps_send [OF req(3)], goal_cases)
          case 1
          show ?case by (simp add: may_send_def msg_types)
        next
          case (2 iss3 r s3)
          show ?case
            by (rule keeps_delete_node [OF 2(2) far(1)],
                rule keeps_unanswered [where iss = iss3, OF _ map_le_Some [where iss = iss2, OF 2(1) i]])
              (simp_all add: msg_types)
        qed
      qed simp
    qed
  qed
qed

lemma keeps_user_command:
  assumes "quiet n b iss s"
  shows "keeps n b (\<lambda>_. True) (user_command E n typed answer s) iss"
proof -
  have store: "keeps n b (\<lambda>_. True) (user_store E n cmd s) iss" for cmd
    unfolding user_store_def Let_def
  proof (rule keeps_if, use assms in simp, rule keeps_bind [OF keeps_store_file [OF assms]], rule keeps_if, goal_cases)
    case (2 x s' iss')
    show ?case
      by (rule keeps_with_node)
        (auto split: sum.splits simp del: keeps.simps(1) intro!: keeps_files(2) [OF 2(4)] quiet_nodeI [OF 2(4)])
  qed simp
  have find: "keeps n b (\<lambda>_. True) (user_find E n cmd answer s) iss" for cmd
    unfolding user_find_def Let_def
    by (rule keeps_if, use assms in simp, rule keeps_bind [OF keeps_find_file [OF assms]])
      (auto split: option.splits)
  have outdir: "quiet n b iss s'" if "set_outdir E d s = (r, s')" for d r s'
    using that assms by (auto simp: set_outdir_def split: if_splits)
  show ?thesis
    unfolding user_command_def Let_def
    by (intro keeps_if store find keeps_with_node)
      (use assms outdir in \<open>auto split: prod.splits option.splits sum.splits\<close>)
qed

end
