(* ===== verification/Chord_Datagram.thy ===== *)
theory Chord_Datagram
  imports Chord_Behaviour
begin

text \<open>
  Messages on the wire (\<open>send_message\<close> and \<open>receive_message\<close> of \<open>src/protocol.cpp\<close>) and one
  turn of \<open>listener_thread\<close> (\<open>src/threads.cpp\<close>).  A \<open>Message\<close> is sent as the bytes it has in memory:
  the arrays and the integers in the order of the struct, little-endian, which leaves no gaps.
  The bytes behind the end of a string are not initialised (\<open>junk\<close>).  \<open>inet\<close> stands for
  \<open>inet_addr\<close>.
\<close>

section \<open>The bytes of a message\<close>

definition STRING_SIZE :: nat where "STRING_SIZE = 16"

definition MESSAGE_SIZE :: nat where
  "MESSAGE_SIZE = STRING_SIZE + HASH_SIZE + STRING_SIZE + 4 + 4 + 2 + 2 + 8 + DATA_SIZE"

definition char_array :: "byte \<Rightarrow> string \<Rightarrow> byte list" where
  "char_array junk s = s @ NUL # replicate (STRING_SIZE - length s - 1) junk"

definition message_bytes :: "byte \<Rightarrow> message \<Rightarrow> byte list" where
  "message_bytes junk m =
     char_array junk (mtype m) @ mid m @ char_array junk (mip m) @ int_bytes (mport m) @
     le_bytes 4 (unat (request_id m)) @ le_bytes 2 (unat (segment_index m)) @
     le_bytes 2 (unat (total_segments m)) @ le_bytes 8 (data_len m) @ mdata m"

definition message_of_bytes :: "byte list \<Rightarrow> message" where
  "message_of_bytes bs =
     (let b1 = drop STRING_SIZE bs; b2 = drop HASH_SIZE b1; b3 = drop STRING_SIZE b2; b4 = drop 4 b3;
          b5 = drop 4 b4; b6 = drop 2 b5; b7 = drop 2 b6; b8 = drop 8 b7
      in \<lparr>mtype = c_str (take STRING_SIZE bs), mid = take HASH_SIZE b1, mip = c_str (take STRING_SIZE b2),
          mport = bytes_int (take 4 b3), request_id = of_nat (le_value (take 4 b4)),
          segment_index = of_nat (le_value (take 2 b5)), total_segments = of_nat (le_value (take 2 b6)),
          data_len = le_value (take 8 b7), mdata = b8\<rparr>)"

text \<open>A message whose fields fit the struct.\<close>

definition message_wf :: "message \<Rightarrow> bool" where
  "message_wf m \<longleftrightarrow>
     length (mtype m) < STRING_SIZE \<and> NUL \<notin> set (mtype m) \<and> length (mid m) = HASH_SIZE \<and>
     length (mip m) < STRING_SIZE \<and> NUL \<notin> set (mip m) \<and> INT_MIN \<le> mport m \<and> mport m \<le> INT_MAX \<and>
     data_len m < 2 ^ 64 \<and> length (mdata m) = DATA_SIZE"

lemma MESSAGE_SIZE_val: "MESSAGE_SIZE = MSG_SIZE"
  by (simp add: MESSAGE_SIZE_def STRING_SIZE_def HASH_SIZE_def DATA_SIZE_def MSG_SIZE_def)

lemma length_char_array: "length s < STRING_SIZE \<Longrightarrow> length (char_array junk s) = STRING_SIZE"
  by (simp add: char_array_def)

lemma c_str_char_array: "NUL \<notin> set s \<Longrightarrow> c_str (char_array junk s) = s"
  by (simp add: char_array_def c_str_terminated)

lemma length_message_bytes: "message_wf m \<Longrightarrow> length (message_bytes junk m) = MESSAGE_SIZE"
  by (simp add: message_bytes_def message_wf_def length_char_array MESSAGE_SIZE_def)

lemma le_value_word:
  "le_value (le_bytes 4 (unat (v :: 32 word))) = unat v" "le_value (le_bytes 2 (unat (w :: 16 word))) = unat w"
proof -
  have "unat v < 4294967296" "unat w < 65536"
    by (rule order_less_le_trans [OF unsigned_less], simp)+
  then show "le_value (le_bytes 4 (unat v)) = unat v" "le_value (le_bytes 2 (unat w)) = unat w"
    by (simp_all add: le_value_bytes)
qed

lemma message_of_message_bytes:
  assumes "message_wf m"
  shows "message_of_bytes (message_bytes junk m) = m"
  using assms
  by (simp add: message_of_bytes_def message_bytes_def message_wf_def length_char_array c_str_char_array
      bytes_int_bytes le_value_word le_value_bytes [of 8] Let_def)

section \<open>Sending and receiving\<close>

record datagram =
  dst_addr :: "32 word"
  dst_port :: "16 word"
  payload :: "byte list"

definition send_message :: "(string \<Rightarrow> 32 word) \<Rightarrow> byte \<Rightarrow> string \<Rightarrow> int \<Rightarrow> message \<Rightarrow> datagram" where
  "send_message inet junk receiver_ip receiver_port msg =
     \<lparr>dst_addr = inet receiver_ip, dst_port = word_of_int receiver_port, payload = message_bytes junk msg\<rparr>"

text \<open>\<open>got\<close> is the next datagram's payload, None where \<open>recvfrom\<close> fails; what does not fit
  into the buffer is cut off.\<close>

definition receive_message :: "node \<Rightarrow> byte list option \<Rightarrow> int \<times> message option" where
  "receive_message nd got =
     (if \<not> socket_open nd then (-1, None)
      else case got of
             None \<Rightarrow> (-1, None)
           | Some bs \<Rightarrow>
               (let buffer = take MESSAGE_SIZE bs
                in if length buffer = MESSAGE_SIZE then (int (length buffer), Some (message_of_bytes buffer))
                   else (-1, None)))"

definition listener_turn :: "env \<Rightarrow> nat \<Rightarrow> byte list option \<Rightarrow> proc \<Rightarrow> unit outcome" where
  "listener_turn E n got s =
     with_node n s (\<lambda>nd.
       case receive_message nd got of
         (r, Some msg) \<Rightarrow> if r > 0 then handle_requests E n msg s else Done () s
       | (r, None) \<Rightarrow> Done () s)"

text \<open>C16: A message whose fields fit the struct is sent as one datagram of \<open>MSG_SIZE\<close> bytes, and the
  listener that receives it, with whatever follows, treats the message that was sent.  A shorter datagram,
  a failed call or a closed socket changes nothing.\<close>

theorem datagram_round_trip:
  assumes "node_mem s n = Some nd" and "socket_open nd" and "message_wf m"
  shows "length (payload (send_message inet junk ip port m)) = MSG_SIZE \<and>
         listener_turn E n (Some (payload (send_message inet junk ip port m) @ rest)) s = handle_requests E n m s \<and>
         (\<forall>bs. length bs < MSG_SIZE \<longrightarrow> listener_turn E n (Some bs) s = Done () s) \<and>
         listener_turn E n None s = Done () s \<and>
         listener_turn E n got (put_node n (nd\<lparr>socket_open := False\<rparr>) s) = Done () (put_node n (nd\<lparr>socket_open := False\<rparr>) s)"
proof -
  have "length (message_bytes junk m) = MESSAGE_SIZE" by (rule length_message_bytes [OF assms(3)])
  moreover have "0 < MESSAGE_SIZE" by (simp add: MESSAGE_SIZE_def)
  ultimately show ?thesis
    using assms by (simp add: listener_turn_def receive_message_def send_message_def
        message_of_message_bytes MESSAGE_SIZE_val [symmetric] Let_def)
qed

lemma demo_message_wf: "message_wf demo_junk_message"
  by (simp add: message_wf_def demo_junk_message_def demo_message_def STRING_SIZE_def HASH_SIZE_def MSG_REPLY_def)

theorem datagram_round_trip_witness:
  "listener_turn demo_env 0 (Some (payload (send_message (\<lambda>_. 7) NUL ''10.0.0.1'' 5000 demo_junk_message))) (demo_proc 3 9) =
     handle_requests demo_env 0 demo_junk_message (demo_proc 3 9)"
proof -
  have "node_mem (demo_proc 3 9) 0 = Some (demo_node 3)" by (simp add: demo_proc_def demo_node_def)
  moreover have "socket_open (demo_node 3)" by (simp add: demo_node_def)
  ultimately show ?thesis
    using demo_message_wf datagram_round_trip [of "demo_proc 3 9" 0 "demo_node 3" demo_junk_message "\<lambda>_. 7" NUL "''10.0.0.1''" 5000
        demo_env "[]"] by simp
qed

end
