(* ===== verification/Chord_Types.thy ===== *)
theory Chord_Types
  imports Chord_Datagram
begin

text \<open>
  The values a Chord process works with fit the types they are stored in.  \<open>mem_ok\<close> says so of
  the memory of a process: the identifier of every node has \<open>HASH_SIZE\<close> bytes, its address ends
  within its array and its port is an \<open>int\<close>, the messages in the queues fit their struct and so do
  the file entries.
  \<open>fits\<close> is the contract of an operation: at every interaction it leaves such a memory and sends only
  messages that fit, provided that what it is given then is of that kind, whatever else other threads
  do meanwhile.  Every operation meets it (the lemmas \<open>fits_...\<close>, collected in \<open>fits\<close>).
\<close>

section \<open>Memory that conforms\<close>

definition address_ok :: "string \<Rightarrow> int \<Rightarrow> bool" where
  "address_ok ip port \<longleftrightarrow> NUL \<notin> set ip \<and> INT_MIN \<le> port \<and> port \<le> INT_MAX"

definition node_ok :: "node \<Rightarrow> bool" where
  "node_ok nd \<longleftrightarrow>
     length (nid nd) = HASH_SIZE \<and> length (nip nd) < STRING_SIZE \<and> address_ok (nip nd) (nport nd)"

definition queue_ok_types :: "mqueue \<Rightarrow> bool" where
  "queue_ok_types q \<longleftrightarrow> (\<forall>a c. cells (qmem q) a = Some c \<longrightarrow> message_wf (content c))"

definition entries_ok :: "file_heap \<Rightarrow> bool" where
  "entries_ok fm \<longleftrightarrow> (\<forall>a c. cells fm a = Some c \<longrightarrow> entry_wf (content c))"

definition mem_ok :: "proc \<Rightarrow> bool" where
  "mem_ok s \<longleftrightarrow>
     (\<forall>a nd. node_mem s a = Some nd \<longrightarrow> node_ok nd) \<and> entries_ok (file_mem s) \<and>
     queue_ok_types (reply_queue s) \<and> queue_ok_types (download_queue s)"

text \<open>What the code relies on: SHA-1 yields 20 bytes, and memory that is not initialised holds bytes
  of the type it is read at.\<close>

definition env_types :: "env \<Rightarrow> bool" where
  "env_types E \<longleftrightarrow> (\<forall>x. length (sha1 E x) = HASH_SIZE) \<and> message_wf (junk_msg E) \<and> entry_wf (junk_entry E)"

named_theorems fits

primrec fits :: "'a outcome \<Rightarrow> bool" where
  "fits (Done x s) = mem_ok s"
| "fits (Crashed e) = True"
| "fits Diverges = True"
| "fits Exited = True"
| "fits (Sending ip port m s k) = (mem_ok s \<and> message_wf m \<and> (\<forall>r s'. mem_ok s' \<longrightarrow> fits (k r s')))"
| "fits (Waiting q rid s k) = (mem_ok s \<and> (\<forall>m s'. message_wf m \<and> mem_ok s' \<longrightarrow> fits (k m s')))"
| "fits (NeedId s k) = (mem_ok s \<and> (\<forall>i s'. mem_ok s' \<longrightarrow> fits (k i s')))"
| "fits (Receiving rid b n s k) = (mem_ok s \<and> (\<forall>m b' n' s'. message_wf m \<and> mem_ok s' \<longrightarrow> fits (k m b' n' s')))"

declare fits.simps(2-4) [fits]

section \<open>The memory\<close>

lemma mem_okD: "mem_ok s \<Longrightarrow> node_mem s a = Some nd \<Longrightarrow> node_ok nd"
  by (simp add: mem_ok_def)

lemma mem_ok_entries [simp]: "mem_ok s \<Longrightarrow> entries_ok (file_mem s)"
  by (simp add: mem_ok_def)

lemma mem_ok_file_mem [simp]: "mem_ok s \<Longrightarrow> entries_ok fm \<Longrightarrow> mem_ok (s\<lparr>file_mem := fm\<rparr>)"
  by (simp add: mem_ok_def)

lemma mem_ok_fields [simp]:
  "mem_ok (s\<lparr>outdir := d\<rparr>) = mem_ok s"
  "mem_ok (s\<lparr>socket_alive := b\<rparr>) = mem_ok s" "mem_ok (s\<lparr>self := n\<rparr>) = mem_ok s"
  by (simp_all add: mem_ok_def)

lemma node_ok_fields [simp]:
  "node_ok (nd\<lparr>files := p\<rparr>) = node_ok nd" "node_ok (nd\<lparr>uploaded_files := p\<rparr>) = node_ok nd"
  "node_ok (nd\<lparr>predecessor := q\<rparr>) = node_ok nd" "node_ok (nd\<lparr>successor := a\<rparr>) = node_ok nd"
  "node_ok (nd\<lparr>finger := fs\<rparr>) = node_ok nd" "node_ok (nd\<lparr>socket_open := b\<rparr>) = node_ok nd"
  by (simp_all add: node_ok_def)

lemma mem_ok_put_node [simp]: "mem_ok s \<Longrightarrow> node_ok nd \<Longrightarrow> mem_ok (put_node a nd s)"
  by (simp add: mem_ok_def put_node_def)

lemma mem_ok_delete [simp]: "mem_ok s \<Longrightarrow> mem_ok (s\<lparr>node_mem := (node_mem s)(a := None)\<rparr>)"
  by (simp add: mem_ok_def)

lemma mem_ok_add_node [simp]:
  assumes "mem_ok s" and "address_ok ip port" and "length i = HASH_SIZE"
  shows "mem_ok (add_node ip port i s)"
proof -
  have "node_ok (new_node ip port i (node_brk s))"
    using assms(2,3) by (auto simp: node_ok_def address_ok_def STRING_SIZE_def dest: in_set_takeD)
  then show ?thesis using assms(1) by (simp add: mem_ok_def)
qed

lemma mem_ok_create_node:
  "mem_ok s \<Longrightarrow> env_types E \<Longrightarrow> address_ok ip port \<Longrightarrow> mem_ok (add_node ip port (node_id E ip port) s)"
  by (simp add: node_id_def env_types_def)

lemma message_wf_address: "message_wf m \<Longrightarrow> address_ok (mip m) (mport m)"
  by (simp add: message_wf_def address_ok_def)

lemma node_ok_address: "node_ok nd \<Longrightarrow> address_ok (nip nd) (nport nd)"
  by (simp add: node_ok_def)

lemma message_wf_mid: "message_wf m \<Longrightarrow> length (mid m) = HASH_SIZE"
  by (simp add: message_wf_def)

lemma push_message_types:
  "queue_ok_types q \<Longrightarrow> message_wf m \<Longrightarrow> push_message m q = Inr q' \<Longrightarrow> queue_ok_types q'"
  by (auto simp: queue_ok_types_def push_message_def new_cell_def set_link_def Let_def
      split: option.splits if_splits)

lemma pop_search_types:
  assumes "queue_ok_types q" and "pop_search r q = Some (Inr (Some (m, q')))"
  shows "message_wf m \<and> queue_ok_types q'"
  using assms
  by (auto simp: queue_ok_types_def pop_search_def remove_found_def read_cell_def set_link_def delete_cell_def
      split: option.splits sum.splits found.splits if_splits)

section \<open>The file entries\<close>

lemma strncpy_term_length: "strncpy_term dst src n = Inr d \<Longrightarrow> length d = length dst"
  by (auto simp: strncpy_term_def strncpy_def put_byte_def split: sum.splits dest!: memcpy_at_length)

lemma entries_new: "new_cell e p fm = (a, fm') \<Longrightarrow> entry_wf e \<Longrightarrow> entries_ok fm \<Longrightarrow> entries_ok fm'"
  by (auto simp: entries_ok_def new_cell_def split: if_splits)

lemma entries_delete: "delete_cell a fm = Inr fm' \<Longrightarrow> entries_ok fm \<Longrightarrow> entries_ok fm'"
  by (auto simp: entries_ok_def delete_cell_def split: option.splits if_splits)

lemma entries_remove: "remove_found prev a p fm = Inr (q, fm') \<Longrightarrow> entries_ok fm \<Longrightarrow> entries_ok fm'"
  by (auto simp: entries_ok_def remove_found_def read_cell_def set_link_def delete_cell_def
      split: option.splits sum.splits if_splits)

lemma entries_delete_loop:
  assumes "delete_transferred_loop i j prev entry p fm = Some (Inr (q, fm'))" and "entries_ok fm"
  shows "entries_ok fm'"
proof -
  have "\<forall>q fm'. r = Inr (q, fm') \<longrightarrow> entries_ok fm \<longrightarrow> entries_ok fm'"
    if "delete_transferred_loop i j prev entry p fm = Some r" for r
  proof (rule delete_transferred_loop.raw_induct [OF _ that], goal_cases)
    case (1 loop i j prev entry p fm r)
    show ?case
      using 1(2) by (auto split: option.splits sum.splits if_splits prod.splits dest: 1(1) entries_remove)
  qed
  then show ?thesis using assms by blast
qed

lemma entries_delete_transferred:
  "delete_transferred_files p i j fm = Some (Inr (q, fm')) \<Longrightarrow> entries_ok fm \<Longrightarrow> entries_ok fm'"
  unfolding delete_transferred_files_def by (rule entries_delete_loop)

lemma entries_free:
  assumes "free_files p fm = Some (Inr fm')" and "entries_ok fm"
  shows "entries_ok fm'"
proof -
  have "\<forall>fm'. r = Inr fm' \<longrightarrow> entries_ok fm \<longrightarrow> entries_ok fm'" if "free_files p fm = Some r" for r
  proof (rule free_files.raw_induct [OF _ that], goal_cases)
    case (1 loop p fm r)
    show ?case using 1(2) by (auto split: option.splits sum.splits dest: 1(1) entries_delete)
  qed
  then show ?thesis using assms by blast
qed

lemma le_value_less: "le_value bs < 256 ^ length bs"
proof (induction bs)
  case (Cons b bs)
  have "of_char b < (256 :: nat)" by simp
  then have "of_char b + 256 * le_value bs < 256 * 256 ^ length bs" using Cons by linarith
  then show ?case by simp
qed simp

lemma bytes_int_range: "length bs = 4 \<Longrightarrow> INT_MIN \<le> bytes_int bs \<and> bytes_int bs \<le> INT_MAX"
  using le_value_less [of bs] by (simp add: bytes_int_def Let_def)

lemma entry_of_bytes_wf: "length bs = ENTRY_SIZE \<Longrightarrow> entry_wf (entry_of_bytes bs)"
  by (simp add: entry_wf_def entry_of_bytes_def ENTRY_SIZE_def bytes_int_range Let_def)

lemma entries_deserialize:
  "deserialize_loop buf n offset p fm = Inr (q, fm') \<Longrightarrow> entries_ok fm \<Longrightarrow> entries_ok fm'"
proof (induction buf n offset p fm rule: deserialize_loop.induct)
  case (1 buf n offset p fm)
  show ?case
  proof (cases "offset < n")
    case True
    with "1.prems"(1) obtain bs where bs: "read_bytes buf offset ENTRY_SIZE = Inr bs"
      by (simp add: deserialize_loop.simps [of buf n offset] split: sum.splits)
    obtain a fm1 where new: "new_cell (entry_of_bytes bs) p fm = (a, fm1)" by fastforce
    have "length bs = ENTRY_SIZE" using bs by (auto simp: read_bytes_def split: if_splits)
    then have "entries_ok fm1" using entries_new [OF new] entry_of_bytes_wf "1.prems"(2) by blast
    moreover have "deserialize_loop buf n (offset + ENTRY_SIZE) (Some a) fm1 = Inr (q, fm')"
      using "1.prems"(1) True bs new by (simp add: deserialize_loop.simps [of buf n offset])
    ultimately show ?thesis using "1.IH" [OF True bs] new by auto
  qed (use 1 in \<open>simp add: deserialize_loop.simps [of buf n offset]\<close>)
qed

lemma entries_finish_join:
  "finish_join r buf n p fm = Inr (q, fm') \<Longrightarrow> entries_ok fm \<Longrightarrow> entries_ok fm'"
  by (auto simp: finish_join_def deserialize_file_entries_def split: if_splits dest: entries_deserialize)

lemma fill_entry_wf:
  assumes "entry_wf junk" and "length i = HASH_SIZE" and "INT_MIN \<le> port" and "port \<le> INT_MAX"
    and "fill_entry junk i filename filepath ip port = Inr e"
  shows "entry_wf e"
  using assms
  by (auto simp: fill_entry_def entry_wf_def strcpy_def split: sum.splits
      dest!: strncpy_term_length memcpy_at_length)

lemma entries_store:
  assumes "internal_store_file junk filename filepath i ip port p fm = Inr (q, fm')"
    and "entry_wf junk" and "length i = HASH_SIZE" and "address_ok ip port" and "entries_ok fm"
  shows "entries_ok fm'"
  using assms fill_entry_wf [OF assms(2,3)]
  by (auto simp: internal_store_file_def address_ok_def split: sum.splits prod.splits dest: entries_new)

lemma entries_confirm:
  assumes "confirm_file_stored H junk filepath ip port p fm = Inr (q, fm')"
    and "entry_wf junk" and "\<And>x. length (H x) = HASH_SIZE" and "address_ok ip port" and "entries_ok fm"
  shows "entries_ok fm'"
  using assms fill_entry_wf [OF assms(2,3)]
  by (auto simp: confirm_file_stored_def address_ok_def Let_def split: sum.splits prod.splits dest: entries_new)

section \<open>Combining operations\<close>

lemma fits_Done [fits]: "mem_ok s \<Longrightarrow> fits (Done x s)"
  by simp

lemma fits_send [fits]:
  "mem_ok s \<Longrightarrow> message_wf m \<Longrightarrow> (\<And>r s'. mem_ok s' \<Longrightarrow> fits (k r s')) \<Longrightarrow> fits (Sending ip port m s k)"
  by simp

lemma fits_wait [fits]:
  "mem_ok s \<Longrightarrow> (\<And>m s'. message_wf m \<Longrightarrow> mem_ok s' \<Longrightarrow> fits (k m s')) \<Longrightarrow> fits (Waiting q rid s k)"
  by simp

lemma fits_need [fits]: "mem_ok s \<Longrightarrow> (\<And>i s'. mem_ok s' \<Longrightarrow> fits (k i s')) \<Longrightarrow> fits (NeedId s k)"
  by simp

lemma fits_receiving [fits]:
  "mem_ok s \<Longrightarrow> (\<And>m b' n' s'. message_wf m \<Longrightarrow> mem_ok s' \<Longrightarrow> fits (k m b' n' s')) \<Longrightarrow>
   fits (Receiving rid b n s k)"
  by simp

lemma fits_bind [fits]:
  assumes "fits out" and "\<And>x s. mem_ok s \<Longrightarrow> fits (f x s)"
  shows "fits (bind out f)"
  using assms(1)
proof (induction out)
  case (Receiving rid b n s k)
  have "fits (bind (k m b' n' s') f)" if "message_wf m" "mem_ok s'" for m b' n' s'
    by (rule Receiving.IH [OF rangeI rangeI rangeI rangeI]) (use Receiving.prems that in simp)
  then show ?case using Receiving.prems by simp
qed (auto intro: assms(2))

lemma fits_with_node [fits]:
  "mem_ok s \<Longrightarrow> (\<And>nd. node_mem s a = Some nd \<Longrightarrow> node_ok nd \<Longrightarrow> fits (f nd)) \<Longrightarrow> fits (with_node a s f)"
  by (auto simp: with_node_def split: option.split dest: mem_okD)

lemma fits_with_pointer [fits]:
  "mem_ok s \<Longrightarrow> (\<And>a nd. node_mem s a = Some nd \<Longrightarrow> node_ok nd \<Longrightarrow> fits (f a nd)) \<Longrightarrow> fits (with_pointer p s f)"
  by (auto simp: with_pointer_def split: option.split intro: fits_with_node)

lemma fits_delete_node [fits]:
  "mem_ok s \<Longrightarrow> (\<And>s'. mem_ok s' \<Longrightarrow> fits (f s')) \<Longrightarrow> fits (delete_node p s f)"
  by (auto simp: delete_node_def split: option.split intro!: fits_with_node)

lemma fits_cleanup_node [fits]:
  "mem_ok s \<Longrightarrow> (\<And>s'. mem_ok s' \<Longrightarrow> fits (f s')) \<Longrightarrow> fits (cleanup_node n s f)"
  by (auto simp: cleanup_node_def split: option.split sum.split intro!: fits_with_node dest!: entries_free)

lemma fits_cleanup_pointer [fits]:
  "mem_ok s \<Longrightarrow> (\<And>s'. mem_ok s' \<Longrightarrow> fits (f s')) \<Longrightarrow> fits (cleanup_pointer p s f)"
  by (auto simp: cleanup_pointer_def split: option.split intro: fits_cleanup_node)

lemma fits_if [fits]: "(c \<Longrightarrow> fits x) \<Longrightarrow> (\<not> c \<Longrightarrow> fits y) \<Longrightarrow> fits (if c then x else y)"
  by simp

lemma fits_option [fits]:
  "(x = None \<Longrightarrow> fits a) \<Longrightarrow> (\<And>y. x = Some y \<Longrightarrow> fits (b y)) \<Longrightarrow>
   fits (case x of None \<Rightarrow> a | Some y \<Rightarrow> b y)"
  by (cases x) simp_all

lemma fits_sum [fits]:
  "(\<And>e. x = Inl e \<Longrightarrow> fits (a e)) \<Longrightarrow> (\<And>y. x = Inr y \<Longrightarrow> fits (b y)) \<Longrightarrow>
   fits (case x of Inl e \<Rightarrow> a e | Inr y \<Rightarrow> b y)"
  by (cases x) simp_all

lemma fits_prod [fits]: "(\<And>a b. x = (a, b) \<Longrightarrow> fits (f a b)) \<Longrightarrow> fits (case x of (a, b) \<Rightarrow> f a b)"
  by (cases x) simp

lemma message_wf_new:
  assumes "env_types E" and "address_ok ip port" and "length ip < STRING_SIZE" and "length i = HASH_SIZE"
    and "length ty < STRING_SIZE" and "NUL \<notin> set ty"
  shows "message_wf (new_message E ty i ip port rid)"
proof -
  have "length (mdata (junk_msg E)) = DATA_SIZE" "data_len (junk_msg E) < 2 ^ 64"
    using assms(1) by (simp_all add: env_types_def message_wf_def)
  moreover have "0 < DATA_SIZE" by (simp add: DATA_SIZE_val)
  ultimately show ?thesis
    using assms(2-) by (simp add: message_wf_def new_message_def address_ok_def)
qed

text \<open>The types of messages fit, whatever the type.\<close>

lemma msg_type_fits [simp]:
  "ty \<in> {MSG_JOIN, MSG_NOTIFY, MSG_FIND_SUCCESSOR, MSG_STABILIZE, MSG_HEARTBEAT, MSG_STORE_FILE, MSG_REPLY,
     MSG_FIND_FILE, MSG_FILE_DATA, MSG_FILE_END, MSG_GET_FILES} \<Longrightarrow> length ty < STRING_SIZE \<and> NUL \<notin> set ty"
  by (auto simp: msg_types STRING_SIZE_def)

lemma node_ok_fits: "node_ok nd \<Longrightarrow> length (nid nd) = HASH_SIZE \<and> length (nip nd) < STRING_SIZE"
  by (simp add: node_ok_def)

lemma message_wf_node:
  assumes "env_types E" and "node_ok nd" and "length i = HASH_SIZE"
    and "ty \<in> {MSG_JOIN, MSG_NOTIFY, MSG_FIND_SUCCESSOR, MSG_STABILIZE, MSG_HEARTBEAT, MSG_STORE_FILE, MSG_REPLY,
     MSG_FIND_FILE, MSG_FILE_DATA, MSG_FILE_END, MSG_GET_FILES}"
  shows "message_wf (new_message E ty i (nip nd) (nport nd) rid)"
  using assms msg_type_fits [OF assms(4)] by (intro message_wf_new) (simp_all add: node_ok_def)

lemmas types = mem_ok_create_node message_wf_address node_ok_address message_wf_mid node_ok_fits message_wf_node
  create_node_eq create_node_with_id_eq

section \<open>The node thread\<close>

lemma fits_copy_successor [fits]: "env_types E \<Longrightarrow> mem_ok s \<Longrightarrow> fits (copy_successor E n s)"
  unfolding copy_successor_def by (intro fits) (simp_all add: types)

lemma fits_find_successor_remote [fits]:
  "env_types E \<Longrightarrow> mem_ok s \<Longrightarrow> length i = HASH_SIZE \<Longrightarrow> fits (find_successor_remote E n n0 i s)"
  unfolding find_successor_remote_def create_node_with_id_eq prod.case Let_def by (intro fits) (simp_all add: types)

lemma fits_find_successor [fits]:
  "env_types E \<Longrightarrow> mem_ok s \<Longrightarrow> length i = HASH_SIZE \<Longrightarrow> fits (find_successor E n i s)"
  unfolding find_successor_def by (intro fits) simp_all

lemma fits_create_ring [fits]: "mem_ok s \<Longrightarrow> fits (create_ring n s)"
  unfolding create_ring_def by (intro fits) simp_all

lemma fits_notify [fits]: "env_types E \<Longrightarrow> mem_ok s \<Longrightarrow> fits (notify E n n' s)"
  unfolding notify_def create_node_with_id_eq prod.case Let_def by (intro fits) (simp_all add: types)

lemma fits_stabilize [fits]: "env_types E \<Longrightarrow> mem_ok s \<Longrightarrow> fits (stabilize E n s)"
  unfolding stabilize_def create_node_eq prod.case Let_def by (intro fits) (simp_all add: types)

lemma fits_fix_fingers [fits]: "env_types E \<Longrightarrow> mem_ok s \<Longrightarrow> fits (fix_fingers E n next s)"
  unfolding fix_fingers_def Let_def by (intro fits) (simp_all add: types)

lemma fits_check_predecessor [fits]: "env_types E \<Longrightarrow> mem_ok s \<Longrightarrow> fits (check_predecessor E n s)"
  unfolding check_predecessor_def by (intro fits) (simp_all add: types)

lemma fits_node_round [fits]: "env_types E \<Longrightarrow> mem_ok s \<Longrightarrow> fits (node_round E n next s)"
  unfolding node_round_def by (intro fits)

section \<open>The listener\<close>

lemma fits_send_all:
  "mem_ok s \<Longrightarrow> \<forall>m \<in> set ms. message_wf m \<Longrightarrow> (\<And>s'. mem_ok s' \<Longrightarrow> fits (f s')) \<Longrightarrow> fits (send_all ip port ms s f)"
  by (induction ms arbitrary: s) simp_all

lemma fits_reply [fits]:
  "env_types E \<Longrightarrow> mem_ok s \<Longrightarrow> (\<And>s'. mem_ok s' \<Longrightarrow> fits (f s')) \<Longrightarrow> fits (reply_with_successor E msg succ s f)"
  unfolding reply_with_successor_def by (intro fits) (simp_all add: types)

lemma fits_handle_join [fits]:
  "env_types E \<Longrightarrow> message_wf msg \<Longrightarrow> mem_ok s \<Longrightarrow> fits (handle_join E n msg s)"
  unfolding handle_join_def create_node_eq prod.case Let_def by (intro fits) (simp_all add: types)

lemma fits_handle_find_successor [fits]:
  "env_types E \<Longrightarrow> message_wf msg \<Longrightarrow> mem_ok s \<Longrightarrow> fits (handle_find_successor E n msg s)"
  unfolding handle_find_successor_def by (intro fits) (simp_all add: types)

lemma send_segments_fit:
  assumes "message_wf r0" and "send_segments buf data_size chunks i k r0 = Inr (ms, r)"
  shows "message_wf r \<and> (\<forall>m \<in> set ms. message_wf m)"
  using assms
proof (induction k arbitrary: i r0 ms r)
  case (Suc k)
  define size where "size = (if i * DATA_SIZE + DATA_SIZE > data_size then data_size else i * DATA_SIZE + DATA_SIZE) - i * DATA_SIZE"
  then have size: "size \<le> DATA_SIZE" by (simp split: if_split) linarith
  from Suc.prems(2) obtain bs d ms' where d: "memcpy_at 0 bs (mdata r0) = Inr d"
    and m: "ms = r0\<lparr>segment_index := of_nat i, total_segments := of_nat chunks, mdata := d, data_len := size\<rparr> # ms'"
    and s: "send_segments buf data_size chunks (Suc i) k
      (r0\<lparr>segment_index := of_nat i, total_segments := of_nat chunks, mdata := d, data_len := size\<rparr>) = Inr (ms', r)"
    unfolding send_segments.simps Let_def size_def [symmetric] by (auto split: sum.splits prod.splits)
  have "message_wf (r0\<lparr>segment_index := of_nat i, total_segments := of_nat chunks, mdata := d, data_len := size\<rparr>)"
    using Suc.prems(1) size memcpy_at_length [OF d] by (simp add: message_wf_def DATA_SIZE_val)
  with Suc.IH [OF this s] m show ?case by simp
qed simp

lemma file_segments_fit:
  assumes "message_wf jm" and "length i = HASH_SIZE" and "file_segments jm rid i buf len = Inr ms"
  shows "\<forall>m \<in> set ms. message_wf m"
proof -
  let ?r0 = "jm\<lparr>request_id := rid, mid := i, mtype := MSG_FILE_DATA\<rparr>"
  from assms(3) obtain ss r d where s: "send_segments buf len ((len + DATA_SIZE - 1) div DATA_SIZE) 0
      ((len + DATA_SIZE - 1) div DATA_SIZE) ?r0 = Inr (ss, r)"
    and d: "strcpy (mdata r) [] = Inr d"
    and ms: "ms = ss @ [r\<lparr>mtype := MSG_FILE_END, mdata := d, data_len := 0\<rparr>]"
    by (auto simp: file_segments_def Let_def split: sum.splits prod.splits)
  have "message_wf ?r0" using assms(1,2) by (simp add: message_wf_def)
  from send_segments_fit [OF this s] ms d show ?thesis
    by (auto simp: message_wf_def strcpy_def dest: memcpy_at_length)
qed

lemma fits_handle_get_files [fits]:
  assumes "env_types E" and "message_wf msg" and "mem_ok s"
  shows "fits (handle_get_files E n msg s)"
proof -
  have "message_wf (junk_msg E)" using assms(1) by (simp add: env_types_def)
  then show ?thesis
    unfolding handle_get_files_def
    by (intro fits fits_send_all assms(3)) (auto simp: types dest!: file_segments_fit entries_delete_transferred)
qed

lemma fits_handle_stabilize [fits]: "env_types E \<Longrightarrow> mem_ok s \<Longrightarrow> fits (handle_stabilize E n msg s)"
  unfolding handle_stabilize_def by (intro fits) (simp_all add: types)

lemma fits_handle_notify [fits]:
  "env_types E \<Longrightarrow> message_wf msg \<Longrightarrow> mem_ok s \<Longrightarrow> fits (handle_notify E n msg s)"
  unfolding handle_notify_def create_node_with_id_eq prod.case Let_def by (intro fits) (simp_all add: types)

lemma fits_push [fits]:
  "message_wf msg \<Longrightarrow> mem_ok s \<Longrightarrow> fits (push_reply msg s)"
  "message_wf msg \<Longrightarrow> mem_ok s \<Longrightarrow> fits (push_download msg s)"
  unfolding push_reply_def push_download_def
  by (auto intro!: fits simp: mem_ok_def dest: push_message_types)

lemma fits_handle_requests [fits]:
  "env_types E \<Longrightarrow> message_wf msg \<Longrightarrow> mem_ok s \<Longrightarrow> fits (handle_requests E n msg s)"
  unfolding handle_requests_def by (intro fits)

text \<open>The strings of a datagram end within their arrays; then its message fits the struct, whatever
  else the bytes are.\<close>

definition strings_end :: "byte list \<Rightarrow> bool" where
  "strings_end bs \<longleftrightarrow> NUL \<in> set (take STRING_SIZE bs) \<and> NUL \<in> set (take STRING_SIZE (drop (STRING_SIZE + HASH_SIZE) bs))"

lemma c_str_ends: "NUL \<in> set bs \<Longrightarrow> length (c_str bs) < length bs"
  by (induction bs) (auto simp: c_str_def)

lemma message_of_bytes_wf:
  assumes "length bs = MESSAGE_SIZE" and "strings_end bs"
  shows "message_wf (message_of_bytes bs)"
proof -
  have b: "length bs = 1400" using assms(1) by (simp add: MESSAGE_SIZE_val MSG_SIZE_def)
  have "length (c_str (take 16 bs)) < 16" "length (c_str (take 16 (drop 36 bs))) < 16"
    using c_str_ends [of "take 16 bs"] c_str_ends [of "take 16 (drop 36 bs)"] assms(2) b
    by (simp_all add: strings_end_def STRING_SIZE_def HASH_SIZE_def)
  moreover have "le_value (take 8 (drop 64 bs)) < 2 ^ 64"
    using le_value_less [of "take 8 (drop 64 bs)"] b by simp
  moreover have "NUL \<notin> set (c_str xs)" for xs by (auto simp: c_str_def dest: set_takeWhileD)
  ultimately show ?thesis
    using b bytes_int_range [of "take 4 (drop 52 bs)"]
    by (simp add: message_wf_def message_of_bytes_def STRING_SIZE_def HASH_SIZE_def DATA_SIZE_val Let_def)
qed

lemma fits_listener_turn:
  assumes "env_types E" and "mem_ok s" and "length bs < MSG_SIZE \<or> strings_end bs"
  shows "fits (listener_turn E n (Some bs) s)"
  unfolding listener_turn_def
proof (rule fits_with_node [OF assms(2)], goal_cases)
  case (1 nd)
  show ?case
  proof (cases "socket_open nd \<and> MSG_SIZE \<le> length bs")
    case True
    have "strings_end (take MESSAGE_SIZE bs)"
      using assms(3) True
      by (simp add: strings_end_def STRING_SIZE_def HASH_SIZE_def MESSAGE_SIZE_val MSG_SIZE_def min_def drop_take)
    then have "message_wf (message_of_bytes (take MESSAGE_SIZE bs))"
      by (intro message_of_bytes_wf) (use True in \<open>simp_all add: MESSAGE_SIZE_val\<close>)
    then show ?thesis
      using True assms fits_handle_requests by (simp add: receive_message_def Let_def MESSAGE_SIZE_val)
  qed (use assms(2) in \<open>auto simp: receive_message_def Let_def MESSAGE_SIZE_val\<close>)
qed

section \<open>Joining, files and commands\<close>

lemma fits_join_ring [fits]: "env_types E \<Longrightarrow> mem_ok s \<Longrightarrow> fits (join_ring E n ip port s)"
  unfolding join_ring_def create_node_eq prod.case Let_def
  by (intro fits) (auto simp: types dest: entries_finish_join)

lemma fits_main_ring [fits]: "env_types E \<Longrightarrow> mem_ok s \<Longrightarrow> fits (main_ring E existing s)"
  unfolding main_ring_def by (intro fits)

lemma message_wf_request:
  assumes "env_types E" and "node_ok nd" and "length i = HASH_SIZE" and "ty \<in> {MSG_STORE_FILE, MSG_FIND_FILE}"
    and "strncpy_term (mdata (junk_msg E)) path n = Inr d"
  shows "message_wf ((new_message E ty i (nip nd) (nport nd) rid)\<lparr>mdata := d\<rparr>)"
proof -
  have "message_wf (new_message E ty i (nip nd) (nport nd) rid)"
    by (rule message_wf_node [OF assms(1-3)]) (use assms(4) in blast)
  then show ?thesis
    using strncpy_term_length [OF assms(5)] assms(1) by (simp add: message_wf_def env_types_def)
qed

lemma env_types_sha1: "env_types E \<Longrightarrow> length (sha1 E x) = HASH_SIZE"
  by (simp add: env_types_def)

lemma env_types_entry: "env_types E \<Longrightarrow> entry_wf (junk_entry E)"
  by (simp add: env_types_def)

lemma fits_store_file [fits]: "env_types E \<Longrightarrow> mem_ok s \<Longrightarrow> fits (store_file E n path s)"
  unfolding store_file_def Let_def
  by (intro fits) (auto simp: types message_wf_request env_types_sha1 env_types_entry dest: entries_store)

lemma fits_find_file [fits]: "env_types E \<Longrightarrow> mem_ok s \<Longrightarrow> fits (find_file E n name s)"
  unfolding find_file_def Let_def by (intro fits) (simp_all add: types message_wf_request env_types_sha1)

lemma mem_ok_set_outdir: "mem_ok s \<Longrightarrow> set_outdir E d s = (r, s') \<Longrightarrow> mem_ok s'"
  by (auto simp: set_outdir_def split: if_splits)

lemma fits_user_store [fits]: "env_types E \<Longrightarrow> mem_ok s \<Longrightarrow> fits (user_store E n cmd s)"
  unfolding user_store_def Let_def
  by (intro fits) (auto simp: types env_types_sha1 env_types_entry dest: entries_confirm)

lemma fits_user_find [fits]: "env_types E \<Longrightarrow> mem_ok s \<Longrightarrow> fits (user_find E n cmd answer s)"
  unfolding user_find_def Let_def by (intro fits)

lemma fits_user_command [fits]: "env_types E \<Longrightarrow> mem_ok s \<Longrightarrow> fits (user_command E n typed answer s)"
  unfolding user_command_def Let_def by (intro fits) (simp_all add: mem_ok_set_outdir)

lemma mem_ok_start:
  assumes "env_types E" and "address_ok ip port"
  shows "mem_ok (start_proc E ip port)"
proof -
  have "mem_ok empty_proc" by (simp add: mem_ok_def empty_proc_def queue_ok_types_def init_queue_def empty_store_def
      entries_ok_def)
  then have s: "mem_ok (add_node ip port (node_id E ip port) empty_proc)"
    by (rule mem_ok_create_node [OF _ assms])
  then have "node_ok (new_node ip port (node_id E ip port) 0)"
    by (rule mem_okD [where a = 0]) (simp add: empty_proc_def)
  then have "node_ok ((new_node ip port (node_id E ip port) 0)\<lparr>socket_open := True\<rparr>)" by simp
  with s show ?thesis by (simp add: start_proc_def create_node_eq mem_ok_def empty_proc_def)
qed

end
