(* ===== verification/Startup.thy ===== *)
theory Startup
  imports Peer_Behaviour Tracker_Server Chord_Datagram
begin

text \<open>
  How the programs come up: \<open>main\<close> of the tracker (\<open>src/tracker.cpp\<close>), of the peer
  (\<open>src/peer.cpp\<close>, with \<open>send_file\<close> of \<open>src/helper_peer.cpp\<close>, which runs in a thread) and of a ring
  process (\<open>src/main.cpp\<close>, with \<open>node_bind\<close> of \<open>src/node.cpp\<close>), up to the point where their loops
  start.  The results of the system calls are the record \<open>sys\<close>, the start of the thread among them; a
  port is passed to the kernel as 16 bits.  The arguments are those behind the name of the program.
  In a peer \<open>send_file\<close> runs beside \<open>main\<close>; where it does not come up, it ends the whole process.
\<close>

section \<open>System calls\<close>

record sys =
  sys_socket :: int
  sys_setsockopt :: "int \<Rightarrow> int"
  sys_inet_pton :: "string \<Rightarrow> int"
  sys_bind :: "int \<Rightarrow> string \<Rightarrow> 16 word \<Rightarrow> int"
  sys_listen :: "int \<Rightarrow> int"
  sys_connect :: "int \<Rightarrow> string \<Rightarrow> 16 word \<Rightarrow> int"
  sys_thread :: int      \<comment> \<open>\<open>pthread_create\<close>; where it is not 0, \<open>std::thread\<close> throws \<open>system_error\<close>\<close>

text \<open>What POSIX says of a descriptor that is not open.\<close>

definition fails_on_bad_descriptor :: "sys \<Rightarrow> bool" where
  "fails_on_bad_descriptor c \<longleftrightarrow>
     (\<forall>fd < 0. sys_setsockopt c fd < 0 \<and> sys_listen c fd < 0 \<and>
        (\<forall>ip port. sys_bind c fd ip port < 0 \<and> sys_connect c fd ip port < 0))"

datatype 'a startup = ExitStatus int string | StartupFault fault | Up 'a

text \<open>\<open>atoi\<close> is 0 where there is no number; what it does with a number that is not an
  \<open>int\<close> is not defined.\<close>

definition atoi :: "string \<Rightarrow> fault + int" where
  "atoi s = (case stoi s of Inl InvalidArgument \<Rightarrow> Inr 0 | r \<Rightarrow> r)"

definition htons :: "int \<Rightarrow> 16 word" where
  "htons port = word_of_int port"

section \<open>The tracker and the peer\<close>

definition tracker_main :: "sys \<Rightarrow> string list \<Rightarrow> (int \<times> string \<times> 16 word \<times> server) startup" where
  "tracker_main c args =
     (if length args \<noteq> 2 then ExitStatus 1 ''incorrect amount of arguments <trackerip> <trackerport>''
      else
        let ip = args ! 0; server_fd = sys_socket c
        in case atoi (args ! 1) of
             Inl e \<Rightarrow> StartupFault e
           | Inr port \<Rightarrow>
               if server_fd = 0 then ExitStatus 0 ''error in creating socket''
               else if sys_setsockopt c server_fd < 0 then ExitStatus 1 ''setsockopt failed''
               else if sys_inet_pton c ip \<le> 0 then ExitStatus 1 ''error in creating socket''
               else if sys_bind c server_fd ip (htons port) < 0 then ExitStatus 1 ''bind failed''
               else if sys_listen c server_fd < 0 then ExitStatus 1 ''listen failed''
               else if sys_thread c \<noteq> 0 then StartupFault SystemError
               else Up (server_fd, ip, htons port, server_init))"

definition send_file :: "sys \<Rightarrow> int \<Rightarrow> string \<Rightarrow> int startup" where
  "send_file c port ip =
     (let send_fd = sys_socket c
      in if send_fd = 0 then ExitStatus 1 ''error in creating socket''
         else if sys_setsockopt c send_fd < 0 then ExitStatus 1 ''setockopt failed''
         else if sys_inet_pton c ip \<le> 0 then ExitStatus 1 ''error in creating socket''
         else if sys_bind c send_fd ip (htons port) < 0 then ExitStatus 1 ''bind failed''
         else if sys_listen c send_fd < 0 then ExitStatus 1 ''listen failed''
         else Up send_fd)"

text \<open>The peer: the connection to the tracker, the greeting sent over it, and what the thread of
  \<open>send_file\<close> is started with.\<close>

definition peer_main :: "sys \<Rightarrow> string list \<Rightarrow> (int \<times> string \<times> int \<times> string) startup" where
  "peer_main c args =
     (if length args \<noteq> 3
      then ExitStatus 1 ''incorrect amount of arguments Usage <peerip:port> <trackerip> <trackerport>''
      else case peer_start (args ! 0) of
             Inl e \<Rightarrow> StartupFault e
           | Inr (port, ip_addr, greeting) \<Rightarrow>
               (case atoi (args ! 2) of
                  Inl e \<Rightarrow> StartupFault e
                | Inr server_port \<Rightarrow>
                    let sock_fd = sys_socket c
                    in if sys_thread c \<noteq> 0 then StartupFault SystemError
                       else if sys_inet_pton c (args ! 1) \<le> 0 then ExitStatus 1 ''error in creating socket''
                       else if sys_connect c sock_fd (args ! 1) (htons server_port) < 0
                       then ExitStatus 1 ''connection to tracker failed''
                       else Up (sock_fd, greeting, port, ip_addr)))"

section \<open>A ring process\<close>

definition node_bind :: "sys \<Rightarrow> nat \<Rightarrow> proc \<Rightarrow> unit outcome" where
  "node_bind c n s =
     with_node n s (\<lambda>nd.
       let sockfd = sys_socket c
       in if sockfd < 0 then Exited
          else if sys_setsockopt c sockfd < 0 then Exited
          else if sys_bind c sockfd (nip nd) (htons (nport nd)) < 0 then Exited
          else Done () (s\<lparr>socket_alive := True, node_mem := (node_mem s)(n \<mapsto> nd\<lparr>socket_open := True\<rparr>)\<rparr>))"

text \<open>\<open>main\<close> up to \<open>create_ring\<close> or \<open>join_ring\<close>: its result is the ring to join.  The
  listener's thread is started before the last argument is read.\<close>

definition chord_main :: "env \<Rightarrow> sys \<Rightarrow> string list \<Rightarrow> (string \<times> int) option outcome startup" where
  "chord_main E c args =
     (if length args < 2 then ExitStatus 1 ''Usage: <IP> <PORT> [EXISTING_IP] [EXISTING_PORT]''
      else case atoi (args ! 1) of
             Inl e \<Rightarrow> StartupFault e
           | Inr port \<Rightarrow>
               let (n, s) = create_node E (args ! 0) port empty_proc
               in Up (bind (node_bind c n (s\<lparr>self := n\<rparr>)) (\<lambda>_ s.
                        if sys_thread c \<noteq> 0 then Exited
                        else if length args = 4 then
                          (case atoi (args ! 3) of
                             Inl e \<Rightarrow> Crashed e
                           | Inr existing_port \<Rightarrow> Done (Some (args ! 2, existing_port)) s)
                        else Done None s)))"

section \<open>What is up\<close>

lemma node_bind_start:
  "create_node E ip port empty_proc = (n, s) \<Longrightarrow>
   node_bind c n (s\<lparr>self := n\<rparr>) =
     (if 0 \<le> sys_socket c \<and> 0 \<le> sys_setsockopt c (sys_socket c) \<and>
         0 \<le> sys_bind c (sys_socket c) (take 15 ip) (htons port)
      then Done () (start_proc E ip port) else Exited)"
  by (auto simp: node_bind_def with_node_def start_proc_def create_node_def put_node_def empty_proc_def Let_def)

lemma chord_main_up:
  "chord_main E c args = Up (Done existing s) \<longleftrightarrow>
     (\<exists>port. 2 \<le> length args \<and> atoi (args ! 1) = Inr port \<and> s = start_proc E (args ! 0) port \<and>
        0 \<le> sys_socket c \<and> 0 \<le> sys_setsockopt c (sys_socket c) \<and>
        0 \<le> sys_bind c (sys_socket c) (take 15 (args ! 0)) (htons port) \<and> sys_thread c = 0 \<and>
        (if length args = 4 then \<exists>ep. atoi (args ! 3) = Inr ep \<and> existing = Some (args ! 2, ep)
         else existing = None))"
  by (auto simp: chord_main_def node_bind_start not_less split: sum.splits if_splits prod.splits)

lemma chord_main_ends:
  "chord_main E c args = Up out \<Longrightarrow> (\<exists>existing s. out = Done existing s) \<or> out = Exited \<or> (\<exists>e. out = Crashed e)"
  by (auto simp: chord_main_def node_bind_start split: sum.splits if_splits prod.splits)

text \<open>A process that was not told of a ring is alone in its own.\<close>

lemma main_ring_alone:
  assumes "\<And>x. is_id (sha1 E x)"
  obtains s nd where "main_ring E None (start_proc E ip port) = Done () s" and "node_at s (self s) nd nd"
    and "successor nd = self s" and "predecessor nd = None" and "files nd = None" and "uploaded_files nd = None"
    and "socket_open nd" and "socket_alive s" and "nid nd = node_id E ip port" and "nip nd = take 15 ip"
    and "nport nd = port" and "reply_queue s = init_queue" and "download_queue s = init_queue"
proof -
  let ?s = "start_proc E ip port"
  let ?nd = "(new_node ip port (node_id E ip port) 0)\<lparr>socket_open := True\<rparr>"
  have s: "node_mem ?s = [0 \<mapsto> ?nd]" "self ?s = 0" "node_brk ?s = 1" "socket_alive ?s"
    "reply_queue ?s = init_queue" "download_queue ?s = init_queue"
    by (simp_all add: start_proc_def create_node_eq add_node_def empty_proc_def)
  have "is_id (node_id E ip port)" using assms by (simp add: node_id_def)
  then have "node_at (put_node 0 (?nd\<lparr>predecessor := None, successor := 0\<rparr>) ?s) 0
      (?nd\<lparr>predecessor := None, successor := 0\<rparr>) (?nd\<lparr>predecessor := None, successor := 0\<rparr>)"
    by (simp add: node_at_def put_node_def s) (simp add: new_node_def)
  then show ?thesis
    by (intro that [of "put_node 0 (?nd\<lparr>predecessor := None, successor := 0\<rparr>) ?s" "?nd\<lparr>predecessor := None, successor := 0\<rparr>"])
      (simp_all add: main_ring_def create_ring_def put_node_def s)
qed

lemma find_successor_alone:
  assumes "node_at s n nd nd" and "successor nd = n" and "is_id i"
  shows "find_successor E n i s = Done (node_brk s) (add_node (nip nd) (nport nd) (nid nd) s)"
proof -
  note at = node_atD [OF assms(1)]
  have "is_in_interval i (nid nd) (nid nd) \<or> memcmp i (nid nd) HASH_SIZE = 0"
    using assms(3) at(4) by (auto simp: is_in_interval_def memcmp_id_num)
  then show ?thesis using at(1) assms(2) copy_successor_at [OF assms(1), of E] by (simp add: find_successor_def)
qed

text \<open>C40: The programs come up exactly when the calls they depend on succeed, and what comes up fits
  together.  The tracker and the thread that serves pieces listen on an open descriptor, bound to the
  given address and the port's low 16 bits, the tracker with the empty state and with its terminal's thread.
  A peer goes on exactly with a connection to the tracker and the thread that serves its pieces, and
  the tracker that reads its greeting into a zeroed buffer records the address and port this thread is
  started with.  A ring process comes up exactly with its socket bound and its listener
  started, and otherwise ends before it has sent anything; it joins a ring only where
  exactly four arguments name one.  Otherwise it is alone in a ring of its own: it is its own successor and
  the answer to every look-up, with an identifier computed from its address and port, without
  files or messages, and a datagram sent to the address and port of its node goes to the port that was bound.\<close>

theorem startup_needs_its_calls:
  assumes "fails_on_bad_descriptor c" and "\<And>x. is_id (sha1 E x)"
  shows "(tracker_main c args = Up (fd, ip, p, sv) \<longleftrightarrow>
            (\<exists>port. length args = 2 \<and> ip = args ! 0 \<and> atoi (args ! 1) = Inr port \<and> p = htons port \<and> sv = server_init \<and>
               fd = sys_socket c \<and> 0 < fd \<and> 0 \<le> sys_setsockopt c fd \<and> 0 < sys_inet_pton c ip \<and>
               0 \<le> sys_bind c fd ip p \<and> 0 \<le> sys_listen c fd \<and> sys_thread c = 0)) \<and>
         (send_file c port ip = Up fd \<longleftrightarrow>
            fd = sys_socket c \<and> 0 < fd \<and> 0 \<le> sys_setsockopt c fd \<and> 0 < sys_inet_pton c ip \<and>
            0 \<le> sys_bind c fd ip (htons port) \<and> 0 \<le> sys_listen c fd) \<and>
         (peer_main c args = Up (fd, greeting, port, ip) \<longleftrightarrow>
            (\<exists>tracker_port. length args = 3 \<and> peer_start (args ! 0) = Inr (port, ip, greeting) \<and>
               atoi (args ! 2) = Inr tracker_port \<and> fd = sys_socket c \<and> 0 \<le> fd \<and> sys_thread c = 0 \<and>
               0 < sys_inet_pton c (args ! 1) \<and> 0 \<le> sys_connect c fd (args ! 1) (htons tracker_port))) \<and>
         (peer_main c args = Up (fd, greeting, port, ip) \<and> NUL \<notin> set (args ! 0) \<longrightarrow>
            hello greeting (NUL # junk) sock t = Inr (t\<lparr>listenmap := (listenmap t)(sock \<mapsto> (port, ip))\<rparr>)) \<and>
         (chord_main E c args = Up (Done existing s) \<longleftrightarrow>
            (\<exists>port. 2 \<le> length args \<and> atoi (args ! 1) = Inr port \<and> s = start_proc E (args ! 0) port \<and>
               0 \<le> sys_socket c \<and> 0 \<le> sys_setsockopt c (sys_socket c) \<and>
               0 \<le> sys_bind c (sys_socket c) (take 15 (args ! 0)) (htons port) \<and> sys_thread c = 0 \<and>
               (if length args = 4 then \<exists>ep. atoi (args ! 3) = Inr ep \<and> existing = Some (args ! 2, ep)
                else existing = None))) \<and>
         (chord_main E c args = Up out \<longrightarrow>
            (\<exists>existing s. out = Done existing s) \<or> out = Exited \<or> (\<exists>e. out = Crashed e)) \<and>
         (chord_main E c args = Up (Done None s) \<longrightarrow>
            (\<exists>s1 nd. main_ring E None s = Done () s1 \<and> node_mem s1 (self s1) = Some nd \<and>
               successor nd = self s1 \<and> predecessor nd = None \<and> files nd = None \<and> uploaded_files nd = None \<and>
               reply_queue s1 = init_queue \<and> download_queue s1 = init_queue \<and>
               atoi (args ! 1) = Inr (nport nd) \<and> nip nd = take 15 (args ! 0) \<and>
               nid nd = sha1 E (take 255 (args ! 0 @ '':'' @ to_string (nport nd))) \<and>
               (\<forall>m. 0 \<le> sys_bind c (sys_socket c) (nip nd) (dst_port (send_message inet b (nip nd) (nport nd) m))) \<and>
               (\<forall>i. is_id i \<longrightarrow> (\<exists>a s2. find_successor E (self s1) i s1 = Done a s2 \<and>
                  map_option nid (node_mem s2 a) = Some (nid nd)))))"
  (is "?tracker \<and> ?serve \<and> ?peer \<and> ?hello \<and> _ \<and> _ \<and> ?alone")
proof (intro conjI chord_main_up)
  have bad: "0 < fd" if "0 \<le> sys_setsockopt c fd" "fd \<noteq> 0" for fd
  proof (rule ccontr)
    assume "\<not> 0 < fd"
    then have "sys_setsockopt c fd < 0" using assms that(2) by (simp add: fails_on_bad_descriptor_def)
    then show False using that(1) by simp
  qed
  have bad': "0 \<le> fd" if "0 \<le> sys_connect c fd ip port" for fd ip port
    using assms that by (meson fails_on_bad_descriptor_def not_less)
  show ?serve using bad by (auto simp: send_file_def Let_def not_less not_le split: if_splits)
  show ?peer using bad' by (auto simp: peer_main_def Let_def not_less not_le split: if_splits sum.splits)
  then show ?hello using peer_address_registered [of "args ! 0" port ip greeting] by auto
  show ?tracker
    using bad by (auto simp: tracker_main_def Let_def not_less not_le split: if_splits sum.splits)
  show "chord_main E c args = Up out \<longrightarrow> (\<exists>existing s. out = Done existing s) \<or> out = Exited \<or> (\<exists>e. out = Crashed e)"
    using chord_main_ends by blast
  show ?alone
  proof
    assume "chord_main E c args = Up (Done None s)"
    then obtain port' where up: "atoi (args ! 1) = Inr port'" "s = start_proc E (args ! 0) port'"
      "0 \<le> sys_bind c (sys_socket c) (take 15 (args ! 0)) (htons port')"
      unfolding chord_main_up by blast
    obtain s1 nd where ring: "main_ring E None (start_proc E (args ! 0) port') = Done () s1" "node_at s1 (self s1) nd nd"
      "successor nd = self s1" "predecessor nd = None" "files nd = None" "uploaded_files nd = None" "socket_open nd"
      "socket_alive s1" "nid nd = node_id E (args ! 0) port'" "nip nd = take 15 (args ! 0)" "nport nd = port'"
      "reply_queue s1 = init_queue" "download_queue s1 = init_queue"
      by (rule main_ring_alone [OF assms(2)])
    have "\<exists>a s2. find_successor E (self s1) i s1 = Done a s2 \<and> map_option nid (node_mem s2 a) = Some (nid nd)"
      if "is_id i" for i
      using find_successor_alone [OF ring(2,3) that, of E] by simp
    then show "\<exists>s1 nd. main_ring E None s = Done () s1 \<and> node_mem s1 (self s1) = Some nd \<and>
               successor nd = self s1 \<and> predecessor nd = None \<and> files nd = None \<and> uploaded_files nd = None \<and>
               reply_queue s1 = init_queue \<and> download_queue s1 = init_queue \<and>
               atoi (args ! 1) = Inr (nport nd) \<and> nip nd = take 15 (args ! 0) \<and>
               nid nd = sha1 E (take 255 (args ! 0 @ '':'' @ to_string (nport nd))) \<and>
               (\<forall>m. 0 \<le> sys_bind c (sys_socket c) (nip nd) (dst_port (send_message inet b (nip nd) (nport nd) m))) \<and>
               (\<forall>i. is_id i \<longrightarrow> (\<exists>a s2. find_successor E (self s1) i s1 = Done a s2 \<and>
                  map_option nid (node_mem s2 a) = Some (nid nd)))"
      using ring node_atD(1) [OF ring(2)] up
      by (intro exI [of _ s1] exI [of _ nd]) (simp add: node_id_def send_message_def htons_def)
  qed
qed

definition demo_sys :: sys where
  "demo_sys = \<lparr>sys_socket = 3, sys_setsockopt = (\<lambda>fd. if fd < 0 then -1 else 0), sys_inet_pton = (\<lambda>_. 1),
     sys_bind = (\<lambda>fd _ _. if fd < 0 then -1 else 0), sys_listen = (\<lambda>fd. if fd < 0 then -1 else 0),
     sys_connect = (\<lambda>fd _ _. if fd < 0 then -1 else 0), sys_thread = 0\<rparr>"

lemma demo_boot:
  "chord_main demo_env demo_sys [''10.0.0.1'', ''5000''] = Up (Done None (start_proc demo_env ''10.0.0.1'' 5000))"
proof -
  have "atoi ''5000'' = Inr 5000" by (simp add: atoi_def stoi_def isspace_def isdigit_def digits_value_def)
  then show ?thesis unfolding chord_main_up by (intro exI [of _ 5000]) (simp add: demo_sys_def)
qed

theorem startup_needs_its_calls_witness:
  "tracker_main demo_sys [''10.0.0.1'', ''70000''] = Up (3, ''10.0.0.1'', 4464, server_init) \<and>
   (\<exists>s1 nd. main_ring demo_env None (start_proc demo_env ''10.0.0.1'' 5000) = Done () s1 \<and>
      node_mem s1 (self s1) = Some nd \<and> successor nd = self s1 \<and> nip nd = ''10.0.0.1'')"
proof -
  have f: "fails_on_bad_descriptor demo_sys" by (simp add: fails_on_bad_descriptor_def demo_sys_def)
  have i: "is_id (sha1 demo_env x)" for x by (simp add: small_id_is_id)
  have "atoi ''70000'' = Inr 70000" by (simp add: atoi_def stoi_def isspace_def isdigit_def digits_value_def)
  then have "tracker_main demo_sys [''10.0.0.1'', ''70000''] = Up (3, ''10.0.0.1'', 4464, server_init)"
    using startup_needs_its_calls [OF f i, of "[''10.0.0.1'', ''70000'']" 3 "''10.0.0.1''" 4464 server_init]
    by (simp add: demo_sys_def htons_def)
  moreover have "\<exists>s1 nd. main_ring demo_env None (start_proc demo_env ''10.0.0.1'' 5000) = Done () s1 \<and>
      node_mem s1 (self s1) = Some nd \<and> successor nd = self s1 \<and> nip nd = take 15 ([''10.0.0.1'', ''5000''] ! 0)"
    using startup_needs_its_calls [OF f i, where args = "[''10.0.0.1'', ''5000'']" and inet = "\<lambda>_. 7" and b = NUL,
        THEN conjunct2, THEN conjunct2, THEN conjunct2, THEN conjunct2, THEN conjunct2, THEN conjunct2, THEN mp, OF demo_boot]
    by blast
  ultimately show ?thesis by simp
qed

end
