(* ===== verification/Chord_Network.thy ===== *)
theory Chord_Network
  imports Chord_System Chord_Types Startup
begin

text \<open>
  A network of Chord processes as a transition system.  Each process has three threads
  (\<open>listener_thread\<close> and \<open>node_thread\<close> of \<open>src/threads.cpp\<close> and the main thread of
  \<open>src/main.cpp\<close>), which take turns at their interactions.  A datagram that was sent stays
  available: it may arrive any number of times, late, or never, and at any process, for one
  process has several addresses and a port is cut to 16 bits; so the network has more behaviours
  than the code.  The numbers of \<open>generate_id\<close> are never issued twice.
\<close>

section \<open>Numbers of requests\<close>

text \<open>\<open>generate_id\<close>: the first 32 bits of a UUID of 128, so that two UUIDs may give the same number.\<close>

definition generate_id :: "byte list \<Rightarrow> 32 word" where
  "generate_id uuid = of_nat (le_value (take 4 uuid))"

lemma generate_id_collides: "generate_id (take 4 u @ x) = generate_id (take 4 u @ y)" if "4 \<le> length u"
  using that by (simp add: generate_id_def min_absorb2)

lemma generate_id_0: "generate_id (replicate 16 NUL) = 0"
  by (simp add: generate_id_def numeral_eq_Suc)

section \<open>One interaction of a thread\<close>

text \<open>\<open>resume inet E iss s out sent iss' out'\<close>: in memory \<open>s\<close> the thread stopped at \<open>out\<close> goes on to
  \<open>out'\<close>.  A thread that waits goes on where its message is in the queue; one iteration of the
  receiving loop of \<open>join_ring\<close> takes one message.\<close>

definition pop_reply :: "32 word \<Rightarrow> proc \<Rightarrow> (message \<times> proc) option" where
  "pop_reply rid s =
     (case pop_search rid (reply_queue s) of
        Some (Inr (Some (m, q))) \<Rightarrow> Some (m, s\<lparr>reply_queue := q\<rparr>)
      | _ \<Rightarrow> None)"

definition pop_download :: "32 word \<Rightarrow> proc \<Rightarrow> (message \<times> proc) option" where
  "pop_download rid s =
     (case pop_search rid (download_queue s) of
        Some (Inr (Some (m, q))) \<Rightarrow> Some (m, s\<lparr>download_queue := q\<rparr>)
      | _ \<Rightarrow> None)"

inductive resume ::
    "(string \<Rightarrow> 32 word) \<Rightarrow> env \<Rightarrow> issued \<Rightarrow> proc \<Rightarrow> 'a outcome \<Rightarrow> datagram set \<Rightarrow> issued \<Rightarrow> 'a outcome \<Rightarrow> bool"
  for inet :: "string \<Rightarrow> 32 word" and E :: env and iss :: issued and s :: proc where
  resume_sent: "0 \<le> r \<Longrightarrow>
     resume inet E iss s (Sending ip port m s0 k) {send_message inet (junk_byte E) ip port m} iss (k r s)"
| resume_not_sent: "r < 0 \<Longrightarrow> resume inet E iss s (Sending ip port m s0 k) {} iss (k r s)"
| resume_reply: "pop_reply rid s = Some (m, s') \<Longrightarrow>
     resume inet E iss s (Waiting ReplyQueue rid s0 k) {} iss (k m s')"
| resume_download: "pop_download rid s = Some (m, s') \<Longrightarrow>
     resume inet E iss s (Waiting DownloadQueue rid s0 k) {} iss (k m s')"
| resume_id: "length uuid = 16 \<Longrightarrow> i = generate_id uuid \<Longrightarrow> iss i = None \<Longrightarrow>
     resume inet E iss s (NeedId s0 k) {} (iss(i \<mapsto> kind_of (k i s))) (k i s)"
| resume_segment: "pop_download rid s = Some (m, s') \<Longrightarrow> mtype m \<noteq> MSG_FILE_END \<Longrightarrow>
     receive_segment (junk_byte E) m buf len = Inr (buf', len') \<Longrightarrow>
     resume inet E iss s (Receiving rid buf len s0 k) {} iss (Receiving rid buf' len' s' k)"
| resume_overflow: "pop_download rid s = Some (m, s') \<Longrightarrow> mtype m \<noteq> MSG_FILE_END \<Longrightarrow>
     receive_segment (junk_byte E) m buf len = Inl e \<Longrightarrow>
     resume inet E iss s (Receiving rid buf len s0 k) {} iss (Crashed e)"
| resume_end: "pop_download rid s = Some (m, s') \<Longrightarrow> mtype m = MSG_FILE_END \<Longrightarrow>
     resume inet E iss s (Receiving rid buf len s0 k) {} iss (k m buf len s')"

section \<open>The network\<close>

text \<open>A process is its memory and its threads: the listener between two messages or in a
  handler, \<open>main\<close> before (\<open>ring\<close>) and while it creates or joins the ring (\<open>starting\<close>) and then
  running commands, the node thread once it is started; where it cannot be, \<open>main\<close> ends the process.\<close>

record host =
  mem :: proc
  creator :: bool
  ring :: "(string \<times> int) option option"
  listener :: "unit outcome option"
  starting :: "unit outcome option"
  command :: "(string list \<times> bool) outcome option"
  worker :: "nat outcome option"

record network =
  hosts :: "nat \<Rightarrow> host option"      \<comment> \<open>by the number of the process\<close>
  sent :: "datagram set"
  issued :: issued

definition network_init :: network where
  "network_init = \<lparr>hosts = Map.empty, sent = {}, issued = Map.empty\<rparr>"

text \<open>The memory a thread leaves at its next interaction; where the process has ended
  there is none.\<close>

definition state_of :: "'a outcome \<Rightarrow> proc option" where
  "state_of out =
     (case out of
        Done x s \<Rightarrow> Some s | Sending ip port m s k \<Rightarrow> Some s | Waiting q rid s k \<Rightarrow> Some s
      | NeedId s k \<Rightarrow> Some s | Receiving rid b n s k \<Rightarrow> Some s | _ \<Rightarrow> None)"

definition set_host :: "nat \<Rightarrow> 'a outcome \<Rightarrow> (proc \<Rightarrow> host) \<Rightarrow> datagram set \<Rightarrow> issued \<Rightarrow> network \<Rightarrow> network" where
  "set_host p out f ds iss net =
     \<lparr>hosts = (hosts net)(p := map_option f (state_of out)), sent = sent net \<union> ds, issued = iss\<rparr>"

definition boot :: "(string \<times> int) option \<Rightarrow> proc \<Rightarrow> host" where
  "boot existing s =
     \<lparr>mem = s, creator = (existing = None), ring = Some existing, listener = None,
      starting = None, command = None, worker = None\<rparr>"

inductive network_step :: "(string \<Rightarrow> 32 word) \<Rightarrow> env \<Rightarrow> network \<Rightarrow> network \<Rightarrow> bool"
  for inet :: "string \<Rightarrow> 32 word" and E :: env where
  step_boot: "hosts net p = None \<Longrightarrow> \<forall>x \<in> set args. NUL \<notin> set x \<Longrightarrow>
     chord_main E c args = Up (Done existing s) \<Longrightarrow>
     network_step inet E net (net\<lparr>hosts := (hosts net)(p \<mapsto> boot existing s)\<rparr>)"
| step_ring: "hosts net p = Some h \<Longrightarrow> ring h = Some existing \<Longrightarrow>
     main_ring E existing (mem h) = out \<Longrightarrow>
     network_step inet E net
       (set_host p out (\<lambda>s. h\<lparr>mem := s, ring := None, starting := Some out\<rparr>) {} (issued net) net)"
| step_deliver: "hosts net p = Some h \<Longrightarrow> listener h = None \<Longrightarrow> d \<in> sent net \<Longrightarrow>
     listener_turn E (self (mem h)) (Some (payload d)) (mem h) = out \<Longrightarrow>
     network_step inet E net (set_host p out (\<lambda>s. h\<lparr>mem := s, listener := Some out\<rparr>) {} (issued net) net)"
| step_listener: "hosts net p = Some h \<Longrightarrow> listener h = Some out0 \<Longrightarrow>
     resume inet E (issued net) (mem h) out0 ds iss out \<Longrightarrow>
     network_step inet E net (set_host p out (\<lambda>s. h\<lparr>mem := s, listener := Some out\<rparr>) ds iss net)"
| step_handled: "hosts net p = Some h \<Longrightarrow> listener h = Some (Done () s) \<Longrightarrow>
     network_step inet E net (net\<lparr>hosts := (hosts net)(p \<mapsto> h\<lparr>listener := None\<rparr>)\<rparr>)"
| step_starting: "hosts net p = Some h \<Longrightarrow> starting h = Some out0 \<Longrightarrow>
     resume inet E (issued net) (mem h) out0 ds iss out \<Longrightarrow>
     network_step inet E net (set_host p out (\<lambda>s. h\<lparr>mem := s, starting := Some out\<rparr>) ds iss net)"
| step_started: "hosts net p = Some h \<Longrightarrow> starting h = Some (Done () s) \<Longrightarrow>
     node_round E (self (mem h)) 0 (mem h) = out \<Longrightarrow>
     network_step inet E net
       (set_host p out (\<lambda>s. h\<lparr>mem := s, starting := None, worker := Some out\<rparr>) {} (issued net) net)"
| step_not_started: "hosts net p = Some h \<Longrightarrow> starting h = Some (Done () s) \<Longrightarrow>
     network_step inet E net (net\<lparr>hosts := (hosts net)(p := None)\<rparr>)"
| step_worker: "hosts net p = Some h \<Longrightarrow> worker h = Some out0 \<Longrightarrow>
     resume inet E (issued net) (mem h) out0 ds iss out \<Longrightarrow>
     network_step inet E net (set_host p out (\<lambda>s. h\<lparr>mem := s, worker := Some out\<rparr>) ds iss net)"
| step_round: "hosts net p = Some h \<Longrightarrow> worker h = Some (Done next s) \<Longrightarrow>
     node_round E (self (mem h)) next (mem h) = out \<Longrightarrow>
     network_step inet E net (set_host p out (\<lambda>s. h\<lparr>mem := s, worker := Some out\<rparr>) {} (issued net) net)"
| step_command: "hosts net p = Some h \<Longrightarrow> worker h \<noteq> None \<Longrightarrow> command h = None \<Longrightarrow>
     user_command E (self (mem h)) typed answer (mem h) = out \<Longrightarrow>
     network_step inet E net (set_host p out (\<lambda>s. h\<lparr>mem := s, command := Some out\<rparr>) {} (issued net) net)"
| step_main: "hosts net p = Some h \<Longrightarrow> command h = Some out0 \<Longrightarrow>
     resume inet E (issued net) (mem h) out0 ds iss out \<Longrightarrow>
     network_step inet E net (set_host p out (\<lambda>s. h\<lparr>mem := s, command := Some out\<rparr>) ds iss net)"
| step_prompt: "hosts net p = Some h \<Longrightarrow> command h = Some (Done (printed, go) s) \<Longrightarrow>
     network_step inet E net
       (net\<lparr>hosts := (hosts net)(p := (if go then Some (h\<lparr>command := None\<rparr>) else None))\<rparr>)"

abbreviation network_reach :: "(string \<Rightarrow> 32 word) \<Rightarrow> env \<Rightarrow> network \<Rightarrow> bool" where
  "network_reach inet E \<equiv> reach (\<lambda>net. net = network_init) (network_step inet E)"

section \<open>The invariant\<close>

text \<open>What the threads guarantee: the two contracts of \<open>Chord_System\<close> and \<open>Chord_Types\<close> together.\<close>

definition memory_ok :: "nat \<Rightarrow> bool \<Rightarrow> issued \<Rightarrow> proc \<Rightarrow> bool" where
  "memory_ok n b iss s \<longleftrightarrow> quiet n b iss s \<and> mem_ok s"

definition guarded :: "nat \<Rightarrow> bool \<Rightarrow> ('a \<Rightarrow> bool) \<Rightarrow> issued \<Rightarrow> 'a outcome \<Rightarrow> bool" where
  "guarded n b P iss out \<longleftrightarrow> keeps n b P out iss \<and> fits out"

definition datagram_ok :: "(string \<Rightarrow> 32 word) \<Rightarrow> env \<Rightarrow> issued \<Rightarrow> datagram \<Rightarrow> bool" where
  "datagram_ok inet E iss d \<longleftrightarrow>
     (\<exists>ip port m. d = send_message inet (junk_byte E) ip port m \<and> message_wf m \<and> may_send iss m)"

definition host_ok :: "issued \<Rightarrow> host \<Rightarrow> bool" where
  "host_ok iss h \<longleftrightarrow>
     (\<forall>existing. ring h = Some existing \<longrightarrow> creator h = (existing = None)) \<and>
     memory_ok (self (mem h)) (creator h) iss (mem h) \<and>
     pred_option (guarded (self (mem h)) (creator h) (\<lambda>_. True) iss) (listener h) \<and>
     pred_option (guarded (self (mem h)) (creator h) (\<lambda>_. True) iss) (starting h) \<and>
     pred_option (guarded (self (mem h)) (creator h) (\<lambda>_. True) iss) (command h) \<and>
     pred_option (guarded (self (mem h)) (creator h) (\<lambda>_. False) iss) (worker h)"

definition network_inv :: "(string \<Rightarrow> 32 word) \<Rightarrow> env \<Rightarrow> network \<Rightarrow> bool" where
  "network_inv inet E net \<longleftrightarrow>
     (\<forall>p h. hosts net p = Some h \<longrightarrow> host_ok (issued net) h) \<and>
     (\<forall>d \<in> sent net. datagram_ok inet E (issued net) d)"

lemma memory_ok_mono: "memory_ok n b iss s \<Longrightarrow> iss \<subseteq>\<^sub>m iss' \<Longrightarrow> memory_ok n b iss' s"
  by (simp add: memory_ok_def quiet_mono [where iss = iss])

lemma guarded_mono: "guarded n b P iss out \<Longrightarrow> iss \<subseteq>\<^sub>m iss' \<Longrightarrow> guarded n b P iss' out"
  by (simp add: guarded_def keeps_mono [where iss = iss])

lemma thread_mono:
  "pred_option (guarded n b P iss) t \<Longrightarrow> iss \<subseteq>\<^sub>m iss' \<Longrightarrow> pred_option (guarded n b P iss') t"
  by (cases t) (auto intro: guarded_mono)

lemma host_ok_mono: "host_ok iss h \<Longrightarrow> iss \<subseteq>\<^sub>m iss' \<Longrightarrow> host_ok iss' h"
  unfolding host_ok_def by (blast intro: thread_mono memory_ok_mono)

lemma datagram_ok_mono: "datagram_ok inet E iss d \<Longrightarrow> iss \<subseteq>\<^sub>m iss' \<Longrightarrow> datagram_ok inet E iss' d"
  unfolding datagram_ok_def by (blast intro: may_send_mono)

lemma memory_ok_self: "memory_ok n b iss s \<Longrightarrow> self s = n"
  by (simp add: memory_ok_def quiet_def)

lemma guarded_state: "guarded n b P iss out \<Longrightarrow> state_of out = Some s \<Longrightarrow> memory_ok n b iss s"
  by (cases out) (simp_all add: state_of_def guarded_def memory_ok_def)

lemma pop_reply_ok:
  assumes "memory_ok n b iss s" and "pop_reply rid s = Some (m, s')"
  shows "memory_ok n b iss s' \<and> iss rid = Some MSG_JOIN \<and> message_wf m"
proof -
  have qs: "quiet n b iss s" "mem_ok s" using assms(1) by (simp_all add: memory_ok_def)
  from qs(1) obtain as ms where q: "queue_at (reply_queue s) as ms"
    and j: "\<forall>m \<in> set ms. iss (request_id m) = Some MSG_JOIN"
    unfolding quiet_def by blast
  from assms(2) obtain q1 where p: "pop_search rid (reply_queue s) = Some (Inr (Some (m, q1)))"
    and s': "s' = s\<lparr>reply_queue := q1\<rparr>"
    by (auto simp: pop_reply_def split: option.splits sum.splits)
  have "message_wf m \<and> mem_ok s'" using pop_search_types [OF _ p] qs(2) s' by (simp add: mem_ok_def)
  moreover from pop_search_at [OF q, of rid] p obtain xs ys as' where "ms = xs @ m # ys" "request_id m = rid"
    "queue_at q1 as' (xs @ ys)" by auto
  ultimately show ?thesis using j s' quiet_reply_queue [OF qs(1)] by (auto simp: memory_ok_def)
qed

lemma pop_download_ok:
  assumes "memory_ok n b iss s" and "pop_download rid s = Some (m, s')"
  shows "memory_ok n b iss s' \<and> message_wf m"
proof -
  from assms(2) obtain q1 where p: "pop_search rid (download_queue s) = Some (Inr (Some (m, q1)))"
    and s': "s' = s\<lparr>download_queue := q1\<rparr>"
    by (auto simp: pop_download_def split: option.splits sum.splits)
  have "message_wf m \<and> mem_ok s'" using pop_search_types [OF _ p] assms(1) s' by (simp add: memory_ok_def mem_ok_def)
  then show ?thesis using assms(1) s' by (simp add: memory_ok_def)
qed

text \<open>What a thread does at its interaction keeps the guarantees of all threads.\<close>

lemma resume_guarded:
  assumes "resume inet E iss s out ds iss' out'" and q: "memory_ok n b iss s" and g: "guarded n b P iss out"
  shows "iss \<subseteq>\<^sub>m iss' \<and> (\<forall>d \<in> ds. datagram_ok inet E iss' d) \<and> guarded n b P iss' out'"
  using assms(1)
proof cases
  case (resume_sent r ip port m s0 k)
  then show ?thesis using g q by (auto simp: guarded_def memory_ok_def datagram_ok_def)
next
  case (resume_id uuid i s0 k)
  have k: "keeps n b P (NeedId s0 k) iss" "fits (NeedId s0 k)" "quiet n b iss s" "mem_ok s"
    using g q resume_id(1) by (simp_all add: guarded_def memory_ok_def)
  have "keeps n b P (k i s) (iss(i \<mapsto> kind_of (k i s)))"
    using conjunct2 [OF k(1) [unfolded keeps.simps], rule_format, of iss i s] resume_id(7) k(3) by simp
  with k(2,4) map_le_upd_None [where iss = iss, OF resume_id(7)] resume_id show ?thesis
    by (simp add: guarded_def)
next
  case (resume_reply rid m s' s0 k)
  then show ?thesis using g pop_reply_ok [OF q resume_reply(5)] by (simp add: guarded_def memory_ok_def)
next
  case (resume_segment rid m s' buf len buf' len' s0 k)
  then show ?thesis using g pop_download_ok [OF q resume_segment(5)] by (simp add: guarded_def memory_ok_def)
next
  case (resume_download rid m s' s0 k)
  then show ?thesis using g pop_download_ok [OF q resume_download(5)] by (simp add: guarded_def memory_ok_def)
next
  case (resume_end rid m s' s0 k buf len)
  then show ?thesis using g pop_download_ok [OF q resume_end(5)] by (simp add: guarded_def memory_ok_def)
qed (use g q in \<open>simp_all add: guarded_def memory_ok_def\<close>)

section \<open>The operations meet the contracts\<close>

lemma guarded_main_ring:
  "env_types E \<Longrightarrow> memory_ok (self s) (existing = None) iss s \<Longrightarrow>
   guarded (self s) (existing = None) (\<lambda>_. True) iss (main_ring E existing s)"
  by (simp add: guarded_def memory_ok_def keeps_main_ring fits_main_ring)

lemma guarded_node_round:
  "env_types E \<Longrightarrow> memory_ok n b iss s \<Longrightarrow> guarded n b (\<lambda>_. False) iss (node_round E n next s)"
  by (simp add: guarded_def memory_ok_def keeps_node_round fits_node_round)

lemma guarded_user_command:
  "env_types E \<Longrightarrow> memory_ok n b iss s \<Longrightarrow> guarded n b (\<lambda>_. True) iss (user_command E n typed answer s)"
  by (simp add: guarded_def memory_ok_def keeps_user_command fits_user_command)

text \<open>The listener decodes the message that was sent.\<close>

lemma listener_turn_sent:
  assumes "message_wf m"
  shows "listener_turn E n (Some (payload (send_message inet junk ip port m))) s =
    with_node n s (\<lambda>nd. if socket_open nd then handle_requests E n m s else Done () s)"
proof -
  have "length (message_bytes junk m) = MESSAGE_SIZE" by (rule length_message_bytes [OF assms])
  moreover have "0 < MESSAGE_SIZE" by (simp add: MESSAGE_SIZE_def)
  ultimately show ?thesis
    by (auto simp: listener_turn_def receive_message_def send_message_def message_of_message_bytes [OF assms]
        with_node_def Let_def split: option.split)
qed

lemma guarded_listener_turn:
  assumes "env_types E" and "memory_ok n b iss s" and "datagram_ok inet E iss d"
  shows "guarded n b (\<lambda>_. True) iss (listener_turn E n (Some (payload d)) s)"
proof -
  from assms(3) obtain ip port m where d: "d = send_message inet (junk_byte E) ip port m"
    and m: "message_wf m" "may_send iss m" by (auto simp: datagram_ok_def)
  have s: "quiet n b iss s" "mem_ok s" using assms(2) by (simp_all add: memory_ok_def)
  show ?thesis
    unfolding d listener_turn_sent [OF m(1)] guarded_def
    by (intro conjI keeps_with_node keeps_if keeps_handle_requests s m(2) fits assms(1) m(1))
      (use s in simp_all)
qed

lemma stoi_range: "stoi s = Inr v \<Longrightarrow> INT_MIN \<le> v \<and> v \<le> INT_MAX"
  by (auto simp: stoi_def Let_def split: if_splits)

lemma atoi_range: "atoi s = Inr v \<Longrightarrow> INT_MIN \<le> v \<and> v \<le> INT_MAX"
  by (auto simp: atoi_def split: sum.splits fault.splits dest: stoi_range)

lemma boot_ok:
  assumes "env_types E" and "\<forall>x \<in> set args. NUL \<notin> set x" and "chord_main E c args = Up (Done existing s)"
  shows "host_ok iss (boot existing s)"
proof -
  from assms(3) obtain port where s: "2 \<le> length args" "atoi (args ! 1) = Inr port" "s = start_proc E (args ! 0) port"
    unfolding chord_main_up by blast
  have "args ! 0 \<in> set args" by (rule nth_mem) (use s(1) in linarith)
  then have "mem_ok s"
    unfolding s(3) using assms(1,2) atoi_range [OF s(2)] by (intro mem_ok_start) (auto simp: address_ok_def)
  then show ?thesis
    using start_proc_quiet [of E "args ! 0" port] s(3) by (simp add: host_ok_def boot_def memory_ok_def)
qed

section \<open>Every step keeps the invariant\<close>

lemma network_invD:
  assumes "network_inv inet E net" and "hosts net p = Some h"
  shows "host_ok (issued net) h" "memory_ok (self (mem h)) (creator h) (issued net) (mem h)"
  using assms by (auto simp: network_inv_def host_ok_def)

lemma set_host_inv:
  assumes "network_inv inet E net" and "issued net \<subseteq>\<^sub>m iss" and "\<forall>d \<in> ds. datagram_ok inet E iss d"
    and "guarded n b P iss out" and "\<And>s. memory_ok n b iss s \<Longrightarrow> host_ok iss (f s)"
  shows "network_inv inet E (set_host p out f ds iss net)"
proof -
  have "host_ok iss (f s)" if "state_of out = Some s" for s
    by (rule assms(5) [OF guarded_state [OF assms(4) that]])
  moreover have "host_ok iss h" if "hosts net q = Some h" for q h
    by (rule host_ok_mono [OF network_invD(1) [OF assms(1) that] assms(2)])
  moreover have "datagram_ok inet E iss d" if "d \<in> sent net" for d
    using assms(1) that datagram_ok_mono [OF _ assms(2)] unfolding network_inv_def by blast
  ultimately show ?thesis using assms(3) by (auto simp: network_inv_def set_host_def)
qed

text \<open>A thread that starts an operation, and one that goes on with it.\<close>

lemma start_inv:
  assumes "network_inv inet E net" and "hosts net p = Some h"
    and "guarded (self (mem h)) (creator h) P (issued net) out"
    and "\<And>s. memory_ok (self (mem h)) (creator h) (issued net) s \<Longrightarrow> host_ok (issued net) (f s)"
  shows "network_inv inet E (set_host p out f {} (issued net) net)"
  by (rule set_host_inv [OF assms(1) map_le_refl _ assms(3,4)]) simp_all

lemma resume_inv:
  assumes "network_inv inet E net" and "hosts net p = Some h"
    and "resume inet E (issued net) (mem h) out0 ds iss out"
    and "guarded (self (mem h)) (creator h) P (issued net) out0"
    and "\<And>s. host_ok iss h \<Longrightarrow> memory_ok (self (mem h)) (creator h) iss s \<Longrightarrow>
           guarded (self (mem h)) (creator h) P iss out \<Longrightarrow> host_ok iss (f s)"
  shows "network_inv inet E (set_host p out f ds iss net)"
proof -
  from resume_guarded [OF assms(3) network_invD(2) [OF assms(1,2)] assms(4)]
  have r: "issued net \<subseteq>\<^sub>m iss" "\<forall>d \<in> ds. datagram_ok inet E iss d" "guarded (self (mem h)) (creator h) P iss out"
    by blast+
  show ?thesis
    by (rule set_host_inv [OF assms(1) r], rule assms(5) [OF host_ok_mono [OF network_invD(1) [OF assms(1,2)] r(1)] _ r(3)])
qed

lemma host_ok_threads:
  assumes "host_ok iss h" and "memory_ok (self (mem h)) (creator h) iss s"
  shows "guarded (self (mem h)) (creator h) (\<lambda>_. True) iss out \<Longrightarrow> host_ok iss (h\<lparr>mem := s, listener := Some out\<rparr>)"
    and "guarded (self (mem h)) (creator h) (\<lambda>_. True) iss out \<Longrightarrow> host_ok iss (h\<lparr>mem := s, starting := Some out\<rparr>)"
    and "guarded (self (mem h)) (creator h) (\<lambda>_. True) iss out \<Longrightarrow>
           host_ok iss (h\<lparr>mem := s, ring := None, starting := Some out\<rparr>)"
    and "guarded (self (mem h)) (creator h) (\<lambda>_. True) iss out' \<Longrightarrow> host_ok iss (h\<lparr>mem := s, command := Some out'\<rparr>)"
    and "guarded (self (mem h)) (creator h) (\<lambda>_. False) iss out'' \<Longrightarrow> host_ok iss (h\<lparr>mem := s, worker := Some out''\<rparr>)"
    and "guarded (self (mem h)) (creator h) (\<lambda>_. False) iss out'' \<Longrightarrow>
           host_ok iss (h\<lparr>mem := s, starting := None, worker := Some out''\<rparr>)"
  using assms memory_ok_self [OF assms(2)] by (simp_all add: host_ok_def)

lemma put_host_inv:
  assumes "network_inv inet E net" and "\<And>h. x = Some h \<Longrightarrow> host_ok (issued net) h"
  shows "network_inv inet E (net\<lparr>hosts := (hosts net)(p := x)\<rparr>)"
  using assms by (auto simp: network_inv_def)

lemma host_ok_idle: "host_ok iss h \<Longrightarrow> host_ok iss (h\<lparr>listener := None\<rparr>) \<and> host_ok iss (h\<lparr>command := None\<rparr>)"
  by (simp add: host_ok_def)

lemma network_step_inv:
  assumes E: "env_types E" and inv: "network_inv inet E net" and step: "network_step inet E net net'"
  shows "network_inv inet E net'"
  using step
proof cases
  case (step_boot p args c existing s)
  show ?thesis
    unfolding step_boot(1) by (rule put_host_inv [OF inv]) (use boot_ok [OF E step_boot(3,4)] in simp)
next
  case (step_ring p h existing out)
  note h = network_invD [OF inv step_ring(2)]
  have b: "creator h = (existing = None)" using h(1) step_ring(3) by (simp add: host_ok_def)
  have g: "guarded (self (mem h)) (creator h) (\<lambda>_. True) (issued net) out"
    using guarded_main_ring [OF E h(2) [unfolded b]] step_ring(4) b by simp
  show ?thesis
    unfolding step_ring(1) by (rule start_inv [OF inv step_ring(2) g host_ok_threads(3) [OF h(1) _ g]])
next
  case (step_deliver p h d out)
  note h = network_invD [OF inv step_deliver(2)]
  have d: "datagram_ok inet E (issued net) d" using inv step_deliver(4) by (simp add: network_inv_def)
  have g: "guarded (self (mem h)) (creator h) (\<lambda>_. True) (issued net) out"
    unfolding step_deliver(5) [symmetric] by (rule guarded_listener_turn [OF E h(2) d])
  show ?thesis
    unfolding step_deliver(1) by (rule start_inv [OF inv step_deliver(2) g host_ok_threads(1) [OF h(1) _ g]])
next
  case (step_listener p h out0 ds iss out)
  have "guarded (self (mem h)) (creator h) (\<lambda>_. True) (issued net) out0"
    using network_invD(1) [OF inv step_listener(2)] step_listener(3) by (simp add: host_ok_def)
  from resume_inv [OF inv step_listener(2,4) this host_ok_threads(1)] show ?thesis unfolding step_listener(1) .
next
  case (step_handled p h s)
  show ?thesis
    unfolding step_handled(1)
    by (rule put_host_inv [OF inv]) (use host_ok_idle [OF network_invD(1) [OF inv step_handled(2)]] in simp)
next
  case (step_starting p h out0 ds iss out)
  have "guarded (self (mem h)) (creator h) (\<lambda>_. True) (issued net) out0"
    using network_invD(1) [OF inv step_starting(2)] step_starting(3) by (simp add: host_ok_def)
  from resume_inv [OF inv step_starting(2,4) this host_ok_threads(2)] show ?thesis unfolding step_starting(1) .
next
  case (step_started p h s out)
  note h = network_invD [OF inv step_started(2)]
  have g: "guarded (self (mem h)) (creator h) (\<lambda>_. False) (issued net) out"
    unfolding step_started(4) [symmetric] by (rule guarded_node_round [OF E h(2)])
  show ?thesis
    unfolding step_started(1) by (rule start_inv [OF inv step_started(2) g host_ok_threads(6) [OF h(1) _ g]])
next
  case (step_not_started p h s)
  show ?thesis unfolding step_not_started(1) by (rule put_host_inv [OF inv]) simp
next
  case (step_worker p h out0 ds iss out)
  have "guarded (self (mem h)) (creator h) (\<lambda>_. False) (issued net) out0"
    using network_invD(1) [OF inv step_worker(2)] step_worker(3) by (simp add: host_ok_def)
  from resume_inv [OF inv step_worker(2,4) this host_ok_threads(5)] show ?thesis unfolding step_worker(1) .
next
  case (step_round p h k s out)
  note h = network_invD [OF inv step_round(2)]
  have g: "guarded (self (mem h)) (creator h) (\<lambda>_. False) (issued net) out"
    unfolding step_round(4) [symmetric] by (rule guarded_node_round [OF E h(2)])
  show ?thesis
    unfolding step_round(1) by (rule start_inv [OF inv step_round(2) g host_ok_threads(5) [OF h(1) _ g]])
next
  case (step_command p h typed answer out)
  note h = network_invD [OF inv step_command(2)]
  have g: "guarded (self (mem h)) (creator h) (\<lambda>_. True) (issued net) out"
    unfolding step_command(5) [symmetric] by (rule guarded_user_command [OF E h(2)])
  show ?thesis
    unfolding step_command(1) by (rule start_inv [OF inv step_command(2) g host_ok_threads(4) [OF h(1) _ g]])
next
  case (step_main p h out0 ds iss out)
  have "guarded (self (mem h)) (creator h) (\<lambda>_. True) (issued net) out0"
    using network_invD(1) [OF inv step_main(2)] step_main(3) by (simp add: host_ok_def)
  from resume_inv [OF inv step_main(2,4) this host_ok_threads(4)] show ?thesis unfolding step_main(1) .
next
  case (step_prompt p h printed go s)
  show ?thesis
    unfolding step_prompt(1)
    by (rule put_host_inv [OF inv])
      (use host_ok_idle [OF network_invD(1) [OF inv step_prompt(2)]] in \<open>simp split: if_splits\<close>)
qed

lemma network_init_inv: "network_inv inet E network_init"
  by (simp add: network_inv_def network_init_def)

interpretation chord_ring: invariant_machine "\<lambda>net. net = network_init" "network_step inet E"
  "\<lambda>net. env_types E \<longrightarrow> network_inv inet E net" for inet E
  by unfold_locales (auto intro: network_step_inv network_init_inv)

lemma network_reach_inv: "env_types E \<Longrightarrow> network_reach inet E net \<Longrightarrow> network_inv inet E net"
  using chord_ring.reach_inv by blast

section \<open>Values fit their types\<close>

lemma strings_end_message: "message_wf m \<Longrightarrow> strings_end (message_bytes junk m)"
  by (simp add: strings_end_def message_bytes_def message_wf_def length_char_array STRING_SIZE_def) (simp add: char_array_def)

text \<open>C4: In every state a network of these processes reaches: every node in every process's memory has an
  identifier of 20 bytes, an address that ends within its array and an \<open>int\<close> as its port; every file
  entry has arrays of its struct's sizes and an \<open>int\<close> as its port; every message in a queue fits its
  struct; and every thread of every process meets \<open>fits\<close>: at its interaction and at each later one it
  leaves such a memory and sends only messages that fit, whatever the other threads do to the memory
  within these bounds.  So does a listener that is given any bytes at all, if the datagram is too short or its two
  strings end within their arrays; where they do not end, the code reads beyond them, which is
  outside of the model.  Every datagram the processes send is of the former kind: it has
  the size of the struct, carries a message that fits it, and is handled as this message by a
  listener with an open socket.\<close>

theorem network_values_fit:
  assumes "env_types E" and "network_reach inet E net"
  shows "(\<forall>p h. hosts net p = Some h \<longrightarrow>
            (\<forall>a nd. node_mem (mem h) a = Some nd \<longrightarrow>
               length (nid nd) = HASH_SIZE \<and> length (nip nd) < STRING_SIZE \<and> NUL \<notin> set (nip nd) \<and>
               INT_MIN \<le> nport nd \<and> nport nd \<le> INT_MAX) \<and>
            (\<forall>a c. cells (file_mem (mem h)) a = Some c \<longrightarrow> entry_wf (content c)) \<and>
            (\<forall>a c. cells (qmem (reply_queue (mem h))) a = Some c \<longrightarrow> message_wf (content c)) \<and>
            (\<forall>a c. cells (qmem (download_queue (mem h))) a = Some c \<longrightarrow> message_wf (content c)) \<and>
            pred_option fits (listener h) \<and> pred_option fits (starting h) \<and>
            pred_option fits (command h) \<and> pred_option fits (worker h) \<and>
            (\<forall>bs. length bs < MSG_SIZE \<or> strings_end bs \<longrightarrow> fits (listener_turn E (self (mem h)) (Some bs) (mem h)))) \<and>
         (\<forall>d \<in> sent net. length (payload d) = MSG_SIZE \<and> strings_end (payload d) \<and>
            message_wf (message_of_bytes (payload d)) \<and>
            (\<forall>n s nd. node_mem s n = Some nd \<and> socket_open nd \<longrightarrow>
               listener_turn E n (Some (payload d)) s = handle_requests E n (message_of_bytes (payload d)) s))"
proof (intro conjI allI impI ballI)
  note inv = network_reach_inv [OF assms]
  fix p h assume "hosts net p = Some h"
  note h = network_invD [OF inv this]
  from h(2) have m: "mem_ok (mem h)" by (simp add: memory_ok_def)
  show "pred_option fits (listener h)" "pred_option fits (starting h)" "pred_option fits (command h)"
    "pred_option fits (worker h)"
    using h(1) by (auto simp: host_ok_def guarded_def pred_option_def)
  show "fits (listener_turn E (self (mem h)) (Some bs) (mem h))" if "length bs < MSG_SIZE \<or> strings_end bs" for bs
    by (rule fits_listener_turn [OF assms(1) m that])
  show "entry_wf (content c)" if "cells (file_mem (mem h)) a = Some c" for a c
    using m that by (simp add: mem_ok_def entries_ok_def)
  show "message_wf (content c)" if "cells (qmem (reply_queue (mem h))) a = Some c" for a c
    using m that by (simp add: mem_ok_def queue_ok_types_def)
  show "message_wf (content c)" if "cells (qmem (download_queue (mem h))) a = Some c" for a c
    using m that by (simp add: mem_ok_def queue_ok_types_def)
  fix a nd assume "node_mem (mem h) a = Some nd"
  from mem_okD [OF m this] show "length (nid nd) = HASH_SIZE" "length (nip nd) < STRING_SIZE"
    "NUL \<notin> set (nip nd)" "INT_MIN \<le> nport nd" "nport nd \<le> INT_MAX"
    by (simp_all add: node_ok_def address_ok_def)
next
  fix d assume "d \<in> sent net"
  with network_reach_inv [OF assms] obtain ip port m
    where d: "d = send_message inet (junk_byte E) ip port m" and m: "message_wf m"
    by (auto simp: network_inv_def datagram_ok_def)
  have t: "message_of_bytes (payload d) = m"
    by (simp add: d send_message_def message_of_message_bytes [OF m])
  show "length (payload d) = MSG_SIZE"
    using length_message_bytes [OF m] by (simp add: d send_message_def MESSAGE_SIZE_val)
  show "strings_end (payload d)" by (simp add: d send_message_def strings_end_message [OF m])
  show "message_wf (message_of_bytes (payload d))" unfolding t by (rule m)
  show "listener_turn E n (Some (payload d)) s = handle_requests E n (message_of_bytes (payload d)) s"
    if "node_mem s n = Some nd \<and> socket_open nd" for n s nd
    using that m unfolding t by (simp add: d listener_turn_sent)
qed

section \<open>The ring does not stabilise\<close>

text \<open>C3: In every state a network of these processes reaches, whatever is joined, stored, looked
  up, lost, duplicated or reordered, no process has a predecessor, every finger of a node is the node
  itself, the process that created the ring is its own successor, no node thread has finished a
  round of \<open>stabilize\<close>, \<open>fix_fingers\<close> and \<open>check_predecessor\<close>, no NOTIFY and no FIND_SUCCESSOR was
  sent, and no reply bears the number of a STABILIZE.\<close>

theorem ring_never_stabilises:
  assumes "env_types E" and "network_reach inet E net"
  shows "(\<forall>p h. hosts net p = Some h \<longrightarrow>
            (\<exists>nd. node_mem (mem h) (self (mem h)) = Some nd \<and> predecessor nd = None \<and>
               finger nd = replicate M (Some (self (mem h))) \<and>
               (creator h \<longrightarrow> successor nd = self (mem h))) \<and>
            (\<forall>next s. worker h \<noteq> Some (Done next s))) \<and>
         (\<forall>d \<in> sent net. mtype (message_of_bytes (payload d)) \<noteq> MSG_NOTIFY \<and>
            mtype (message_of_bytes (payload d)) \<noteq> MSG_FIND_SUCCESSOR) \<and>
         (\<forall>d \<in> sent net. \<forall>d' \<in> sent net. mtype (message_of_bytes (payload d)) = MSG_STABILIZE \<and>
            mtype (message_of_bytes (payload d')) = MSG_REPLY \<longrightarrow>
            request_id (message_of_bytes (payload d')) \<noteq> request_id (message_of_bytes (payload d)))"
proof -
  note inv = network_reach_inv [OF assms]
  have "\<exists>nd. node_mem (mem h) (self (mem h)) = Some nd \<and> predecessor nd = None \<and>
          finger nd = replicate M (Some (self (mem h))) \<and> (creator h \<longrightarrow> successor nd = self (mem h))"
    and "\<forall>next s. worker h \<noteq> Some (Done next s)" if h: "hosts net p = Some h" for p h
    using network_invD [OF inv h] by (auto simp: memory_ok_def quiet_def host_ok_def guarded_def)
  moreover have send: "may_send (issued net) (message_of_bytes (payload d))" if "d \<in> sent net" for d
    using inv that
    by (auto simp: network_inv_def datagram_ok_def send_message_def message_of_message_bytes)
  moreover have "request_id m' \<noteq> request_id m"
    if "may_send (issued net) m" "mtype m = MSG_STABILIZE" "may_send (issued net) m'" "mtype m' = MSG_REPLY" for m m'
  proof
    assume eq: "request_id m' = request_id m"
    have "issued net (request_id m) = Some MSG_STABILIZE" using that(1,2) by (simp add: may_send_def)
    moreover have "issued net (request_id m') = Some MSG_JOIN" using that(3,4) by (simp add: may_send_def)
    ultimately show False using eq by (simp add: msg_types)
  qed
  ultimately show ?thesis by (meson may_send_def)
qed

section \<open>A run\<close>

text \<open>A process that has created a ring and sent its first STABILIZE to itself.\<close>

lemma reach_worker:
  assumes "network_reach inet E net" and "hosts net p = Some h" and "worker h = Some out0"
    and "resume inet E (issued net) (mem h) out0 ds iss out" and "state_of out = Some s"
  obtains net' where "network_reach inet E net'" and "hosts net' p = Some (h\<lparr>mem := s, worker := Some out\<rparr>)"
    and "sent net' = sent net \<union> ds" and "issued net' = iss"
proof -
  have "network_reach inet E (set_host p out (\<lambda>s. h\<lparr>mem := s, worker := Some out\<rparr>) ds iss net)"
    by (rule reach_step [OF assms(1) step_worker [OF assms(2-4)]])
  then show ?thesis by (rule that) (simp_all add: set_host_def assms(5))
qed

lemma created_ring:
  assumes "chord_main E c args = Up (Done None (start_proc E ip port))" and "\<forall>x \<in> set args. NUL \<notin> set x"
  obtains net h s1 where "network_reach inet E net" and "hosts net 0 = Some h" and "creator h"
    and "mem h = s1" and "worker h = Some (node_round E (self s1) 0 s1)" and "issued net = Map.empty"
    and "\<exists>nd. node_mem s1 (self s1) = Some nd \<and> successor nd = self s1"
proof -
  let ?s = "start_proc E ip port"
  let ?h = "boot None ?s"
  obtain nd where nd: "node_mem ?s (self ?s) = Some nd"
    using start_proc_quiet [of E ip port True Map.empty] by (auto simp: quiet_def)
  define s1 where "s1 = put_node (self ?s) (nd\<lparr>predecessor := None, successor := self ?s\<rparr>) ?s"
  have ring: "main_ring E None (mem ?h) = Done () s1"
    by (simp add: main_ring_def create_ring_def boot_def nd s1_def)
  have s1: "\<exists>nd. node_mem s1 (self s1) = Some nd \<and> successor nd = self s1" by (simp add: s1_def)
  then have st: "state_of (node_round E (self s1) 0 s1) = Some s1"
    by (simp add: node_round_def stabilize_def state_of_def)
  let ?net0 = "network_init\<lparr>hosts := (hosts network_init)(0 \<mapsto> ?h)\<rparr>"
  have "network_step inet E network_init ?net0"
    by (rule step_boot [OF _ assms(2,1)]) (simp add: network_init_def)
  then have reach0: "network_reach inet E ?net0" by (blast intro: reach.intros)
  have h0: "hosts ?net0 0 = Some ?h" "ring ?h = Some None" by (simp_all add: boot_def)
  define h1 where "h1 = ?h\<lparr>mem := s1, ring := None, starting := Some (Done () s1)\<rparr>"
  define net1 where "net1 = set_host 0 (Done () s1) (\<lambda>s. ?h\<lparr>mem := s, ring := None, starting := Some (Done () s1)\<rparr>)
      {} (issued ?net0) ?net0"
  have reach1: "network_reach inet E net1"
    unfolding net1_def by (rule reach_step [OF reach0 step_ring [OF h0 ring]])
  have h1: "hosts net1 0 = Some h1" "starting h1 = Some (Done () s1)" "mem h1 = s1" "creator h1"
    "issued net1 = Map.empty"
    by (simp_all add: net1_def h1_def set_host_def state_of_def boot_def network_init_def)
  let ?out = "node_round E (self s1) 0 s1"
  let ?net2 = "set_host 0 ?out (\<lambda>s. h1\<lparr>mem := s, starting := None, worker := Some ?out\<rparr>) {} (issued net1) net1"
  have out: "node_round E (self (mem h1)) 0 (mem h1) = ?out" by (simp add: h1(3))
  have "network_reach inet E ?net2" by (rule reach_step [OF reach1 step_started [OF h1(1,2) out]])
  then show ?thesis
    by (rule that [of _ "h1\<lparr>mem := s1, starting := None, worker := Some ?out\<rparr>" s1])
      (use s1 in \<open>simp_all add: set_host_def st h1\<close>)
qed

lemma first_stabilize:
  assumes "env_types E" and "chord_main E c args = Up (Done None (start_proc E ip port))" and "\<forall>x \<in> set args. NUL \<notin> set x"
  obtains net h d where "network_reach inet E net" and "hosts net 0 = Some h" and "creator h"
    and "d \<in> sent net" and "mtype (message_of_bytes (payload d)) = MSG_STABILIZE"
proof -
  obtain net h s1 where reach: "network_reach inet E net" and h: "hosts net 0 = Some h" "creator h"
      "mem h = s1" "worker h = Some (node_round E (self s1) 0 s1)" and iss: "issued net = Map.empty"
    and s1: "\<exists>nd. node_mem s1 (self s1) = Some nd \<and> successor nd = self s1"
    by (rule created_ring [OF assms(2,3)])
  obtain k where round: "node_round E (self s1) 0 s1 = NeedId s1 k"
    and "\<exists>ip' port' m k'. k 0 s1 = Sending ip' port' m s1 k' \<and> mtype m = MSG_STABILIZE \<and> state_of (k' 0 s1) = Some s1"
    using s1 by (auto simp: node_round_def stabilize_def state_of_def)
  then obtain ip' port' m k' where k: "k 0 s1 = Sending ip' port' m s1 k'" and m: "mtype m = MSG_STABILIZE"
    and st: "state_of (k' 0 s1) = Some s1" by blast
  have w: "worker h = Some (NeedId s1 k)" by (simp add: h(4) round)
  have t: "resume inet E (issued net) (mem h) (NeedId s1 k) {} ((issued net)(0 \<mapsto> kind_of (k 0 s1))) (k 0 s1)"
    unfolding h(3) by (rule resume_id [of "replicate 16 NUL"]) (simp_all add: iss generate_id_0)
  have st1: "state_of (k 0 s1) = Some s1" by (simp add: k state_of_def)
  obtain net2 where r2: "network_reach inet E net2" and h2: "hosts net2 0 = Some (h\<lparr>mem := s1, worker := Some (k 0 s1)\<rparr>)"
    by (rule reach_worker [OF reach h(1) w t st1])
  have wf: "message_wf m"
    using network_invD(1) [OF network_reach_inv [OF assms(1) r2] h2] by (simp add: host_ok_def guarded_def k)
  let ?d = "send_message inet (junk_byte E) ip' port' m"
  have t2: "resume inet E (issued net2) (mem (h\<lparr>mem := s1, worker := Some (k 0 s1)\<rparr>)) (Sending ip' port' m s1 k')
      {?d} (issued net2) (k' 0 s1)"
    using resume_sent [of 0 inet E "issued net2" s1] by simp
  have w2: "worker (h\<lparr>mem := s1, worker := Some (k 0 s1)\<rparr>) = Some (Sending ip' port' m s1 k')" by (simp add: k)
  obtain net3 where n3: "network_reach inet E net3"
    "hosts net3 0 = Some (h\<lparr>mem := s1, worker := Some (k 0 s1), mem := s1, worker := Some (k' 0 s1)\<rparr>)"
    "sent net3 = sent net2 \<union> {?d}"
    by (rule reach_worker [OF r2 h2 w2 t2 st])
  show ?thesis
    by (rule that [OF n3(1,2), of ?d])
      (use n3(3) h(2) m in \<open>simp_all add: send_message_def message_of_message_bytes [OF wf]\<close>)
qed

lemma demo_env_types: "env_types demo_env"
  by (simp add: env_types_def demo_env_def small_id_def demo_message_wf HASH_SIZE_def demo_transfer)

theorem ring_never_stabilises_witness:
  "\<exists>net h d nd. network_reach (\<lambda>_. 7) demo_env net \<and> hosts net 0 = Some h \<and> creator h \<and>
     d \<in> sent net \<and> mtype (message_of_bytes (payload d)) = MSG_STABILIZE \<and>
     node_mem (mem h) (self (mem h)) = Some nd \<and> predecessor nd = None \<and> successor nd = self (mem h)"
proof -
  obtain net h d where w: "network_reach (\<lambda>_. 7) demo_env net" "hosts net 0 = Some h" "creator h"
    "d \<in> sent net" "mtype (message_of_bytes (payload d)) = MSG_STABILIZE"
    by (rule first_stabilize [OF demo_env_types demo_boot]) simp
  with ring_never_stabilises [OF demo_env_types w(1)] show ?thesis by blast
qed

theorem network_values_fit_witness:
  "\<exists>net d. network_reach (\<lambda>_. 7) demo_env net \<and> d \<in> sent net \<and> length (payload d) = MSG_SIZE \<and>
     message_wf (message_of_bytes (payload d))"
proof -
  obtain net h d where w: "network_reach (\<lambda>_. 7) demo_env net" "d \<in> sent net"
    by (rule first_stabilize [OF demo_env_types demo_boot]) simp
  with network_values_fit [OF demo_env_types w(1)] show ?thesis by blast
qed

end
