(* ===== verification/Chord_Loops.thy ===== *)
theory Chord_Loops
  imports Chord_Handlers
begin

text \<open>
  The loops over the lists in memory: on lists that are well formed every one of them ends
  without a fault, with the result a function on lists gives; and the sizes of the buffers and
  segments a GET_FILES request is answered with.
\<close>

section \<open>Termination\<close>

lemma list_names_list:
  "list_at st p as xs \<Longrightarrow>
   list_names p st out = Some (Inr (out @ map (\<lambda>e. ''  '' @ c_str (ffilename e)) xs))"
proof (induction as arbitrary: p xs out)
  case Nil
  then show ?case by (simp add: list_names.simps)
next
  case (Cons a as)
  obtain c ys where c: "cells st a = Some c" "p = Some a" "list_at st (link c) as ys" "xs = content c # ys"
    using Cons.prems by (auto simp: list_at_def)
  show ?case
    using Cons.IH [OF c(3)] c(1,2,4) by (subst list_names.simps) (simp add: read_cell_def)
qed

text \<open>C12: On a process whose two file lists are well formed, every loop over them ends without a fault:
  the searches, the removal of one entry and of the transferred ones, the listing, the serialisers and
  the freeing of the list.\<close>

theorem list_loops_terminate:
  assumes "files_at st fp up xs ys" and "\<forall>x \<in> set xs. entry_wf x"
    and "\<And>nx. length (pb nx) = POINTER_SIZE" and "length buf = 4096"
  shows "(\<exists>r. lookup_file i fp st = Some (Inr r)) \<and>
         (\<exists>r. find_uploaded_file path up st = Some (Inr r)) \<and>
         (\<exists>r. delete_file_entry fp i st = Some (Inr r)) \<and>
         (\<exists>r. delete_transferred_files fp new_id cur_id st = Some (Inr r)) \<and>
         list_names up st out = Some (Inr (out @ map (\<lambda>e. ''  '' @ c_str (ffilename e)) ys)) \<and>
         (\<exists>r. serialize_file_entries pb junk buf 4096 fp new_id cur_id st = Some (Inr r)) \<and>
         (\<exists>r. serialize_all_file_entries pb junk buf 4096 fp st = Some (Inr r)) \<and>
         (\<exists>st'. free_files fp st = Some (Inr st') \<and> (\<exists>st''. free_files up st' = Some (Inr st'')))"
proof -
  from assms(1) obtain as bs where l: "list_at st fp as xs" "list_at st up bs ys" "set as \<inter> set bs = {}" "store_wf st"
    by (auto simp: files_at_def)
  have ser: "\<exists>r. serialize_loop sel pb junk st fp buf 4096 0 = Some (Inr r)" for sel
    using serialize_loop_list [where sel = sel and junk = junk, OF l(1) assms(2,3,4)] by (fastforce simp: ENTRY_SIZE_val)
  from free_both_lists [OF l] obtain st' st'' where "free_files fp st = Some (Inr st')" "free_files up st' = Some (Inr st'')"
    by blast
  with ser lookup_file_zip [OF l(1)] find_uploaded_file_zip [OF l(2)] delete_file_entry_list [OF assms(1)]
    delete_transferred_list [OF assms(1), of new_id cur_id] list_names_list [OF l(2)]
  show ?thesis unfolding serialize_file_entries_def serialize_all_file_entries_def by blast
qed

theorem list_loops_terminate_witness:
  "\<exists>r st'. delete_transferred_files (fst demo_files) (demo_id 4) (demo_id 9) (snd demo_files) = Some (Inr r) \<and>
     free_files (fst demo_files) (snd demo_files) = Some (Inr st')"
  using list_loops_terminate [where pb = demo_pointer and buf = "replicate 4096 NUL" and new_id = "demo_id 4"
      and cur_id = "demo_id 9", OF demo_files_at demo_transfer(3,1)] by (metis length_replicate)

section \<open>Sizes\<close>

text \<open>C11: The answer to GET_FILES stays within its arrays whatever the number of files.  The buffer, doubled at
  most once for each entry, holds all of them; the segments are as many as the data needs and one to end,
  none longer than the data array of a message, and what they carry is the serialised entries.\<close>

theorem get_files_sizes:
  assumes "files_at st fp up xs ys" and "\<forall>x \<in> set xs. entry_wf x" and "\<And>nx. length (pb nx) = POINTER_SIZE"
    and "length (mdata jm) = DATA_SIZE" and "length buf = 4096"
  shows "\<exists>buf' n ms end_msg. serialize_file_entries pb junk buf 4096 fp new_id cur_id st = Some (Inr (buf', n)) \<and>
     n = ENTRY_SIZE * length (filter (\<lambda>x. should_transfer_file (fid x) new_id cur_id) xs) \<and> n \<le> length buf' \<and>
     file_segments jm rid cur_id buf' n = Inr (ms @ [end_msg]) \<and>
     length ms = (n + 1327) div 1328 \<and>
     (\<forall>m \<in> set ms. data_len m \<le> DATA_SIZE \<and> length (mdata m) = DATA_SIZE) \<and>
     concat (map (\<lambda>m. take (data_len m) (mdata m)) ms) = take n buf'"
proof -
  from assms(1) obtain as where l: "list_at st fp as xs" by (auto simp: files_at_def)
  have "(0::nat) \<le> 4096" "(0::nat) = 0 \<and> ENTRY_SIZE \<le> 2 * 4096 \<or> ENTRY_SIZE \<le> 4096"
    by (simp_all add: ENTRY_SIZE_val)
  from serialize_loop_list [where pb = pb and sel = "\<lambda>i. should_transfer_file i new_id cur_id"
      and junk = junk, OF l assms(2,3,5) this]
  obtain buf' blocks where s:
    "serialize_file_entries pb junk buf 4096 fp new_id cur_id st = Some (Inr (buf', length (concat blocks)))"
    "length (concat blocks) \<le> length buf'"
    "map entry_of_bytes blocks = filter (\<lambda>x. should_transfer_file (fid x) new_id cur_id) xs"
    "\<forall>b \<in> set blocks. length b = ENTRY_SIZE"
    unfolding serialize_file_entries_def add_0 take_0 append_Nil by blast
  let ?n = "length (concat blocks)"
  have "length blocks = length (filter (\<lambda>x. should_transfer_file (fid x) new_id cur_id) xs)"
    using s(3) by (metis length_map)
  then have n: "?n = ENTRY_SIZE * length (filter (\<lambda>x. should_transfer_file (fid x) new_id cur_id) xs)"
    using length_concat_blocks [OF s(4)] by simp
  obtain ms end_msg where f: "file_segments jm rid cur_id buf' ?n = Inr (ms @ [end_msg])"
    "length ms = chunks_of ?n" "\<And>i. i < chunks_of ?n \<Longrightarrow> is_segment rid (take ?n buf') i (ms ! i)"
    by (rule file_segments_list [OF s(2) assms(4)]) blast
  have "map (\<lambda>m. take (data_len m) (mdata m)) ms =
      map (\<lambda>i. take DATA_SIZE (drop (i * DATA_SIZE) (take ?n buf'))) [0..<chunks_of ?n]"
  proof (rule nth_equalityI)
    fix i assume "i < length (map (\<lambda>m. take (data_len m) (mdata m)) ms)"
    then have i: "i < chunks_of ?n" using f(2) by simp
    have "take (data_len (ms ! i)) (mdata (ms ! i)) = take DATA_SIZE (drop (i * DATA_SIZE) (take ?n buf'))"
      using f(3) [OF i] unfolding is_segment_def by blast
    then show "map (\<lambda>m. take (data_len m) (mdata m)) ms ! i =
        map (\<lambda>i. take DATA_SIZE (drop (i * DATA_SIZE) (take ?n buf'))) [0..<chunks_of ?n] ! i"
      using i f(2) by (simp only: nth_map nth_upt length_upt diff_zero add_0)
  qed (simp add: f(2))
  then have "concat (map (\<lambda>m. take (data_len m) (mdata m)) ms) =
      concat (map (\<lambda>i. take DATA_SIZE (drop (i * DATA_SIZE) (take ?n buf'))) [0..<chunks_of ?n])" by simp
  also have "\<dots> = take (chunks_of ?n * DATA_SIZE) (take ?n buf')" by (rule concat_blocks)
  also have "\<dots> = take ?n buf'"
    using chunks_of_less [of "chunks_of ?n" ?n] by (simp add: min_def not_less)
  finally have c: "concat (map (\<lambda>m. take (data_len m) (mdata m)) ms) = take ?n buf'" .
  have "\<forall>m \<in> set ms. data_len m \<le> DATA_SIZE \<and> length (mdata m) = DATA_SIZE"
    unfolding all_set_conv_all_nth using f(2,3) by (auto simp: is_segment_def)
  moreover have "length ms = (?n + 1327) div 1328" by (simp add: f(2) chunks_of_def DATA_SIZE_val)
  ultimately show ?thesis using s(1,2) n f(1) c by blast
qed

theorem get_files_sizes_witness:
  "\<exists>buf' n. serialize_file_entries demo_pointer NUL (replicate 4096 NUL) 4096 (fst demo_files) (demo_id 4) (demo_id 9)
     (snd demo_files) = Some (Inr (buf', n)) \<and> n = 8800 \<and> n \<le> length buf'"
proof -
  have "filter (\<lambda>x. should_transfer_file (fid x) (demo_id 4) (demo_id 9)) [demo_entry 3, demo_entry 5, demo_entry 9] =
      [demo_entry 5, demo_entry 9]" by (rule demo_transfer(4))
  then show ?thesis
    using get_files_sizes [where pb = demo_pointer and junk = NUL and buf = "replicate 4096 NUL"
        and new_id = "demo_id 4" and cur_id = "demo_id 9", OF demo_files_at demo_transfer(3,1,2)]
    by (fastforce simp: ENTRY_SIZE_val)
qed

end
