(* ===== verification/Console.thy ===== *)
theory Console
  imports Startup "HOL-Library.Multiset"
begin

text \<open>
  What is left of the terminals: the diagnostic prints of the containers (\<open>display_piece_map\<close> of
  \<open>src/helper_peer.cpp\<close>, \<open>show_file_pieces\<close> of \<open>src/helper_tracker.cpp\<close>) and the handler of SIGINT
  of a ring process (\<open>handle_exit\<close> of \<open>src/threads.cpp\<close>).  A print is a list of lines.
\<close>

section \<open>Printing containers\<close>

text \<open>Both maps are unordered: \<open>order\<close> is the sequence in which the iteration visits the keys.\<close>

definition display_piece_map :: "int list \<Rightarrow> piece_map \<Rightarrow> string list" where
  "display_piece_map order piece_map =
     concat (map (\<lambda>n.
       (''Piece Number: '' @ to_string n) #
       map (\<lambda>p. ''  Client Port: '' @ to_string (pi_port p) @ '', Client IP: '' @ pi_ip p @
                 '', File Path: '' @ pi_path p @ '', Hash: '' @ pi_hash p) (pm_sources piece_map n)) order)"

definition show_file_pieces :: "string list \<Rightarrow> tracker \<Rightarrow> string list" where
  "show_file_pieces order t =
     concat (map (\<lambda>f.
       (''File Name: '' @ f) #
       concat (map (\<lambda>p.
         (''  Piece Number: '' @ to_string (piecenumber p)) #
         concat (map (\<lambda>src.
           [''    Source Info:'',
            ''      peername: '' @ peername src,
            ''      Client Port: '' @ to_string (client_port src),
            ''      Client IP: '' @ client_ip src,
            ''      File Path: '' @ file_path src,
            ''      Hash: '' @ hash src]) (sources p))) (case file_pieces t f of None \<Rightarrow> [] | Some ps \<Rightarrow> ps)) @
       [[]]) order)"

text \<open>Whatever the order of the iteration, the lines are the same, in blocks.\<close>

lemma mset_concat_order:
  "mset order = mset order' \<Longrightarrow> mset (concat (map f order)) = mset (concat (map f order'))"
  by (metis mset_concat mset_map sum_mset_sum_list)

lemma prints_any_order:
  "mset order = mset order' \<Longrightarrow> mset (display_piece_map order pm) = mset (display_piece_map order' pm)"
  "mset forder = mset forder' \<Longrightarrow> mset (show_file_pieces forder t) = mset (show_file_pieces forder' t)"
  unfolding display_piece_map_def show_file_pieces_def by (rule mset_concat_order, assumption)+

section \<open>The handler of SIGINT\<close>

datatype disposition = Ignored | Handler

datatype event = SetSignal disposition | Print string

text \<open>\<open>getchar\<close>: at the end of the input nothing is read.\<close>

definition getchar :: "string \<Rightarrow> char option \<times> string" where
  "getchar inp = (case inp of [] \<Rightarrow> (None, []) | c # rest \<Rightarrow> (Some c, rest))"

text \<open>What the handler does, in order, and the exit status or what is left of the input.  While the
  question is open the signal is ignored, so the handler does not run twice.\<close>

definition handle_exit :: "string \<Rightarrow> event list \<times> (int + string)" where
  "handle_exit inp =
     (let asked = [SetSignal Ignored, Print (LF # ''Do you really want to quit? [y/n] '')];
          (c, rest) = getchar inp
      in if (case c of None \<Rightarrow> False | Some c \<Rightarrow> toupper_is_Y c)
         then (asked @ [Print (line ''Exiting...'')], Inl 0)
         else (asked @ [SetSignal Handler], Inr (snd (getchar rest))))"

text \<open>Only the first character counts, and two are taken: a longer answer than one letter is left for the
  command loop.\<close>

lemma handle_exit_answer:
  "snd (handle_exit inp) =
     (if \<exists>rest. inp = CHR ''y'' # rest \<or> inp = CHR ''Y'' # rest then Inl 0 else Inr (drop 2 inp))"
proof (cases inp)
  case (Cons c rest)
  then show ?thesis
    by (cases rest) (auto simp: handle_exit_def getchar_def toupper_is_Y_def)
qed (simp add: handle_exit_def getchar_def)

lemma handle_exit_reinstalls:
  "snd (handle_exit inp) = Inr rest \<Longrightarrow> last (fst (handle_exit inp)) = SetSignal Handler"
  by (auto simp: handle_exit_def Let_def split: prod.splits if_splits)

section \<open>The end of a ring process\<close>

text \<open>\<open>main\<close> after the command loop: the two threads are cancelled, the node is cleaned up and the
  process exits with status 0.\<close>

definition main_exit :: "nat \<Rightarrow> proc \<Rightarrow> int outcome" where
  "main_exit n s = cleanup_node n s (\<lambda>s. Done 0 s)"

text \<open>Every entry of the two lists is freed once and the socket closed.  No message is sent: the
  entries are not handed to the successor, and no neighbour learns that the node has left.\<close>

lemma main_exit_frees:
  assumes "node_mem s n = Some nd" and "files_at (file_mem s) (files nd) (uploaded_files nd) xs ys"
    and "socket_open nd"
  obtains s' as bs where "main_exit n s = Done 0 s'" and "\<not> socket_alive s'"
    and "list_at (file_mem s) (files nd) as xs" and "list_at (file_mem s) (uploaded_files nd) bs ys"
    and "cells (file_mem s') = (\<lambda>a. if a \<in> set as \<union> set bs then None else cells (file_mem s) a)"
proof -
  from assms(2) obtain as bs where l: "list_at (file_mem s) (files nd) as xs"
    "list_at (file_mem s) (uploaded_files nd) bs ys" "set as \<inter> set bs = {}" "store_wf (file_mem s)"
    by (auto simp: files_at_def)
  from free_both_lists [OF l] obtain fm1 fm2 where f: "free_files (files nd) (file_mem s) = Some (Inr fm1)"
    "free_files (uploaded_files nd) fm1 = Some (Inr fm2)"
    "cells fm2 = (\<lambda>a. if a \<in> set as \<union> set bs then None else cells (file_mem s) a)" .
  then have "main_exit n s = Done 0 (s\<lparr>file_mem := fm2, socket_alive := False\<rparr>)"
    using assms(1,3) by (simp add: main_exit_def cleanup_node_def with_node_def)
  then show thesis using that l(1,2) f(3) by fastforce
qed

end
