(* ===== verification/Spec2Isabelle.thy ===== *)
theory Spec2Isabelle
  imports Peer_Behaviour Peer_Serving Chord_Network Chord_Loops Console
begin

text \<open>
  \<^bold>\<open>The program.\<close>  The repository holds two peer-to-peer systems that share files.  The first is
  what the Makefile builds: a tracker (\<open>src/tracker.cpp\<close>, \<open>src/helper_tracker.cpp\<close>), which keeps
  users, groups and the sources of every piece of every shared file, and peers (\<open>src/peer.cpp\<close>,
  \<open>src/helper_peer.cpp\<close>, \<open>src/sha256.cpp\<close>), which talk to the tracker over one connection and serve
  and fetch pieces over others.  The second is what the README describes: a Chord ring of processes
  exchanging datagrams (\<open>src/main.cpp\<close>, \<open>src/threads.cpp\<close>, \<open>src/node.cpp\<close>,
  \<open>src/stabilization.cpp\<close>, \<open>src/protocol.cpp\<close>, \<open>src/file_entry.cpp\<close>, \<open>src/utils.cpp\<close>,
  \<open>src/sh1.cpp\<close>).

  \<^bold>\<open>Shared theories.\<close>  \<open>Prelude\<close>: characters, C strings, \<open>stoi\<close>, \<open>to_string\<close>, \<open>strtok\<close>, paths and the
  maps of C++, whose \<open>m[k]\<close> inserts a default value (\<open>mtouch\<close>, \<open>mget\<close>).  \<open>Ordered_Set\<close>:
  \<open>std::set\<close> as a sorted list, the locales \<open>weak_order\<close> and \<open>total_key_order\<close>, interpreted on
  each comparison the program uses.  \<open>Machine\<close>: reachable states, the locale
  \<open>invariant_machine\<close> and its extension \<open>refinement\<close>, interpreted on the tracker's server, on the
  abstract groups, on the thread that serves pieces and on the network of Chord processes.  \<open>Store\<close>: linked lists in memory, with
  dangling pointers and cycles.  \<open>C_Arrays\<close>: arrays of bytes, where a write past the end is the
  fault \<open>BufferOverflow\<close>.  A value of type \<open>fault\<close> stands for an uncaught exception or undefined
  behaviour.

  \<^bold>\<open>The tracker.\<close>  \<open>Tracker_State\<close>: the record \<open>tracker\<close> has a field for each global container of
  \<open>helper_tracker.cpp\<close>.  \<open>Tracker_Ops\<close>: one definition for each function of that file (\<open>login\<close>,
  \<open>create_group\<close>, \<open>upload_file\<close>, ...), returning the new state and the integer the function returns.
  \<open>Tracker_Server\<close>: the dispatcher of \<open>handleClient\<close> with its replies (\<open>handle_command\<close>), and the
  relation \<open>server_step\<close> on the record \<open>server\<close>: connections that open, greet, send commands and
  close, and the terminal.  \<open>Tracker_Inv\<close> and \<open>Tracker_Files\<close>: the invariant \<open>tracker_inv\<close>
  (sessions, groups, files), kept by every operation.  \<open>Tracker_Groups\<close>: the abstract machine of
  groups (\<open>spec_step\<close>) that the tracker refines.  \<open>Tracker_Props\<close>, \<open>Tracker_Behaviour\<close>: the
  properties.

  \<^bold>\<open>The peers.\<close>  \<open>Peer_Wire\<close>: strings over a stream that the network cuts into segments.
  \<open>Peer_Files\<close>: hashes, serving a piece (\<open>handle_peer\<close>), fetching one (\<open>download\<close>), announcing the
  pieces of a file (\<open>piece_creation\<close>); files are a map from paths to bytes.  \<open>Peer_Client\<close>: the command
  loop of \<open>main\<close> in \<open>peer.cpp\<close> (\<open>client_turn\<close>), with the parser of the reply to a download.
  \<open>Peer_Transfer\<close>, \<open>Peer_Parse\<close>, \<open>Peer_Download\<close>, \<open>Peer_Sharing\<close>: what the two ends of each exchange
  do together, up to a file that is uploaded, recorded by the tracker's model and downloaded; the hash
  of a file read in portions and of its pieces is the digest of exactly their bytes.  Both ends take a
  message from one call of \<open>recv\<close>: the tracker cuts it at \<open>RECEIVE_SIZE\<close> (1023) bytes and treats the rest as
  the next command (\<open>run_commands\<close>), the client keeps the first \<open>REPLY_SIZE\<close> (893227) bytes of what
  has arrived, so the theorem on sharing a file bounds the number of its pieces and sources.
  \<open>Peer_Serving\<close>: the loop of \<open>send_file\<close> with a thread for each connection, as the relation
  \<open>serving_step\<close>; every answer is a beginning of the piece that was asked for, and one request for a
  missing file ends the process with all other connections unanswered.
  \<open>Peer_Behaviour\<close>: the properties, and where the exchange fails.

  \<^bold>\<open>The ring.\<close>  \<open>Chord_Id\<close>: identifiers and arcs of the ring.  \<open>Message_Queue\<close>: messages and the
  queues, the locale \<open>reply_queue\<close> with two interpretations, the linked list of the code and a plain
  list.  \<open>File_Store\<close>: the lists of file entries.  \<open>File_Transfer\<close>: handing entries to a node that
  joins, byte by byte.  \<open>Chord_Node\<close>, \<open>Chord_Handlers\<close>: the record \<open>proc\<close> is the memory of a process
  (nodes and files by address, the queues), and every operation is an \<open>outcome\<close>: it runs to its
  next interaction (a message to send, one to wait for, a number to take) and carries what is left
  of it as a function of the answer and of the memory at that time, so other threads may run in
  between.  \<open>Chord_Behaviour\<close>: what the operations do without interference.  \<open>Chord_Loops\<close>: every
  loop over a well-formed list ends without a fault, and the buffers of a transfer are large enough.
  \<open>Chord_Datagram\<close>: messages on the wire.  \<open>Chord_System\<close>: rely and guarantee, \<open>keeps\<close>, of all
  operations, under any interference.  \<open>Chord_Types\<close>: the same for the types and bounds of all values
  (\<open>mem_ok\<close>, \<open>fits\<close>): whatever the messages say, an operation leaves the nodes, the file entries and
  the queued messages within their sizes, and so does the listener on any datagram whose strings end
  within their arrays.  \<open>Chord_Network\<close>: processes with their three threads, started by
  \<open>chord_main\<close>, and the bytes of the datagrams between them, as the relation \<open>network_step\<close>; the
  invariant joins both contracts, and gives the theorems \<open>network_values_fit\<close> and
  \<open>ring_never_stabilises\<close>.  \<open>Console\<close>: the prints of containers, the handler of SIGINT and the end
  of a process.

  \<^bold>\<open>Termination.\<close>  Loops over data are structural or have a measure.  A loop that follows pointers in
  memory is a \<open>partial_function\<close>, whose value is \<open>None\<close> when the list is cyclic; on lists that are
  well formed (\<open>list_at\<close>) the lemmas give its value.  No definition has fuel.

  \<^bold>\<open>Parameters.\<close>  The digest of OpenSSL is a parameter (\<open>evp\<close> for the peers, whose calls can fail,
  \<open>sha1\<close> of the record \<open>env\<close>), and so are \<open>inet_addr\<close>, the file system of a ring process and the bytes of memory that is not
  initialised (\<open>junk\<close>).  Where a theorem needs it, the hypothesis
  \<open>evp_computes\<close> says that the calls succeed and compute one function of the bytes, as OpenSSL
  documents; \<open>env_types\<close> says that SHA-1 gives 20 bytes and that uninitialised memory holds
  some value of its type.  What a connection attempt meets (\<open>links\<close>) and which addresses are valid
  (\<open>inet_pton\<close>) are fields of the peer's network; a download that is to succeed assumes that its
  sources answer.  How a stream is cut, the results of system calls, the choice of random sources and the order of an unordered map are arguments, over
  which the theorems are quantified.  The UUIDs of \<open>generate_id\<close> are arguments, and in \<open>Chord_Network\<close> the 32 bits
  it keeps of them are taken to be fresh.

  \<^bold>\<open>Start.\<close>  \<open>Startup\<close>: the arguments, the system calls, the creation of threads and the exit statuses of
  each program, up to the states from which \<open>server_step\<close>, \<open>client_turn\<close> and \<open>network_step\<close> go on.

  \<^bold>\<open>Not modelled.\<close>  A failure to create the thread of one connection, a write to the disk that fails
  (\<open>creatable\<close> says of a path that writing to it succeeds), a string in a datagram or a file entry that
  does not end within its array, what a download has written when a fault ends the process, and the
  instant at which a thread is cancelled when a ring process ends.  The one call of OpenSSL in \<open>sh1.cpp\<close>.  Preemption within one
  interaction of a thread: the tracker's commands, the answer to one request for a piece and the
  operations of a ring process between two
  interactions run as a whole, although the code takes no lock around them, so data races are
  outside the model.  The headers besides their types and constants, which only declare the functions.
\<close>

end
